(* ===== verification/FileES_Prelude.thy ===== *)
theory FileES_Prelude
  imports Main "HOL-Library.AList"
begin

text \<open>
  The prelude of the development: the collections of rewrite rules the component
  theories share, the result type of fallible Go functions, association lists as the
  finite maps of the Go code, and reachable states of a step relation with the
  invariant rule every state machine of the development is proved with.
\<close>

section \<open>Collections\<close>

named_theorems go_simps \<open>rewrite rules for the modelled parts of the Go standard library\<close>
named_theorems result_simps \<open>rewrite rules for fallible results\<close>

section \<open>Results of fallible functions\<close>

text \<open>
  A Go function that returns \<open>(T, error)\<close> returns \<open>'e + 'a\<close> here: \<open>Inl e\<close> is the
  returned error, \<open>Inr a\<close> the value returned with a nil error.
\<close>

type_synonym ('e, 'a) result = "'e + 'a"

definition is_ok :: "('e, 'a) result \<Rightarrow> bool" where
  "is_ok r = (case r of Inl _ \<Rightarrow> False | Inr _ \<Rightarrow> True)"

lemma is_ok_simps [simp]: "is_ok (Inr a)" "\<not> is_ok (Inl e)"
  by (simp_all add: is_ok_def)

lemma is_ok_iff [result_simps]: "is_ok r \<longleftrightarrow> (\<exists>a. r = Inr a)"
  by (cases r) simp_all

section \<open>Association lists as finite maps\<close>

text \<open>
  A Go map the code iterates over is an association list with distinct keys. The list
  order is one of the orders in which Go may range over the map.
\<close>

type_synonym ('k, 'v) assoc = "('k \<times> 'v) list"

abbreviation keys :: "('k, 'v) assoc \<Rightarrow> 'k list" where
  "keys m \<equiv> map fst m"

definition wf_assoc :: "('k, 'v) assoc \<Rightarrow> bool" where
  "wf_assoc m = distinct (keys m)"

lemma wf_assoc_Nil [simp]: "wf_assoc []"
  by (simp add: wf_assoc_def)

lemma wf_assoc_update [simp, intro]: "wf_assoc m \<Longrightarrow> wf_assoc (AList.update k v m)"
  unfolding wf_assoc_def by (rule distinct_update)

lemma wf_assoc_delete [simp, intro]: "wf_assoc m \<Longrightarrow> wf_assoc (AList.delete k m)"
  unfolding wf_assoc_def by (rule distinct_delete)

lemma set_update_cases: "x \<in> set (AList.update k v m) \<Longrightarrow> x = (k, v) \<or> x \<in> set m"
  by (induction m) (auto split: if_splits)

lemma wf_assoc_filter [simp, intro]: "wf_assoc m \<Longrightarrow> wf_assoc (filter P m)"
  unfolding wf_assoc_def by (rule distinct_map_filter)

lemma set_keys_update [simp]: "fst ` set (AList.update k v m) = insert k (fst ` set m)"
  by (simp add: dom_update)

lemma set_keys_delete [simp]: "fst ` set (AList.delete k m) = fst ` set m - {k}"
  by (metis delete_keys set_map set_removeAll)

lemma map_of_delete' [simp]: "map_of (AList.delete k m) = (map_of m)(k := None)"
  by (rule delete_conv')

lemma map_of_update' [simp]: "map_of (AList.update k v m) = (map_of m)(k \<mapsto> v)"
  by (rule update_conv')

lemma wf_assoc_in_map_of: "wf_assoc m \<Longrightarrow> (k, v) \<in> set m \<longleftrightarrow> map_of m k = Some v"
  unfolding wf_assoc_def by (metis map_of_eq_Some_iff)

lemma map_of_None_keys: "map_of m k = None \<longleftrightarrow> k \<notin> fst ` set m"
  by (rule map_of_eq_None_iff)

lemma length_update_absent [simp]:
  "map_of m k = None \<Longrightarrow> length (AList.update k v m) = Suc (length m)"
  by (induction m) (auto split: if_splits)

lemma length_update_present [simp]:
  "map_of m k = Some w \<Longrightarrow> length (AList.update k v m) = length m"
  by (induction m) (auto split: if_splits)

section \<open>Reachable states and invariants\<close>

text \<open>
  A component whose methods run under one mutex is a step relation: a step is one
  critical section. The states reachable from an initial state by any interleaving of
  such steps satisfy every property that holds initially and that each step keeps.
\<close>

inductive reach :: "('s \<Rightarrow> bool) \<Rightarrow> ('s \<Rightarrow> 's \<Rightarrow> bool) \<Rightarrow> 's \<Rightarrow> bool"
  for init :: "'s \<Rightarrow> bool" and step :: "'s \<Rightarrow> 's \<Rightarrow> bool" where
  reach_init: "init s \<Longrightarrow> reach init step s"
| reach_step: "reach init step s \<Longrightarrow> step s t \<Longrightarrow> reach init step t"

locale invariant_system =
  fixes init :: "'s \<Rightarrow> bool"
    and step :: "'s \<Rightarrow> 's \<Rightarrow> bool"
    and inv :: "'s \<Rightarrow> bool"
  assumes inv_init: "init s \<Longrightarrow> inv s"
    and inv_step: "inv s \<Longrightarrow> step s t \<Longrightarrow> inv t"
begin

lemma reach_inv: "reach init step s \<Longrightarrow> inv s"
  by (induction rule: reach.induct) (auto intro: inv_init inv_step)

lemma run_inv: "step\<^sup>*\<^sup>* s t \<Longrightarrow> inv s \<Longrightarrow> inv t"
  by (induction rule: rtranclp_induct) (auto intro: inv_step)

end

end
