(* ===== verification/Go_Lib.thy ===== *)
theory Go_Lib
  imports FileES_Prelude "HOL-Library.List_Lexorder" "HOL-Library.Char_ord"
begin

text \<open>
  The parts of the Go standard library the modelled code relies on: instants and
  durations of package \<open>time\<close>, byte strings of package \<open>strings\<close>, lexical path cleaning
  of package \<open>path/filepath\<close> on Unix, decimal numbers of \<open>strconv\<close> and the validity check of
  \<open>unicode/utf8\<close>. Go strings are byte sequences, and so is the type \<^typ>\<open>string\<close>; comparison of strings is bytewise, as in Go.
\<close>

section \<open>Instants and durations\<close>

text \<open>
  An instant counts nanoseconds from Go's zero time, so \<open>t.IsZero()\<close> is \<open>t = 0\<close>. A
  duration counts nanoseconds. \<open>Sub\<close> saturates at the bounds of a 64-bit integer, as
  Go's does.
\<close>

type_synonym gotime = int
type_synonym duration = int

abbreviation second :: duration where "second \<equiv> 1000000000"
abbreviation minute :: duration where "minute \<equiv> 60000000000"
abbreviation hour :: duration where "hour \<equiv> 3600000000000"

definition time_sub :: "gotime \<Rightarrow> gotime \<Rightarrow> duration" where
  "time_sub a b = max (- (2 ^ 63)) (min (2 ^ 63 - 1) (a - b))"

lemma time_sub_less [go_simps]:
  "- (2 ^ 63) < d \<Longrightarrow> d \<le> 2 ^ 63 - 1 \<Longrightarrow> time_sub a b < d \<longleftrightarrow> a - b < d"
  by (auto simp: time_sub_def)

lemma time_sub_le [go_simps]:
  "- (2 ^ 63) < d \<Longrightarrow> d \<le> 2 ^ 63 - 1 \<Longrightarrow> d \<le> time_sub a b \<longleftrightarrow> d \<le> a - b"
  by (auto simp: time_sub_def)

section \<open>Strings\<close>

definition has_prefix :: "string \<Rightarrow> string \<Rightarrow> bool" where
  "has_prefix s p = (take (length p) s = p)"

definition trim_prefix :: "string \<Rightarrow> string \<Rightarrow> string" where
  "trim_prefix s p = (if has_prefix s p then drop (length p) s else s)"

definition contains_any :: "string \<Rightarrow> string \<Rightarrow> bool" where
  "contains_any s cs = list_ex (\<lambda>c. c \<in> set cs) s"

fun contains_sub :: "string \<Rightarrow> string \<Rightarrow> bool" where
  "contains_sub [] p = (p = [])"
| "contains_sub (c # s) p = (has_prefix (c # s) p \<or> contains_sub s p)"

definition has_suffix :: "string \<Rightarrow> string \<Rightarrow> bool" where
  "has_suffix s p = has_prefix (rev s) (rev p)"

definition trim_suffix :: "string \<Rightarrow> string \<Rightarrow> string" where
  "trim_suffix s p = (if has_suffix s p then take (length s - length p) s else s)"

fun index_sub :: "string \<Rightarrow> string \<Rightarrow> nat option" where
  "index_sub [] p = (if p = [] then Some 0 else None)"
| "index_sub (c # s) p =
     (if has_prefix (c # s) p then Some 0 else map_option Suc (index_sub s p))"

fun split_on :: "char \<Rightarrow> string \<Rightarrow> string list" where
  "split_on c [] = [[]]"
| "split_on c (x # xs) =
     (if x = c then [] # split_on c xs
      else (case split_on c xs of [] \<Rightarrow> [[x]] | y # ys \<Rightarrow> (x # y) # ys))"

fun join :: "string \<Rightarrow> string list \<Rightarrow> string" where
  "join sep [] = []"
| "join sep [x] = x"
| "join sep (x # y # ys) = x @ sep @ join sep (y # ys)"

lemma split_on_not_Nil [simp]: "split_on c s \<noteq> []"
  by (induction s) (auto split: list.splits)

lemma join_Cons: "xs \<noteq> [] \<Longrightarrow> join sep (x # xs) = x @ sep @ join sep xs"
  by (cases xs) auto

lemma join_split_on: "join [c] (split_on c s) = s"
proof (induction s)
  case (Cons x xs)
  show ?case
  proof (cases "split_on c xs")
    case (Cons y ys)
    with Cons.IH show ?thesis
      by (cases ys) (auto simp: join_Cons)
  qed simp
qed simp

lemma split_on_no_sep: "y \<in> set (split_on c s) \<Longrightarrow> c \<notin> set y"
  by (induction s arbitrary: y) (auto split: if_splits list.splits)

lemma split_on_id: "c \<notin> set s \<Longrightarrow> split_on c s = [s]"
  by (induction s) auto

lemma contains_any_iff [go_simps]: "contains_any s cs \<longleftrightarrow> (\<exists>c \<in> set s. c \<in> set cs)"
  by (simp add: contains_any_def list_ex_iff)

lemma has_prefix_append [simp]: "has_prefix (p @ s) p"
  by (simp add: has_prefix_def)

lemma has_prefix_iff: "has_prefix s p \<longleftrightarrow> (\<exists>r. s = p @ r)"
  unfolding has_prefix_def by (metis append_take_drop_id append_eq_conv_conj)

text \<open>
  \<open>strings.TrimSpace\<close> removes leading and trailing Unicode white space. The sequences
  are the UTF-8 encodings of the code points \<open>unicode.IsSpace\<close> accepts; no encoding is a
  prefix or a suffix of another, and one that ends (or begins) a string decodes to its code
  point whatever surrounds it, so trimming the encoded sequences is trimming the runes.
\<close>

definition space_seqs :: "string list" where
  "space_seqs =
     [[CHR 0x09], [CHR 0x0A], [CHR 0x0B], [CHR 0x0C], [CHR 0x0D], [CHR 0x20],
      [CHR 0xC2, CHR 0x85], [CHR 0xC2, CHR 0xA0], [CHR 0xE1, CHR 0x9A, CHR 0x80],
      [CHR 0xE2, CHR 0x80, CHR 0x80], [CHR 0xE2, CHR 0x80, CHR 0x81],
      [CHR 0xE2, CHR 0x80, CHR 0x82], [CHR 0xE2, CHR 0x80, CHR 0x83],
      [CHR 0xE2, CHR 0x80, CHR 0x84], [CHR 0xE2, CHR 0x80, CHR 0x85],
      [CHR 0xE2, CHR 0x80, CHR 0x86], [CHR 0xE2, CHR 0x80, CHR 0x87],
      [CHR 0xE2, CHR 0x80, CHR 0x88], [CHR 0xE2, CHR 0x80, CHR 0x89],
      [CHR 0xE2, CHR 0x80, CHR 0x8A], [CHR 0xE2, CHR 0x80, CHR 0xA8],
      [CHR 0xE2, CHR 0x80, CHR 0xA9], [CHR 0xE2, CHR 0x80, CHR 0xAF],
      [CHR 0xE2, CHR 0x81, CHR 0x9F], [CHR 0xE3, CHR 0x80, CHR 0x80]]"

function trim_seqs :: "string list \<Rightarrow> string \<Rightarrow> string" where
  "trim_seqs S s =
     (case find (\<lambda>p. p \<noteq> [] \<and> has_prefix s p) S of
        None \<Rightarrow> s
      | Some p \<Rightarrow> trim_seqs S (drop (length p) s))"
  by pat_completeness auto
termination
proof (relation "measure (\<lambda>(S, s). length s)")
  fix S s p
  assume "find (\<lambda>p. p \<noteq> [] \<and> has_prefix s p) S = Some p"
  then have "p \<noteq> []" and "has_prefix s p"
    by (auto simp: find_Some_iff)
  then show "((S, drop (length p) s), (S, s)) \<in> measure (\<lambda>(S, s). length s)"
    by (cases s) (auto simp: has_prefix_def)
qed simp

declare trim_seqs.simps [simp del]

definition trim_space :: "string \<Rightarrow> string" where
  "trim_space s = rev (trim_seqs (map rev space_seqs) (rev (trim_seqs space_seqs s)))"

lemma trim_seqs_Nil [simp]: "trim_seqs S [] = []"
proof -
  have "find (\<lambda>p. p \<noteq> [] \<and> has_prefix [] p) S = None"
    by (auto simp: find_None_iff has_prefix_def)
  then show ?thesis by (simp add: trim_seqs.simps [of S "[]"])
qed

lemma trim_seqs_fixed: "find (\<lambda>p. p \<noteq> [] \<and> has_prefix (trim_seqs S s) p) S = None"
proof (induction S s rule: trim_seqs.induct)
  case (1 S s)
  show ?case
  proof (cases "find (\<lambda>p. p \<noteq> [] \<and> has_prefix s p) S")
    case None
    then show ?thesis by (simp add: trim_seqs.simps [of S s])
  next
    case (Some p)
    with 1 show ?thesis by (simp add: trim_seqs.simps [of S s])
  qed
qed

lemma trim_seqs_idem [simp]: "trim_seqs S (trim_seqs S s) = trim_seqs S s"
  by (subst trim_seqs.simps) (simp add: trim_seqs_fixed)

lemma trim_seqs_id:
  assumes "\<And>p. p \<in> set S \<Longrightarrow> p \<noteq> [] \<Longrightarrow> s \<noteq> [] \<Longrightarrow> hd p \<noteq> hd s"
  shows "trim_seqs S s = s"
proof (cases s)
  case (Cons c t)
  have "find (\<lambda>p. p \<noteq> [] \<and> has_prefix s p) S = None"
    using assms Cons by (fastforce simp: find_None_iff has_prefix_iff Cons_eq_append_conv)
  then show ?thesis by (simp add: trim_seqs.simps [of S s])
qed simp

lemma trim_seqs_suffix: "\<exists>p. s = p @ trim_seqs S s"
proof (induction S s rule: trim_seqs.induct)
  case (1 S s)
  show ?case
  proof (cases "find (\<lambda>p. p \<noteq> [] \<and> has_prefix s p) S")
    case None
    then show ?thesis by (simp add: trim_seqs.simps [of S s])
  next
    case (Some p)
    with 1 obtain q where "drop (length p) s = q @ trim_seqs S (drop (length p) s)"
      by auto
    moreover have "trim_seqs S s = trim_seqs S (drop (length p) s)"
      using Some by (simp add: trim_seqs.simps [of S s])
    ultimately have "s = (take (length p) s @ q) @ trim_seqs S s"
      by (metis append_assoc append_take_drop_id)
    then show ?thesis ..
  qed
qed

lemma set_trim_seqs: "set (trim_seqs S s) \<subseteq> set s"
proof -
  obtain p where "s = p @ trim_seqs S s" using trim_seqs_suffix by blast
  then have "set s = set p \<union> set (trim_seqs S s)" by (metis set_append)
  then show ?thesis by blast
qed

lemma set_trim_space: "set (trim_space s) \<subseteq> set s"
proof -
  have "set (trim_space s) \<subseteq> set (trim_seqs space_seqs s)"
    unfolding trim_space_def set_rev by (rule subset_trans [OF set_trim_seqs]) simp
  also have "\<dots> \<subseteq> set s" by (rule set_trim_seqs)
  finally show ?thesis .
qed

lemma trim_space_Nil [simp]: "trim_space [] = []"
  by (simp add: trim_space_def)

section \<open>Lexical paths on Unix\<close>

text \<open>
  \<open>filepath.IsAbs\<close> and \<open>filepath.Clean\<close> with \<open>/\<close> as the separator: empty and \<open>.\<close>
  elements go, an inner \<open>..\<close> eliminates the element before it, a leading \<open>..\<close> of a
  rooted path is dropped, and an empty result is \<open>.\<close>.
\<close>

definition is_abs :: "string \<Rightarrow> bool" where
  "is_abs p = has_prefix p ''/''"

fun clean_segs :: "bool \<Rightarrow> string list \<Rightarrow> string list \<Rightarrow> string list" where
  "clean_segs rooted [] acc = rev acc"
| "clean_segs rooted (x # xs) acc =
     (if x = '''' \<or> x = ''.'' then clean_segs rooted xs acc
      else if x = ''..'' then
        (case acc of
           [] \<Rightarrow> clean_segs rooted xs (if rooted then [] else [''..''])
         | a # as \<Rightarrow> clean_segs rooted xs (if a = ''..'' then ''..'' # acc else as))
      else clean_segs rooted xs (x # acc))"

definition go_clean :: "string \<Rightarrow> string" where
  "go_clean p =
     (if p = '''' then ''.''
      else if is_abs p then ''/'' @ join ''/'' (clean_segs True (split_on CHR ''/'' p) [])
      else (let out = join ''/'' (clean_segs False (split_on CHR ''/'' p) [])
            in if out = '''' then ''.'' else out))"

lemma is_abs_go_clean [simp]: "is_abs p \<Longrightarrow> is_abs (go_clean p)"
  by (auto simp: go_clean_def is_abs_def has_prefix_def)

text \<open>\<open>filepath.Dir\<close>: all but the last element, cleaned. The result is shorter than its
  argument, or the walk towards the root has ended.\<close>

definition go_dir :: "string \<Rightarrow> string" where
  "go_dir p = go_clean (rev (dropWhile (\<lambda>c. c \<noteq> CHR ''/'') (rev p)))"

definition weight :: "string list \<Rightarrow> nat" where
  "weight xs = sum_list (map (\<lambda>x. Suc (length x)) xs)"

lemma weight_simps [simp]:
  "weight [] = 0" "weight (x # xs) = Suc (length x) + weight xs"
  "weight (xs @ ys) = weight xs + weight ys" "weight (rev xs) = weight xs"
  by (simp_all add: weight_def sum_list_rev flip: rev_map)

lemma weight_split_on: "weight (split_on c s) = Suc (length s)"
  by (induction s) (auto split: list.splits)

lemma length_join: "xs \<noteq> [] \<Longrightarrow> Suc (length (join [c] xs)) = weight xs"
  by (induction "[c]" xs rule: join.induct) auto

lemma weight_clean_segs: "weight (clean_segs r xs acc) \<le> weight acc + weight (filter (\<lambda>x. x \<noteq> []) xs)"
proof (induction xs arbitrary: acc)
  case (Cons x xs)
  consider "x = []" | "x = ''.''" | "x = ''..''" "acc = []" | a as where "x = ''..''" "acc = a # as"
    | "x \<noteq> []" "x \<noteq> ''.''" "x \<noteq> ''..''"
    by (cases acc) blast+
  then show ?case
  proof cases
    case 1
    then show ?thesis using Cons.IH [of acc] by simp
  next
    case 2
    then show ?thesis using Cons.IH [of acc] by simp
  next
    case 3
    then show ?thesis using Cons.IH [of "[]"] Cons.IH [of "[''..'']"] by (cases r) simp_all
  next
    case 4
    then show ?thesis
      using Cons.IH [of as] Cons.IH [of "''..'' # acc"] by (cases "a = ''..''") simp_all
  next
    case 5
    then show ?thesis using Cons.IH [of "x # acc"] by simp
  qed
qed simp

lemma split_on_append: "split_on c (a @ c # r) = split_on c a @ split_on c r"
  by (induction a) (auto split: list.splits)

lemma split_on_snoc: "split_on c (s @ [c]) = split_on c s @ [[]]"
  by (simp add: split_on_append)

lemma weight_filter_nonempty:
  "weight (filter (\<lambda>x. x \<noteq> []) xs) + length (filter (\<lambda>x. x = []) xs) = weight xs"
  by (induction xs) auto

lemma split_on_Cons_sep: "split_on c (c # s) = [] # split_on c s"
  by simp

lemma go_clean_abs:
  "is_abs p \<Longrightarrow> go_clean p = CHR ''/'' # join ''/'' (clean_segs True (split_on CHR ''/'' p) [])"
  by (auto simp: go_clean_def is_abs_def has_prefix_def)

lemma go_clean_rel:
  "\<not> is_abs p \<Longrightarrow> go_clean p \<noteq> ''.'' \<Longrightarrow>
     go_clean p = join ''/'' (clean_segs False (split_on CHR ''/'' p) [])"
  by (auto simp: go_clean_def Let_def split: if_splits)

lemma length_go_clean_dir:
  assumes "go_clean (s @ ''/'') \<noteq> ''.''" "s \<noteq> ''''"
  shows "length (go_clean (s @ ''/'')) < length (s @ ''/'')"
proof -
  define p where "p = s @ ''/''"
  define segs where "segs = split_on CHR ''/'' p"
  define out where "out = clean_segs (is_abs p) segs []"
  have w: "weight segs = length s + 2"
    by (simp add: segs_def p_def weight_split_on)
  have "(if is_abs p then 2 else 1) \<le> length (filter (\<lambda>x. x = []) segs)"
  proof (cases "is_abs p")
    case True
    with assms(2) obtain t where "s = CHR ''/'' # t"
      by (cases s) (auto simp: p_def is_abs_def has_prefix_def)
    then show ?thesis using True by (simp add: segs_def p_def split_on_snoc)
  qed (simp add: segs_def p_def split_on_snoc)
  then have le: "weight out + (if is_abs p then 2 else 1) \<le> length s + 2"
    using weight_clean_segs [of "is_abs p" segs "[]"] weight_filter_nonempty [of segs] w
    unfolding out_def by simp
  have len: "length (join ''/'' out) = weight out - 1"
    using length_join [of out "CHR ''/''"] by (cases "out = []") auto
  have "1 \<le> length s" using assms(2) by (cases s) simp_all
  then have "length (go_clean p) < length p"
    using assms(1) le len go_clean_abs [of p] go_clean_rel [of p]
    unfolding p_def [symmetric] out_def segs_def
    by (cases "is_abs p") (simp_all add: p_def)
  then show ?thesis by (simp only: p_def)
qed

lemma dropWhile_slash:
  assumes "dropWhile (\<lambda>c. c \<noteq> x) xs \<noteq> []"
  obtains ys where "dropWhile (\<lambda>c. c \<noteq> x) xs = x # ys"
  using hd_dropWhile [OF assms] assms by (cases "dropWhile (\<lambda>c. c \<noteq> x) xs") simp_all

lemma go_dir_shorter:
  assumes "go_dir p \<noteq> p" "go_dir p \<noteq> ''.''"
  shows "length (go_dir p) < length p"
proof -
  define d where "d = dropWhile (\<lambda>c. c \<noteq> CHR ''/'') (rev p)"
  have le: "length d \<le> length p"
    unfolding d_def using length_dropWhile_le [of "\<lambda>c. c \<noteq> CHR ''/''" "rev p"] by simp
  have dir: "go_dir p = go_clean (rev d)" by (simp add: go_dir_def d_def)
  have "d \<noteq> []"
  proof
    assume "d = []"
    then have "go_dir p = ''.''" unfolding dir by (simp add: go_clean_def)
    with assms(2) show False by contradiction
  qed
  then obtain ys where ys: "d = CHR ''/'' # ys"
    unfolding d_def by (rule dropWhile_slash)
  show ?thesis
  proof (cases "ys = []")
    case True
    have root: "go_dir p = ''/''" unfolding dir ys True
      by (simp add: go_clean_def is_abs_def has_prefix_def)
    have "length p \<noteq> 1"
    proof
      assume "length p = 1"
      then obtain c where "p = [c]" by (cases p) auto
      with ys True have "p = ''/''" unfolding d_def by (simp split: if_splits)
      with root assms(1) show False by simp
    qed
    with le ys have "1 < length p" by simp
    with root show ?thesis by simp
  next
    case False
    have "go_dir p = go_clean (rev ys @ ''/'')" unfolding dir ys by simp
    with False assms(2) have "length (go_dir p) < length d"
      using length_go_clean_dir [of "rev ys"] unfolding ys by simp
    with le show ?thesis by simp
  qed
qed

text \<open>Cleaning is idempotent: what it returns has nothing left to remove.\<close>

fun clean_acc :: "bool \<Rightarrow> string list \<Rightarrow> bool" where
  "clean_acc r [] = True"
| "clean_acc r (x # acc) = (x \<noteq> [] \<and> x \<noteq> ''.'' \<and> CHR ''/'' \<notin> set x
     \<and> (x = ''..'' \<longrightarrow> \<not> r \<and> (acc = [] \<or> hd acc = ''..'')) \<and> clean_acc r acc)"

lemma clean_segs_acc:
  assumes "clean_acc r acc" "\<forall>x \<in> set xs. CHR ''/'' \<notin> set x"
  shows "\<exists>acc'. clean_segs r xs acc = rev acc' \<and> clean_acc r acc'"
  using assms
proof (induction xs arbitrary: acc)
  case (Cons x xs)
  consider "x = [] \<or> x = ''.''" | "x = ''..''" "acc = []" | a as where "x = ''..''" "acc = a # as"
    | "x \<noteq> []" "x \<noteq> ''.''" "x \<noteq> ''..''"
    by (cases acc) blast+
  then show ?case
  proof cases
    case 1
    with Cons.IH [of acc] Cons.prems show ?thesis by auto
  next
    case 2
    with Cons.IH [of "if r then [] else [''..'']"] Cons.prems show ?thesis by (cases r) simp_all
  next
    case 3
    have "clean_acc r (if a = ''..'' then ''..'' # acc else as)"
      using Cons.prems(1) 3 by (cases r) simp_all
    from Cons.IH [OF this] Cons.prems(2) 3 show ?thesis by (cases "a = ''..''") simp_all
  next
    case 4
    have "clean_acc r (x # acc)" using Cons.prems 4 by simp
    from Cons.IH [OF this] Cons.prems(2) 4 show ?thesis by simp
  qed
qed simp

lemma clean_segs_append: "clean_segs r (xs @ ys) acc = clean_segs r ys (rev (clean_segs r xs acc))"
proof (induction xs arbitrary: acc)
  case (Cons x xs)
  then show ?case by (cases acc) simp_all
qed simp

lemma clean_segs_fixed: "clean_acc r acc \<Longrightarrow> clean_segs r (rev acc) [] = rev acc"
proof (induction acc)
  case (Cons x acc)
  then have "clean_segs r (rev (x # acc)) [] = clean_segs r [x] acc"
    by (simp add: clean_segs_append)
  also have "\<dots> = rev (x # acc)"
    using Cons.prems by (cases acc) (auto split: if_splits)
  finally show ?case .
qed simp

lemma split_on_join: "xs \<noteq> [] \<Longrightarrow> \<forall>x \<in> set xs. c \<notin> set x \<Longrightarrow> split_on c (join [c] xs) = xs"
proof (induction "[c]" xs rule: join.induct)
  case (3 x y ys)
  then have "split_on c (join [c] (x # y # ys)) = split_on c x @ split_on c (join [c] (y # ys))"
    using split_on_append [of c x "join [c] (y # ys)"] by simp
  with 3 show ?case by (simp add: split_on_id)
qed (auto simp: split_on_id)

lemma clean_acc_elems: "clean_acc r acc \<Longrightarrow> x \<in> set acc \<Longrightarrow> x \<noteq> [] \<and> CHR ''/'' \<notin> set x"
  by (induction acc) auto

lemma join_not_Nil: "xs \<noteq> [] \<Longrightarrow> hd xs \<noteq> [] \<Longrightarrow> join sep xs \<noteq> [] \<and> hd (join sep xs) = hd (hd xs)"
  by (cases xs; cases "tl xs") auto

lemma go_clean_cases:
  obtains acc where "go_clean p = CHR ''/'' # join ''/'' (rev acc)" "clean_acc True acc"
  | "go_clean p = ''.''"
  | acc where "go_clean p = join ''/'' (rev acc)" "clean_acc False acc" "acc \<noteq> []"
proof -
  have no: "\<forall>x \<in> set (split_on CHR ''/'' p). CHR ''/'' \<notin> set x" using split_on_no_sep by blast
  obtain a b where a: "clean_segs True (split_on CHR ''/'' p) [] = rev a" "clean_acc True a"
    and b: "clean_segs False (split_on CHR ''/'' p) [] = rev b" "clean_acc False b"
    using clean_segs_acc [OF _ no, of True "[]"] clean_segs_acc [OF _ no, of False "[]"] by auto
  show ?thesis
  proof (cases "is_abs p")
    case True
    then show ?thesis using that(1) [of a] a go_clean_abs [OF True] by simp
  next
    case False
    show ?thesis
    proof (cases "b = []")
      case True
      then have "go_clean p = ''.''" using b False by (simp add: go_clean_def)
      then show ?thesis by (rule that(2))
    next
      case False
      then have "hd (rev b) \<noteq> []" using clean_acc_elems [OF b(2)] by (metis hd_in_set rev_is_Nil_conv set_rev)
      then have "join ''/'' (rev b) \<noteq> []" using join_not_Nil [of "rev b"] False by simp
      then have "go_clean p = join ''/'' (rev b) \<or> go_clean p = ''.''"
        using \<open>\<not> is_abs p\<close> b by (simp add: go_clean_def)
      then show ?thesis using that(2) that(3) [of b] b False by blast
    qed
  qed
qed

lemma go_clean_idem: "go_clean (go_clean p) = go_clean p"
proof (cases rule: go_clean_cases [of p])
  case (1 acc)
  have abs: "is_abs (go_clean p)" by (simp add: 1 is_abs_def has_prefix_def)
  have segs: "clean_segs True (split_on CHR ''/'' (go_clean p)) [] = rev acc"
  proof (cases "acc = []")
    case False
    then have "split_on CHR ''/'' (join ''/'' (rev acc)) = rev acc"
      using clean_acc_elems [OF 1(2)] by (intro split_on_join) auto
    with clean_segs_fixed [OF 1(2)] show ?thesis by (simp add: 1)
  qed (simp add: 1)
  show ?thesis using go_clean_abs [OF abs] segs by (simp add: 1(1))
next
  case 2
  then show ?thesis by (simp add: go_clean_def is_abs_def has_prefix_def)
next
  case (3 acc)
  have "rev acc \<noteq> []" using 3 by simp
  moreover from this have "hd (rev acc) \<in> set acc" using hd_in_set [of "rev acc"] by simp
  ultimately have ne: "rev acc \<noteq> []" "hd (rev acc) \<noteq> []" "CHR ''/'' \<notin> set (hd (rev acc))"
    using clean_acc_elems [OF 3(2)] by blast+
  then have j: "join ''/'' (rev acc) \<noteq> []" "hd (join ''/'' (rev acc)) = hd (hd (rev acc))"
    using join_not_Nil by blast+
  then have abs: "\<not> is_abs (go_clean p)" using ne by (auto simp: 3 is_abs_def has_prefix_iff)
  have "split_on CHR ''/'' (join ''/'' (rev acc)) = rev acc"
    using ne clean_acc_elems [OF 3(2)] by (intro split_on_join) auto
  then have "clean_segs False (split_on CHR ''/'' (go_clean p)) [] = rev acc"
    using clean_segs_fixed [OF 3(2)] by (simp add: 3)
  with abs j have "go_clean (join ''/'' (rev acc)) = join ''/'' (rev acc)"
    unfolding 3(1) by (simp add: go_clean_def [of "join ''/'' (rev acc)"])
  then show ?thesis by (simp add: 3(1))
qed

lemma go_clean_not_empty [simp]: "go_clean p \<noteq> []"
proof (cases rule: go_clean_cases [of p])
  case (3 acc)
  then have "hd (rev acc) \<noteq> []" using clean_acc_elems [OF 3(2)] hd_in_set [of "rev acc"] by auto
  with 3 show ?thesis using join_not_Nil [of "rev acc"] by auto
qed auto

text \<open>\<open>filepath.Join\<close> drops leading empty elements and cleans the rest.\<close>

definition go_join :: "string list \<Rightarrow> string" where
  "go_join xs =
     (case dropWhile (\<lambda>x. x = []) xs of [] \<Rightarrow> [] | y # ys \<Rightarrow> go_clean (join [CHR 0x2F] (y # ys)))"

section \<open>Decimal numbers\<close>

text \<open>\<open>strconv.FormatInt\<close> in base ten.\<close>

fun format_nat :: "nat \<Rightarrow> string" where
  "format_nat n = (if n < 10 then [char_of (48 + n)] else format_nat (n div 10) @ [char_of (48 + n mod 10)])"

declare format_nat.simps [simp del]

definition format_int :: "int \<Rightarrow> string" where
  "format_int i = (if i < 0 then CHR ''-'' # format_nat (nat (- i)) else format_nat (nat i))"

definition dec_value :: "string \<Rightarrow> nat" where
  "dec_value s = foldl (\<lambda>v c. v * 10 + (of_char c - 48)) 0 s"

lemma digit_of_char: "k < 10 \<Longrightarrow> of_char (char_of (48 + k :: nat)) = 48 + k"
  by simp

lemma dec_value_format [simp]: "dec_value (format_nat n) = n"
proof (induction n rule: format_nat.induct)
  case (1 n)
  show ?case
  proof (cases "n < 10")
    case True
    then show ?thesis by (simp add: format_nat.simps [of n] dec_value_def)
  next
    case False
    have "dec_value (format_nat n) = dec_value (format_nat (n div 10)) * 10 + n mod 10"
      using False by (simp add: format_nat.simps [of n] dec_value_def)
    then show ?thesis using 1 False by simp
  qed
qed

lemma digit_not_zero: "k < 10 \<Longrightarrow> char_of (48 + k :: nat) \<noteq> CHR 0x00"
proof
  assume "k < 10" "char_of (48 + k :: nat) = CHR 0x00"
  then have "of_char (char_of (48 + k :: nat)) = (of_char CHR 0x00 :: nat)" by simp
  then show False using \<open>k < 10\<close> by simp
qed

lemma format_nat_no_zero: "CHR 0x00 \<notin> set (format_nat n)"
proof (induction n rule: format_nat.induct)
  case (1 n)
  have "char_of (48 + n mod 10) \<noteq> CHR 0x00" by (rule digit_not_zero) simp
  then show ?case using 1 digit_not_zero [of n] by (auto simp: format_nat.simps [of n])
qed

lemma separator_split:
  "x \<notin> set a \<Longrightarrow> x \<notin> set a' \<Longrightarrow> a @ x # b = a' @ x # b' \<Longrightarrow> a = a' \<and> b = b'"
proof (induction a arbitrary: a')
  case Nil
  then show ?case by (cases a') auto
next
  case (Cons y a)
  then show ?case by (cases a') auto
qed

definition is_digit :: "char \<Rightarrow> bool" where
  "is_digit c = (48 \<le> (of_char c :: nat) \<and> (of_char c :: nat) \<le> 57)"

lemma is_digit_char_of: "k < 10 \<Longrightarrow> is_digit (char_of (48 + k :: nat))"
  by (simp add: is_digit_def)

lemma format_nat_digits: "list_all is_digit (format_nat n)"
proof (induction n rule: format_nat.induct)
  case (1 n)
  have "is_digit (char_of (48 + n mod 10))" by (rule is_digit_char_of) simp
  then show ?case using 1 is_digit_char_of [of n] by (simp add: format_nat.simps [of n])
qed

lemma format_nat_not_Nil [simp]: "format_nat n \<noteq> []"
  by (simp add: format_nat.simps [of n])

lemma length_format_nat: "n < 10 ^ k \<Longrightarrow> 0 < k \<Longrightarrow> length (format_nat n) \<le> k"
proof (induction k arbitrary: n)
  case (Suc k)
  show ?case
  proof (cases "n < 10")
    case False
    then have "0 < k" using Suc.prems(1) by (cases k) auto
    moreover have "n div 10 < 10 ^ k" using Suc.prems(1) by (simp add: less_mult_imp_div_less mult.commute)
    ultimately show ?thesis using Suc.IH False by (simp add: format_nat.simps [of n])
  qed (simp add: format_nat.simps [of n])
qed simp

text \<open>\<open>strconv.Atoi\<close>: an optional sign and decimal digits, within 64 bits.\<close>

definition atoi :: "string \<Rightarrow> int option" where
  "atoi s =
     (let neg = has_prefix s ''-'';
          ds = (if neg \<or> has_prefix s ''+'' then tl s else s);
          v = (if neg then - int (dec_value ds) else int (dec_value ds)) in
      if ds = [] \<or> \<not> list_all is_digit ds \<or> v < - (2 ^ 63) \<or> 2 ^ 63 \<le> v then None else Some v)"

lemma atoi_format_nat:
  assumes "n < 2 ^ 63"
  shows "atoi (format_nat n) = Some (int n)"
proof -
  note d = format_nat_digits [of n]
  then have "is_digit (hd (format_nat n))" by (simp add: list_all_iff)
  then have "hd (format_nat n) \<noteq> CHR ''-''" "hd (format_nat n) \<noteq> CHR ''+''" by (auto simp: is_digit_def)
  then have "\<not> has_prefix (format_nat n) ''-''" "\<not> has_prefix (format_nat n) ''+''"
    by (auto simp: has_prefix_iff)
  moreover have "int n < 2 ^ 63" using assms by simp
  ultimately show ?thesis using d by (simp add: atoi_def Let_def)
qed

section \<open>UTF-8\<close>

text \<open>\<open>utf8.ValidString\<close>: no overlong forms, no surrogates, nothing above U+10FFFF.\<close>

definition cont :: "nat \<Rightarrow> bool" where
  "cont b = (128 \<le> b \<and> b \<le> 191)"

fun utf8_bytes :: "nat list \<Rightarrow> bool" where
  "utf8_bytes [] = True"
| "utf8_bytes (a # r) =
     (if a < 128 then utf8_bytes r
      else if 194 \<le> a \<and> a \<le> 223 then
        (case r of b # s \<Rightarrow> cont b \<and> utf8_bytes s | _ \<Rightarrow> False)
      else if 224 \<le> a \<and> a \<le> 239 then
        (case r of b # c # s \<Rightarrow> (if a = 224 then 160 else 128) \<le> b \<and> b \<le> (if a = 237 then 159 else 191)
            \<and> cont c \<and> utf8_bytes s | _ \<Rightarrow> False)
      else if 240 \<le> a \<and> a \<le> 244 then
        (case r of b # c # d # s \<Rightarrow> (if a = 240 then 144 else 128) \<le> b \<and> b \<le> (if a = 244 then 143 else 191)
            \<and> cont c \<and> cont d \<and> utf8_bytes s | _ \<Rightarrow> False)
      else False)"

definition utf8_valid :: "string \<Rightarrow> bool" where
  "utf8_valid s = utf8_bytes (map of_char s)"

section \<open>Files\<close>

text \<open>A file that cannot be decoded is \<open>Garbage\<close>.\<close>

datatype 'a stored = Garbage | Stored 'a

section \<open>Atomic replacement of a file\<close>

text \<open>
  A save fails before the rename (\<open>SaveFail\<close>), or after it while the directory is synced
  (\<open>SaveUnsynced\<close>): then an error is returned although the new file is in place.
\<close>

datatype save_outcome = SaveOk | SaveFail | SaveUnsynced

end
