(* ===== verification/Provisioning.thy ===== *)
theory Provisioning
  imports Go_Lib
begin

text \<open>
  The provisioning store of the daemon (\<open>pkg/provisioning/store.go\<close>, \<open>archive.go\<close>): the
  durable record of one repository creation, its transitions and its validation. A
  stored operation is the record the JSON file decodes to; a file the decoder rejects
  and a file that cannot be read are cells of their own. \<open>uuid.Parse\<close>, the JSON decoders
  of the control results, RFC 3339 parsing and the SHA-256 digest of a result are the
  fields of the parameter \<open>ext\<close>; every lemma holds for all of them.
\<close>

section \<open>Data\<close>

datatype prov_state =
    StateLocalValidated | StateStoragePreflightRequested | StateStoragePreflightFailed
  | StateStorageApproved | StateProvisioningRequested | StateRepositoryRequestFailed
  | StateRepositoryReady | StateInitialCommitInProgress | StateInitialCommitFailed
  | StateInitialSnapshotPublished | StateActive | StateAbandoned
  | StateOther string

datatype ticket_type =
    TicketStoragePreflight | TicketCreateRepository | TicketInitialCommit
  | TicketOther string

datatype request_status = RequestPending | RequestOK | RequestError | RequestOther string

record error_body =
  eb_code :: string
  eb_message :: string
  eb_details :: "(string, string) assoc"

record request_record =
  rr_type :: ticket_type
  rr_status :: request_status
  rr_digest :: string
  rr_error :: "error_body option"

record archive_import =
  ai_source :: string
  ai_target :: string
  ai_size :: int
  ai_modified :: string
  ai_digest :: string
  ai_loaded_uuid :: string
  ai_completed :: bool

record operation =
  op_schema :: string
  operation_id :: string
  client_id :: string
  local_path :: string
  op_name :: string
  op_state :: prov_state
  repo_id :: string
  repo_url :: string
  op_revision :: int
  op_paths :: int
  snapshot_bytes :: int
  snapshot_paths :: int
  requests :: "(string, request_record) assoc"
  created_at :: string
  updated_at :: string
  archive :: "archive_import option"

text \<open>Results of the control plane (\<open>pkg/control/v1/messages.go\<close>).\<close>

datatype result_status = ResultOK | ResultError | ResultOther string

record control_result =
  cr_schema :: string
  cr_operation_id :: string
  cr_request_id :: string
  cr_type :: ticket_type
  cr_status :: result_status
  cr_completed_at :: string
  cr_result :: string
  cr_error :: "error_body option"

record ext =
  uuid_ok :: "string \<Rightarrow> bool"
  rfc3339_ok :: "string \<Rightarrow> bool"
  dec_preflight :: "string \<Rightarrow> (int \<times> int \<times> string) option"
  dec_create :: "string \<Rightarrow> (string \<times> string) option"
  dec_initial :: "string \<Rightarrow> bool option"
  other_type_ok :: "string \<Rightarrow> bool"
  other_payload_ok :: "control_result \<Rightarrow> bool"
  result_digest :: "control_result \<Rightarrow> string"

datatype prov_error =
    ErrOperationUUID | ErrRequired | ErrNotAbsolute | ErrNegativeSize | ErrDifferentParameters
  | ErrNotExist | ErrRead | ErrDecode | ErrIO
  | ErrSchema | ErrIdentity | ErrArchiveState | ErrUnsupportedState | ErrNeedsRepository
  | ErrNeedsRevision | ErrRevisionZero | ErrStoredRequestUUID | ErrStoredRequestType
  | ErrStoredRequestStatus
  | ErrNotRepairable | ErrRepairInput | ErrNotIdentified | ErrActiveAbandon | ErrNotAbandonable
  | ErrRequestReused | ErrRequestUUID | ErrTransition prov_state prov_state
  | ErrUnregistered | ErrConflictingResult | ErrConflictingFailure | ErrFailureDetails
  | ErrResultSchema | ErrResultUUID | ErrResultTime | ErrResultType | ErrResultStatus
  | ErrResultHasError | ErrResultPayload | ErrResultError | ErrResultHasPayload
  | ErrUnexpectedType
  | ErrNotPublished | ErrArchiveUUID | ErrArchiveGeneration | ErrNotConfirmed

datatype cell = Unreadable | Corrupt | Stored operation

type_synonym store = "(string, cell) assoc"

definition StateSchema :: string where
  "StateSchema = ''filees.provisioning/v1''"

definition ControlSchema :: string where
  "ControlSchema = ''filees.control/v1''"

section \<open>Validation, loading and saving\<close>

definition stateNeedsRepository :: "prov_state \<Rightarrow> bool" where
  "stateNeedsRepository s =
     (s \<in> {StateRepositoryReady, StateInitialCommitInProgress, StateInitialCommitFailed,
           StateInitialSnapshotPublished, StateActive, StateAbandoned})"

definition supported_state :: "prov_state \<Rightarrow> bool" where
  "supported_state s = (case s of StateOther _ \<Rightarrow> False | _ \<Rightarrow> True)"

definition validate_archive :: "ext \<Rightarrow> archive_import \<Rightarrow> bool" where
  "validate_archive X a =
     (is_abs (ai_source a) \<and> is_abs (ai_target a) \<and> 0 < ai_size a \<and> ai_modified a \<noteq> ''''
      \<and> \<not> (ai_completed a \<and> ai_loaded_uuid a = '''')
      \<and> (ai_loaded_uuid a \<noteq> '''' \<longrightarrow> uuid_ok X (ai_loaded_uuid a)))"

fun validate_requests :: "ext \<Rightarrow> (string, request_record) assoc \<Rightarrow> prov_error option" where
  "validate_requests X [] = None"
| "validate_requests X ((rid, r) # rs) =
     (if \<not> uuid_ok X rid then Some ErrStoredRequestUUID
      else if rr_type r \<notin> {TicketStoragePreflight, TicketCreateRepository, TicketInitialCommit}
        then Some ErrStoredRequestType
      else if rr_status r \<notin> {RequestPending, RequestOK, RequestError}
        then Some ErrStoredRequestStatus
      else validate_requests X rs)"

definition validateOperation :: "ext \<Rightarrow> operation \<Rightarrow> prov_error option" where
  "validateOperation X op =
     (if op_schema op \<noteq> StateSchema then Some ErrSchema
      else if \<not> uuid_ok X (operation_id op) then Some ErrOperationUUID
      else if client_id op = '''' \<or> op_name op = '''' \<or> \<not> is_abs (local_path op)
        then Some ErrIdentity
      else if (case archive op of None \<Rightarrow> False | Some a \<Rightarrow> \<not> validate_archive X a)
        then Some ErrArchiveState
      else if \<not> supported_state (op_state op) then Some ErrUnsupportedState
      else if stateNeedsRepository (op_state op) \<and> (repo_id op = '''' \<or> repo_url op = '''')
        then Some ErrNeedsRepository
      else if op_state op \<in> {StateInitialSnapshotPublished, StateActive} \<and> op_revision op < 0
        then Some ErrNeedsRevision
      else if op_state op \<in> {StateInitialSnapshotPublished, StateActive}
              \<and> op_revision op = 0 \<and> op_paths op \<noteq> 0
        then Some ErrRevisionZero
      else validate_requests X (requests op))"

definition loadLocked :: "ext \<Rightarrow> store \<Rightarrow> string \<Rightarrow> (prov_error, operation) result" where
  "loadLocked X st oid =
     (if \<not> uuid_ok X oid then Inl ErrOperationUUID
      else case map_of st oid of
        None \<Rightarrow> Inl ErrNotExist
      | Some Unreadable \<Rightarrow> Inl ErrRead
      | Some Corrupt \<Rightarrow> Inl ErrDecode
      | Some (Stored op) \<Rightarrow>
          (case validateOperation X op of Some e \<Rightarrow> Inl e | None \<Rightarrow> Inr op))"

text \<open>
  A save writes a temporary file and renames it, so a fault anywhere before the rename
  (\<open>fault\<close>) leaves the stored file as it was.
\<close>

definition saveLocked ::
    "ext \<Rightarrow> bool \<Rightarrow> store \<Rightarrow> operation \<Rightarrow> prov_error option \<times> store" where
  "saveLocked X fault st op =
     (case validateOperation X op of
        Some e \<Rightarrow> (Some e, st)
      | None \<Rightarrow>
          if fault then (Some ErrIO, st)
          else (None, AList.update (operation_id op) (Stored op) st))"

text \<open>
  \<open>mutate\<close> runs a transition on the loaded operation and saves the result when it
  differs. \<open>now\<close> is the formatted current time.
\<close>

definition mutate ::
    "ext \<Rightarrow> string \<Rightarrow> bool \<Rightarrow> (operation \<Rightarrow> (prov_error, operation) result) \<Rightarrow> store \<Rightarrow> string
     \<Rightarrow> (prov_error, operation) result \<times> store" where
  "mutate X now fault fn st oid =
     (case loadLocked X st oid of
        Inl e \<Rightarrow> (Inl e, st)
      | Inr op \<Rightarrow>
          (case fn op of
             Inl e \<Rightarrow> (Inl e, st)
           | Inr op' \<Rightarrow>
               if op' = op then (Inr op', st)
               else (let op'' = op'\<lparr>updated_at := now\<rparr> in
                     case saveLocked X fault st op'' of
                       (Some e, st') \<Rightarrow> (Inl e, st')
                     | (None, st') \<Rightarrow> (Inr op'', st'))))"

definition Get :: "ext \<Rightarrow> store \<Rightarrow> string \<Rightarrow> (prov_error, operation) result" where
  "Get X st oid = loadLocked X st oid"

section \<open>Creating an operation\<close>

definition sameArchiveInput :: "archive_import option \<Rightarrow> archive_import option \<Rightarrow> bool" where
  "sameArchiveInput a b =
     (case (a, b) of
        (Some x, Some y) \<Rightarrow> ai_source x = ai_source y \<and> ai_target x = ai_target y
                            \<and> ai_size x = ai_size y \<and> ai_modified x = ai_modified y
      | (None, None) \<Rightarrow> True
      | _ \<Rightarrow> False)"

definition new_operation ::
    "string \<Rightarrow> string \<Rightarrow> string \<Rightarrow> string \<Rightarrow> string \<Rightarrow> int \<Rightarrow> int \<Rightarrow> archive_import option
     \<Rightarrow> operation" where
  "new_operation now oid client path name bytes paths arch =
     \<lparr>op_schema = StateSchema, operation_id = oid, client_id = client, local_path = path,
      op_name = name, op_state = StateLocalValidated, repo_id = '''', repo_url = '''',
      op_revision = 0, op_paths = 0, snapshot_bytes = bytes, snapshot_paths = paths,
      requests = [], created_at = now, updated_at = now, archive = arch\<rparr>"

definition createValidated ::
    "ext \<Rightarrow> string \<Rightarrow> bool \<Rightarrow> store \<Rightarrow> string \<Rightarrow> string \<Rightarrow> string \<Rightarrow> string \<Rightarrow> int \<Rightarrow> int
     \<Rightarrow> archive_import option \<Rightarrow> (prov_error, operation) result \<times> store" where
  "createValidated X now fault st oid client path name bytes paths arch =
     (if \<not> uuid_ok X oid then (Inl ErrOperationUUID, st)
      else let client' = trim_space client; name' = trim_space name; path' = go_clean path in
        if client' = '''' \<or> name' = '''' then (Inl ErrRequired, st)
        else if \<not> is_abs path then (Inl ErrNotAbsolute, st)
        else if bytes < 0 \<or> paths < 0 then (Inl ErrNegativeSize, st)
        else (case loadLocked X st oid of
            Inr old \<Rightarrow>
              if client_id old = client' \<and> local_path old = path' \<and> op_name old = name'
                 \<and> snapshot_bytes old = bytes \<and> snapshot_paths old = paths
                 \<and> sameArchiveInput (archive old) arch
              then (Inr old, st) else (Inl ErrDifferentParameters, st)
          | Inl e \<Rightarrow>
              if e \<noteq> ErrNotExist then (Inl e, st)
              else (let op = new_operation now oid client' path' name' bytes paths arch in
                    case saveLocked X fault st op of
                      (Some e', st') \<Rightarrow> (Inl e', st')
                    | (None, st') \<Rightarrow> (Inr op, st'))))"

section \<open>Transitions\<close>

definition repair_fn ::
    "string \<Rightarrow> string \<Rightarrow> int \<Rightarrow> int \<Rightarrow> operation \<Rightarrow> (prov_error, operation) result" where
  "repair_fn path name bytes paths op =
     (let path' = go_clean path; name' = trim_space name in
      if op_state op \<noteq> StateInitialCommitFailed \<or> repo_id op = '''' \<or> repo_url op = ''''
        then Inl ErrNotRepairable
      else if \<not> is_abs path' \<or> name' = '''' \<or> contains_any name' [CHR 0x00, CHR 0x0D, CHR 0x0A]
        then Inl ErrRepairInput
      else if bytes < 0 \<or> paths < 0 then Inl ErrNegativeSize
      else Inr (op\<lparr>local_path := path', op_name := name',
                   snapshot_bytes := bytes, snapshot_paths := paths\<rparr>))"

definition abandon_fn :: "string \<Rightarrow> operation \<Rightarrow> (prov_error, operation) result" where
  "abandon_fn rid op =
     (let rid' = trim_space rid in
      if op_state op = StateAbandoned \<and> repo_id op = rid' then Inr op
      else if rid' = '''' \<or> repo_id op \<noteq> rid' \<or> repo_url op = '''' then Inl ErrNotIdentified
      else (case op_state op of
          StateActive \<Rightarrow>
            (case archive op of
               None \<Rightarrow> Inl ErrActiveAbandon
             | Some a \<Rightarrow> if ai_completed a then Inl ErrActiveAbandon
                         else Inr (op\<lparr>op_state := StateAbandoned\<rparr>))
        | StateRepositoryReady \<Rightarrow> Inr (op\<lparr>op_state := StateAbandoned\<rparr>)
        | StateInitialCommitInProgress \<Rightarrow> Inr (op\<lparr>op_state := StateAbandoned\<rparr>)
        | StateInitialCommitFailed \<Rightarrow> Inr (op\<lparr>op_state := StateAbandoned\<rparr>)
        | StateInitialSnapshotPublished \<Rightarrow> Inr (op\<lparr>op_state := StateAbandoned\<rparr>)
        | _ \<Rightarrow> Inl ErrNotAbandonable))"

definition pending_record :: "ticket_type \<Rightarrow> request_record" where
  "pending_record t = \<lparr>rr_type = t, rr_status = RequestPending, rr_digest = '''', rr_error = None\<rparr>"

definition set_request :: "string \<Rightarrow> request_record \<Rightarrow> operation \<Rightarrow> operation" where
  "set_request rid r op = op\<lparr>requests := AList.update rid r (requests op)\<rparr>"

definition request_preflight_fn ::
    "ext \<Rightarrow> string \<Rightarrow> operation \<Rightarrow> (prov_error, operation) result" where
  "request_preflight_fn X rid op =
     (case map_of (requests op) rid of
        Some r \<Rightarrow> if rr_type r = TicketStoragePreflight then Inr op else Inl ErrRequestReused
      | None \<Rightarrow>
          if \<not> uuid_ok X rid then Inl ErrRequestUUID
          else if op_state op \<noteq> StateLocalValidated \<and> op_state op \<noteq> StateStoragePreflightFailed
            then Inl (ErrTransition (op_state op) StateStoragePreflightRequested)
          else Inr ((set_request rid (pending_record TicketStoragePreflight) op)
                      \<lparr>op_state := StateStoragePreflightRequested\<rparr>))"

definition request_repository_fn ::
    "ext \<Rightarrow> string \<Rightarrow> operation \<Rightarrow> (prov_error, operation) result" where
  "request_repository_fn X rid op =
     (case map_of (requests op) rid of
        Some r \<Rightarrow> if rr_type r = TicketCreateRepository then Inr op else Inl ErrRequestReused
      | None \<Rightarrow>
          if \<not> uuid_ok X rid then Inl ErrRequestUUID
          else if op_state op \<noteq> StateStorageApproved \<and> op_state op \<noteq> StateLocalValidated
                  \<and> op_state op \<noteq> StateRepositoryRequestFailed
            then Inl (ErrTransition (op_state op) StateProvisioningRequested)
          else Inr ((set_request rid (pending_record TicketCreateRepository) op)
                      \<lparr>op_state := StateProvisioningRequested\<rparr>))"

definition start_initial_fn ::
    "ext \<Rightarrow> string \<Rightarrow> operation \<Rightarrow> (prov_error, operation) result" where
  "start_initial_fn X rid op =
     (case map_of (requests op) rid of
        Some r \<Rightarrow> if rr_type r = TicketInitialCommit then Inr op else Inl ErrRequestReused
      | None \<Rightarrow>
          if \<not> uuid_ok X rid then Inl ErrRequestUUID
          else if op_state op \<noteq> StateRepositoryReady \<and> op_state op \<noteq> StateInitialCommitFailed
            then Inl (ErrTransition (op_state op) StateInitialCommitInProgress)
          else Inr ((set_request rid (pending_record TicketInitialCommit) op)
                      \<lparr>op_state := StateInitialCommitInProgress\<rparr>))"

definition fail_initial_fn ::
    "string \<Rightarrow> string \<Rightarrow> string \<Rightarrow> operation \<Rightarrow> (prov_error, operation) result" where
  "fail_initial_fn rid code msg op =
     (case map_of (requests op) rid of
        None \<Rightarrow> Inl ErrUnregistered
      | Some r \<Rightarrow>
          if rr_type r \<noteq> TicketInitialCommit then Inl ErrUnregistered
          else let code' = trim_space code; msg' = trim_space msg in
            if rr_status r = RequestError \<and> op_state op = StateInitialCommitFailed then
              (case rr_error r of
                 Some b \<Rightarrow> if eb_code b = code' \<and> eb_message b = msg' then Inr op
                           else Inl ErrConflictingFailure
               | None \<Rightarrow> Inl ErrConflictingFailure)
            else if rr_status r \<noteq> RequestPending \<or> op_state op \<noteq> StateInitialCommitInProgress
              then Inl (ErrTransition (op_state op) StateInitialCommitFailed)
            else if code' = '''' \<or> msg' = '''' then Inl ErrFailureDetails
            else Inr ((set_request rid
                        (r\<lparr>rr_status := RequestError,
                           rr_error := Some \<lparr>eb_code = code', eb_message = msg',
                                              eb_details = []\<rparr>\<rparr>) op)
                        \<lparr>op_state := StateInitialCommitFailed\<rparr>))"

definition mark_published_fn ::
    "string \<Rightarrow> int \<Rightarrow> int \<Rightarrow> operation \<Rightarrow> (prov_error, operation) result" where
  "mark_published_fn rid revn paths op =
     (case map_of (requests op) rid of
        None \<Rightarrow> Inl ErrUnregistered
      | Some r \<Rightarrow>
          if rr_type r \<noteq> TicketInitialCommit then Inl ErrUnregistered
          else if op_state op = StateInitialSnapshotPublished \<and> op_revision op = revn
                  \<and> op_paths op = paths then Inr op
          else if op_state op \<noteq> StateInitialCommitInProgress \<or> rr_status r \<noteq> RequestPending
            then Inl (ErrTransition (op_state op) StateInitialSnapshotPublished)
          else if revn < 0 \<or> paths < 0 then Inl ErrNegativeSize
          else if revn = 0 \<and> paths \<noteq> 0 then Inl ErrRevisionZero
          else Inr (op\<lparr>op_revision := revn, op_paths := paths,
                       op_state := StateInitialSnapshotPublished\<rparr>))"

section \<open>Results of the control plane\<close>

definition validateSuccessPayload :: "ext \<Rightarrow> control_result \<Rightarrow> prov_error option" where
  "validateSuccessPayload X r =
     (case cr_type r of
        TicketStoragePreflight \<Rightarrow>
          (case dec_preflight X (cr_result r) of
             None \<Rightarrow> Some ErrResultPayload
           | Some (avail, req, expiry) \<Rightarrow>
               if avail < 0 \<or> req < 0 then Some ErrResultPayload
               else if expiry \<noteq> '''' \<and> \<not> rfc3339_ok X expiry then Some ErrResultPayload
               else None)
      | TicketCreateRepository \<Rightarrow>
          (case dec_create X (cr_result r) of
             None \<Rightarrow> Some ErrResultPayload
           | Some (rid, url) \<Rightarrow>
               if trim_space rid = '''' \<or> trim_space url = '''' then Some ErrResultPayload
               else None)
      | TicketInitialCommit \<Rightarrow>
          (case dec_initial X (cr_result r) of
             None \<Rightarrow> Some ErrResultPayload
           | Some ack \<Rightarrow> if \<not> ack then Some ErrResultPayload else None)
      | TicketOther _ \<Rightarrow> if other_payload_ok X r then None else Some ErrResultPayload)"

definition validateResult :: "ext \<Rightarrow> control_result \<Rightarrow> prov_error option" where
  "validateResult X r =
     (if cr_schema r \<noteq> ControlSchema then Some ErrResultSchema
      else if \<not> uuid_ok X (cr_operation_id r) then Some ErrResultUUID
      else if \<not> uuid_ok X (cr_request_id r) then Some ErrResultUUID
      else if \<not> rfc3339_ok X (cr_completed_at r) then Some ErrResultTime
      else if (case cr_type r of TicketOther t \<Rightarrow> \<not> other_type_ok X t | _ \<Rightarrow> False)
        then Some ErrResultType
      else (case cr_status r of
          ResultOK \<Rightarrow> if cr_error r \<noteq> None then Some ErrResultHasError
                       else validateSuccessPayload X r
        | ResultError \<Rightarrow>
            (case cr_error r of
               None \<Rightarrow> Some ErrResultError
             | Some b \<Rightarrow>
                 if trim_space (eb_code b) = '''' \<or> trim_space (eb_message b) = ''''
                   then Some ErrResultError
                 else if cr_result r \<noteq> '''' \<and> cr_result r \<noteq> ''null'' then Some ErrResultHasPayload
                 else None)
        | ResultOther _ \<Rightarrow> Some ErrResultStatus))"

definition apply_preflight_fn ::
    "ext \<Rightarrow> control_result \<Rightarrow> operation \<Rightarrow> (prov_error, operation) result" where
  "apply_preflight_fn X res op =
     (case map_of (requests op) (cr_request_id res) of
        None \<Rightarrow> Inl ErrUnregistered
      | Some r \<Rightarrow>
          if rr_type r \<noteq> TicketStoragePreflight then Inl ErrUnregistered
          else if rr_status r \<noteq> RequestPending then
            (if rr_digest r = result_digest X res then Inr op else Inl ErrConflictingResult)
          else if op_state op \<noteq> StateStoragePreflightRequested
            then Inl (ErrTransition (op_state op) StateStorageApproved)
          else if cr_status res = ResultError then
            Inr ((set_request (cr_request_id res)
                   (r\<lparr>rr_digest := result_digest X res, rr_status := RequestError,
                      rr_error := cr_error res\<rparr>) op)
                   \<lparr>op_state := StateStoragePreflightFailed\<rparr>)
          else
            Inr ((set_request (cr_request_id res)
                   (r\<lparr>rr_digest := result_digest X res, rr_status := RequestOK\<rparr>) op)
                   \<lparr>op_state := StateStorageApproved\<rparr>))"

definition apply_repository_fn ::
    "ext \<Rightarrow> control_result \<Rightarrow> operation \<Rightarrow> (prov_error, operation) result" where
  "apply_repository_fn X res op =
     (case map_of (requests op) (cr_request_id res) of
        None \<Rightarrow> Inl ErrUnregistered
      | Some r \<Rightarrow>
          if rr_type r \<noteq> TicketCreateRepository then Inl ErrUnregistered
          else if rr_status r \<noteq> RequestPending then
            (if rr_digest r = result_digest X res then Inr op else Inl ErrConflictingResult)
          else if op_state op \<noteq> StateProvisioningRequested
            then Inl (ErrTransition (op_state op) StateRepositoryReady)
          else if cr_status res = ResultError then
            Inr ((set_request (cr_request_id res)
                   (r\<lparr>rr_digest := result_digest X res, rr_status := RequestError,
                      rr_error := cr_error res\<rparr>) op)
                   \<lparr>op_state := StateRepositoryRequestFailed\<rparr>)
          else (case dec_create X (cr_result res) of
              None \<Rightarrow> Inl ErrResultPayload
            | Some (rid, url) \<Rightarrow>
                Inr ((set_request (cr_request_id res)
                       (r\<lparr>rr_digest := result_digest X res, rr_status := RequestOK\<rparr>) op)
                       \<lparr>repo_id := rid, repo_url := url, op_state := StateRepositoryReady\<rparr>)))"

definition apply_initial_fn ::
    "ext \<Rightarrow> control_result \<Rightarrow> operation \<Rightarrow> (prov_error, operation) result" where
  "apply_initial_fn X res op =
     (case map_of (requests op) (cr_request_id res) of
        None \<Rightarrow> Inl ErrUnregistered
      | Some r \<Rightarrow>
          if rr_type r \<noteq> TicketInitialCommit then Inl ErrUnregistered
          else if rr_status r \<noteq> RequestPending then
            (if rr_digest r = result_digest X res then Inr op else Inl ErrConflictingResult)
          else if op_state op \<noteq> StateInitialSnapshotPublished
            then Inl (ErrTransition (op_state op) StateActive)
          else if cr_status res = ResultError then
            Inr ((set_request (cr_request_id res)
                   (r\<lparr>rr_digest := result_digest X res, rr_status := RequestError,
                      rr_error := cr_error res\<rparr>) op)
                   \<lparr>op_state := StateInitialCommitFailed\<rparr>)
          else
            Inr ((set_request (cr_request_id res)
                   (r\<lparr>rr_digest := result_digest X res, rr_status := RequestOK\<rparr>) op)
                   \<lparr>op_state := StateActive\<rparr>))"

text \<open>Archive imports (\<open>archive.go\<close>) refine an active operation.\<close>

definition mark_archive_digest_fn :: "string \<Rightarrow> operation \<Rightarrow> (prov_error, operation) result" where
  "mark_archive_digest_fn d op =
     Inr (op\<lparr>archive := map_option (\<lambda>a. a\<lparr>ai_digest := d\<rparr>) (archive op)\<rparr>)"

definition mark_archive_loaded_fn ::
    "ext \<Rightarrow> string \<Rightarrow> operation \<Rightarrow> (prov_error, operation) result" where
  "mark_archive_loaded_fn X uid op =
     (case archive op of
        None \<Rightarrow> Inl ErrNotPublished
      | Some a \<Rightarrow>
          if op_state op \<noteq> StateActive \<or> ai_digest a = '''' then Inl ErrNotPublished
          else if \<not> uuid_ok X uid then Inl ErrArchiveUUID
          else if ai_loaded_uuid a \<noteq> '''' \<and> ai_loaded_uuid a \<noteq> uid then Inl ErrArchiveGeneration
          else Inr (op\<lparr>archive := Some (a\<lparr>ai_loaded_uuid := uid\<rparr>)\<rparr>))"

definition complete_archive_fn :: "operation \<Rightarrow> (prov_error, operation) result" where
  "complete_archive_fn op =
     (case archive op of
        None \<Rightarrow> Inl ErrNotConfirmed
      | Some a \<Rightarrow>
          if op_state op \<noteq> StateActive \<or> ai_loaded_uuid a = '''' then Inl ErrNotConfirmed
          else Inr (op\<lparr>archive := Some (a\<lparr>ai_completed := True\<rparr>)\<rparr>))"

section \<open>Store operations\<close>

definition RepairInitialImportInput where
  "RepairInitialImportInput X now fault st oid path name bytes paths =
     mutate X now fault (repair_fn path name bytes paths) st oid"

definition AbandonInitialImport where
  "AbandonInitialImport X now fault st oid rid = mutate X now fault (abandon_fn rid) st oid"

definition RequestStoragePreflight where
  "RequestStoragePreflight X now fault st oid rid =
     mutate X now fault (request_preflight_fn X rid) st oid"

definition RequestRepository where
  "RequestRepository X now fault st oid rid =
     mutate X now fault (request_repository_fn X rid) st oid"

definition StartInitialCommit where
  "StartInitialCommit X now fault st oid rid =
     mutate X now fault (start_initial_fn X rid) st oid"

definition FailInitialCommit where
  "FailInitialCommit X now fault st oid rid code msg =
     mutate X now fault (fail_initial_fn rid code msg) st oid"

definition MarkInitialSnapshotPublished where
  "MarkInitialSnapshotPublished X now fault st oid rid revn paths =
     mutate X now fault (mark_published_fn rid revn paths) st oid"

definition apply_result ::
    "ext \<Rightarrow> string \<Rightarrow> bool \<Rightarrow> ticket_type
     \<Rightarrow> (ext \<Rightarrow> control_result \<Rightarrow> operation \<Rightarrow> (prov_error, operation) result)
     \<Rightarrow> store \<Rightarrow> control_result \<Rightarrow> (prov_error, operation) result \<times> store" where
  "apply_result X now fault typ fn st res =
     (case validateResult X res of
        Some e \<Rightarrow> (Inl e, st)
      | None \<Rightarrow>
          if cr_type res \<noteq> typ then (Inl ErrUnexpectedType, st)
          else mutate X now fault (fn X res) st (cr_operation_id res))"

definition ApplyStoragePreflightResult where
  "ApplyStoragePreflightResult X now fault st res =
     apply_result X now fault TicketStoragePreflight apply_preflight_fn st res"

definition ApplyRepositoryResult where
  "ApplyRepositoryResult X now fault st res =
     apply_result X now fault TicketCreateRepository apply_repository_fn st res"

definition ApplyInitialCommitResult where
  "ApplyInitialCommitResult X now fault st res =
     apply_result X now fault TicketInitialCommit apply_initial_fn st res"

definition MarkArchiveLoaded where
  "MarkArchiveLoaded X now fault st oid uid = mutate X now fault (mark_archive_loaded_fn X uid) st oid"

definition CompleteArchive where
  "CompleteArchive X now fault st oid = mutate X now fault complete_archive_fn st oid"

end
