(* ===== verification/Provisioning_Inv.thy ===== *)
theory Provisioning_Inv
  imports Provisioning
begin

text \<open>
  The invariant of the provisioning store and the contract of its transitions. An
  operation has, in every state but \<open>abandoned\<close>, exactly the pending request its state
  waits for, and it names a server repository exactly in the states after the server
  created one. The locale \<open>prov_transition\<close> states what the store needs from a
  transition; it is interpreted on each transition of \<^theory_text>\<open>Provisioning\<close>, and what
  \<^const>\<open>mutate\<close> does to a store is proved once inside it.
\<close>

section \<open>Lifecycle\<close>

text \<open>The abstract lifecycle of a creation: which state may follow which.\<close>

inductive prov_edge :: "prov_state \<Rightarrow> prov_state \<Rightarrow> bool" where
  ask_preflight: "prov_edge StateLocalValidated StateStoragePreflightRequested"
| retry_preflight: "prov_edge StateStoragePreflightFailed StateStoragePreflightRequested"
| preflight_refused: "prov_edge StateStoragePreflightRequested StateStoragePreflightFailed"
| preflight_granted: "prov_edge StateStoragePreflightRequested StateStorageApproved"
| ask_repository: "prov_edge StateStorageApproved StateProvisioningRequested"
| ask_repository_unchecked: "prov_edge StateLocalValidated StateProvisioningRequested"
| retry_repository: "prov_edge StateRepositoryRequestFailed StateProvisioningRequested"
| repository_refused: "prov_edge StateProvisioningRequested StateRepositoryRequestFailed"
| repository_created: "prov_edge StateProvisioningRequested StateRepositoryReady"
| start_commit: "prov_edge StateRepositoryReady StateInitialCommitInProgress"
| retry_commit: "prov_edge StateInitialCommitFailed StateInitialCommitInProgress"
| commit_failed: "prov_edge StateInitialCommitInProgress StateInitialCommitFailed"
| snapshot_published: "prov_edge StateInitialCommitInProgress StateInitialSnapshotPublished"
| snapshot_refused: "prov_edge StateInitialSnapshotPublished StateInitialCommitFailed"
| snapshot_acknowledged: "prov_edge StateInitialSnapshotPublished StateActive"
| abandon_ready: "prov_edge StateRepositoryReady StateAbandoned"
| abandon_commit: "prov_edge StateInitialCommitInProgress StateAbandoned"
| abandon_failed: "prov_edge StateInitialCommitFailed StateAbandoned"
| abandon_published: "prov_edge StateInitialSnapshotPublished StateAbandoned"
| abandon_archive: "prov_edge StateActive StateAbandoned"

declare prov_edge.intros [simp, intro]

inductive_cases from_active: "prov_edge StateActive s"
inductive_cases from_abandoned: "prov_edge StateAbandoned s"

definition expected_request :: "prov_state \<Rightarrow> ticket_type option" where
  "expected_request s =
     (if s = StateStoragePreflightRequested then Some TicketStoragePreflight
      else if s = StateProvisioningRequested then Some TicketCreateRepository
      else if s = StateInitialCommitInProgress \<or> s = StateInitialSnapshotPublished
        then Some TicketInitialCommit
      else None)"

abbreviation is_pending :: "string \<times> request_record \<Rightarrow> bool" where
  "is_pending x \<equiv> rr_status (snd x) = RequestPending"

definition pending_types :: "(string, request_record) assoc \<Rightarrow> ticket_type list" where
  "pending_types rs = map (\<lambda>x. rr_type (snd x)) (filter is_pending rs)"

definition op_inv :: "operation \<Rightarrow> bool" where
  "op_inv op \<longleftrightarrow>
     wf_assoc (requests op)
     \<and> (op_state op \<noteq> StateAbandoned \<longrightarrow>
          pending_types (requests op)
            = (case expected_request (op_state op) of None \<Rightarrow> [] | Some t \<Rightarrow> [t]))
     \<and> (\<not> stateNeedsRepository (op_state op) \<longrightarrow> repo_id op = '''' \<and> repo_url op = '''')"

section \<open>Requests\<close>

lemma update_absent: "map_of m k = None \<Longrightarrow> AList.update k v m = m @ [(k, v)]"
  by (induction m) (auto split: if_splits)

lemma pending_types_append [simp]: "pending_types (a @ b) = pending_types a @ pending_types b"
  by (simp add: pending_types_def)

lemma pending_types_new [simp]:
  "map_of m k = None \<Longrightarrow> pending_types (AList.update k (pending_record t) m) = pending_types m @ [t]"
  by (simp add: update_absent pending_types_def pending_record_def)

lemma length_pending_settled:
  "map_of m k = Some r \<Longrightarrow> rr_status r = RequestPending \<Longrightarrow> rr_status r' \<noteq> RequestPending \<Longrightarrow>
     Suc (length (pending_types (AList.update k r' m))) = length (pending_types m)"
  by (induction m) (auto simp: pending_types_def split: if_splits)

lemma pending_types_settled:
  assumes "map_of m k = Some r" "rr_status r = RequestPending" "rr_status r' \<noteq> RequestPending"
    and "pending_types m = [t]"
  shows "pending_types (AList.update k r' m) = []"
  using length_pending_settled [OF assms(1-3)] assms(4) by simp

section \<open>The contract of a transition\<close>

locale prov_transition =
  fixes fn :: "operation \<Rightarrow> (prov_error, operation) result"
  assumes keeps_id: "fn op = Inr op' \<Longrightarrow> operation_id op' = operation_id op"
    and keeps_inv: "op_inv op \<Longrightarrow> fn op = Inr op' \<Longrightarrow> op_inv op'"
    and keeps_identity: "op_inv op \<Longrightarrow> fn op = Inr op' \<Longrightarrow> repo_id op \<noteq> '''' \<Longrightarrow>
           repo_id op' = repo_id op \<and> repo_url op' = repo_url op"
    and follows_lifecycle: "fn op = Inr op' \<Longrightarrow>
           op_state op' = op_state op \<or> prov_edge (op_state op) (op_state op')"

lemma validate_updated_at [simp]:
  "validateOperation X (op\<lparr>updated_at := now\<rparr>) = validateOperation X op"
  by (simp add: validateOperation_def cong: if_cong split del: if_split)

lemma op_inv_updated_at [simp]: "op_inv (op\<lparr>updated_at := now\<rparr>) = op_inv op"
  by (simp add: op_inv_def)

section \<open>What a transition does to the invariant\<close>

lemma op_inv_identity: "op_inv op \<Longrightarrow> repo_id op \<noteq> '''' \<Longrightarrow> stateNeedsRepository (op_state op)"
  by (auto simp: op_inv_def)

lemma op_inv_request:
  assumes "op_inv op" "map_of (requests op) rid = None"
    and "op_state op \<noteq> StateAbandoned" "expected_request (op_state op) = None"
    and "expected_request s = Some t" "s \<noteq> StateAbandoned"
    and "stateNeedsRepository (op_state op) \<longrightarrow> stateNeedsRepository s"
  shows "op_inv ((set_request rid (pending_record t) op)\<lparr>op_state := s\<rparr>)"
  using assms by (auto simp: op_inv_def set_request_def)

lemma op_inv_settle:
  assumes "op_inv op" "map_of (requests op) rid = Some r" "rr_status r = RequestPending"
    and "rr_status r' \<noteq> RequestPending"
    and "op_state op \<noteq> StateAbandoned" "expected_request (op_state op) = Some t"
    and "expected_request s = None"
    and "stateNeedsRepository (op_state op) \<longrightarrow> stateNeedsRepository s"
  shows "op_inv ((set_request rid r' op)\<lparr>op_state := s\<rparr>)"
  using assms by (auto simp: op_inv_def set_request_def pending_types_settled)

lemma op_inv_state:
  assumes "op_inv op" "op_state op \<noteq> StateAbandoned" "stateNeedsRepository s"
    and "s \<noteq> StateAbandoned \<longrightarrow> expected_request s = expected_request (op_state op)"
  shows "op_inv (op\<lparr>op_state := s\<rparr>)"
  using assms by (auto simp: op_inv_def)

lemma op_inv_named:
  "op_inv (op\<lparr>op_state := s\<rparr>) \<Longrightarrow> stateNeedsRepository s
    \<Longrightarrow> op_inv (op\<lparr>repo_id := i, repo_url := u, op_state := s\<rparr>)"
  by (auto simp: op_inv_def)

lemma op_inv_frame [simp]:
  "op_inv (op\<lparr>archive := a\<rparr>) = op_inv op" "op_inv (op\<lparr>op_revision := n\<rparr>) = op_inv op"
  "op_inv (op\<lparr>op_paths := n\<rparr>) = op_inv op" "op_inv (op\<lparr>local_path := p\<rparr>) = op_inv op"
  "op_inv (op\<lparr>op_name := p\<rparr>) = op_inv op" "op_inv (op\<lparr>snapshot_bytes := n\<rparr>) = op_inv op"
  "op_inv (op\<lparr>snapshot_paths := n\<rparr>) = op_inv op"
  by (simp_all add: op_inv_def)

lemma set_request_fields [simp]:
  "operation_id (set_request rid r op) = operation_id op"
  "repo_id (set_request rid r op) = repo_id op" "repo_url (set_request rid r op) = repo_url op"
  by (simp_all add: set_request_def)

lemmas state_simps = expected_request_def stateNeedsRepository_def
lemmas fn_splits = if_splits option.splits prod.splits

section \<open>The transitions of the store meet the contract\<close>

interpretation repair: prov_transition "repair_fn path name bytes paths"
  for path name bytes paths
  by unfold_locales (auto simp: repair_fn_def Let_def split: fn_splits)

lemma abandon_fn_Inr:
  assumes "abandon_fn rid op = Inr op'"
  shows "op' = op \<or> op' = op\<lparr>op_state := StateAbandoned\<rparr> \<and>
    op_state op \<in> {StateRepositoryReady, StateInitialCommitInProgress, StateInitialCommitFailed,
      StateInitialSnapshotPublished, StateActive}"
  using assms by (cases "op_state op") (auto simp: abandon_fn_def Let_def split: fn_splits)

interpretation abandon: prov_transition "abandon_fn rid" for rid
  by unfold_locales (auto simp: state_simps intro!: op_inv_state dest!: abandon_fn_Inr)

interpretation request_preflight: prov_transition "request_preflight_fn X rid" for X rid
  by unfold_locales
    (auto simp: request_preflight_fn_def state_simps intro!: op_inv_request split: fn_splits)

interpretation request_repository: prov_transition "request_repository_fn X rid" for X rid
  by unfold_locales
    (auto simp: request_repository_fn_def state_simps intro!: op_inv_request split: fn_splits)

interpretation start_initial: prov_transition "start_initial_fn X rid" for X rid
  by unfold_locales
    (auto simp: start_initial_fn_def state_simps intro!: op_inv_request split: fn_splits)

interpretation fail_initial: prov_transition "fail_initial_fn rid code msg" for rid code msg
  by unfold_locales
    (auto simp: fail_initial_fn_def Let_def state_simps intro!: op_inv_settle split: fn_splits)

interpretation mark_published: prov_transition "mark_published_fn rid revn paths"
  for rid revn paths
  by unfold_locales
    (auto simp: mark_published_fn_def state_simps intro!: op_inv_state split: fn_splits)

interpretation apply_preflight: prov_transition "apply_preflight_fn X res" for X res
  by unfold_locales
    (auto simp: apply_preflight_fn_def state_simps intro!: op_inv_settle split: fn_splits)

interpretation apply_repository: prov_transition "apply_repository_fn X res" for X res
  by unfold_locales
    (auto simp: apply_repository_fn_def state_simps intro!: op_inv_settle op_inv_named
      dest: op_inv_identity split: fn_splits)

interpretation apply_initial: prov_transition "apply_initial_fn X res" for X res
  by unfold_locales
    (auto simp: apply_initial_fn_def state_simps intro!: op_inv_settle split: fn_splits)

interpretation archive_digest: prov_transition "mark_archive_digest_fn d" for d
  by unfold_locales (auto simp: mark_archive_digest_fn_def)

interpretation archive_loaded: prov_transition "mark_archive_loaded_fn X uid" for X uid
  by unfold_locales (auto simp: mark_archive_loaded_fn_def split: fn_splits)

interpretation archive_complete: prov_transition complete_archive_fn
  by unfold_locales (auto simp: complete_archive_fn_def split: fn_splits)

section \<open>The store\<close>

definition store_inv :: "store \<Rightarrow> bool" where
  "store_inv st \<longleftrightarrow> wf_assoc st \<and>
     (\<forall>oid op. map_of st oid = Some (Stored op) \<longrightarrow> operation_id op = oid \<and> op_inv op)"

text \<open>What one operation of the store may do to a stored record.\<close>

definition op_evolves :: "operation \<Rightarrow> operation \<Rightarrow> bool" where
  "op_evolves op op' \<longleftrightarrow>
     operation_id op' = operation_id op \<and> (op_inv op \<longrightarrow> op_inv op')
     \<and> (op_inv op \<longrightarrow> repo_id op \<noteq> '''' \<longrightarrow> repo_id op' = repo_id op \<and> repo_url op' = repo_url op)
     \<and> (op_state op' = op_state op \<or> prov_edge (op_state op) (op_state op'))"

definition evolves_at :: "ext \<Rightarrow> store \<Rightarrow> string \<Rightarrow> store \<Rightarrow> bool" where
  "evolves_at X st oid st' \<longleftrightarrow> st' = st \<or>
     (\<exists>op op'. loadLocked X st oid = Inr op \<and> op_evolves op op' \<and> validateOperation X op' = None
        \<and> st' = AList.update (operation_id op) (Stored op') st)"

lemma saveLocked_cases:
  "saveLocked X fault st op = (r, st') \<Longrightarrow>
     (r \<noteq> None \<and> st' = st) \<or>
     (r = None \<and> validateOperation X op = None \<and> st' = AList.update (operation_id op) (Stored op) st)"
  by (auto simp: saveLocked_def split: if_splits option.splits)

lemma loadLocked_Inr:
  "loadLocked X st oid = Inr op \<longleftrightarrow>
     uuid_ok X oid \<and> map_of st oid = Some (Stored op) \<and> validateOperation X op = None"
  by (auto simp: loadLocked_def split: option.splits cell.splits)

context prov_transition
begin

lemma fn_evolves:
  assumes "fn op = Inr op'"
  shows "op_evolves op (op'\<lparr>updated_at := now\<rparr>)"
  using keeps_id [OF assms] keeps_inv [OF _ assms] keeps_identity [OF _ assms]
    follows_lifecycle [OF assms]
  by (simp add: op_evolves_def)

lemma mutate_evolves: "evolves_at X st oid (snd (mutate X now fault fn st oid))"
proof (cases "loadLocked X st oid")
  case (Inr op)
  show ?thesis
  proof (cases "fn op")
    case (Inr op')
    let ?new = "op'\<lparr>updated_at := now\<rparr>"
    obtain r st' where save: "saveLocked X fault st ?new = (r, st')" by fastforce
    have "operation_id ?new = operation_id op" using keeps_id [OF Inr] by simp
    with saveLocked_cases [OF save] fn_evolves [OF Inr]
    have "evolves_at X st oid st'"
      using \<open>loadLocked X st oid = Inr op\<close> unfolding evolves_at_def by metis
    moreover have "snd (mutate X now fault fn st oid) = (if op' = op then st else st')"
      using \<open>loadLocked X st oid = Inr op\<close> Inr save
      by (auto simp: mutate_def Let_def split: option.splits)
    ultimately show ?thesis by (simp add: evolves_at_def)
  qed (simp add: mutate_def evolves_at_def Inr)
qed (simp add: mutate_def evolves_at_def)

end

text \<open>One step of the store: any operation with any arguments, saved or failing to save.\<close>

inductive prov_step :: "ext \<Rightarrow> store \<Rightarrow> store \<Rightarrow> bool" for X where
  create: "prov_step X st (snd (createValidated X now fault st oid client path name bytes paths arch))"
| repair: "prov_step X st (snd (RepairInitialImportInput X now fault st oid path name bytes paths))"
| abandon: "prov_step X st (snd (AbandonInitialImport X now fault st oid rid))"
| req_preflight: "prov_step X st (snd (RequestStoragePreflight X now fault st oid rid))"
| req_repository: "prov_step X st (snd (RequestRepository X now fault st oid rid))"
| start: "prov_step X st (snd (StartInitialCommit X now fault st oid rid))"
| fail: "prov_step X st (snd (FailInitialCommit X now fault st oid rid code msg))"
| published: "prov_step X st (snd (MarkInitialSnapshotPublished X now fault st oid rid revn paths))"
| res_preflight: "prov_step X st (snd (ApplyStoragePreflightResult X now fault st res))"
| res_repository: "prov_step X st (snd (ApplyRepositoryResult X now fault st res))"
| res_initial: "prov_step X st (snd (ApplyInitialCommitResult X now fault st res))"
| digest: "prov_step X st (snd (mutate X now fault (mark_archive_digest_fn d) st oid))"
| loaded: "prov_step X st (snd (MarkArchiveLoaded X now fault st oid uid))"
| completed: "prov_step X st (snd (CompleteArchive X now fault st oid))"

definition creates_at :: "ext \<Rightarrow> store \<Rightarrow> string \<Rightarrow> store \<Rightarrow> bool" where
  "creates_at X st oid st' \<longleftrightarrow> map_of st oid = None \<and>
     (\<exists>op. operation_id op = oid \<and> op_inv op \<and> repo_id op = '''' \<and> op_state op = StateLocalValidated
        \<and> validateOperation X op = None \<and> st' = AList.update oid (Stored op) st)"

lemma op_inv_new [simp]: "op_inv (new_operation now oid client path name bytes paths arch)"
  by (simp add: op_inv_def new_operation_def expected_request_def pending_types_def)

lemma new_operation_fields [simp]:
  "operation_id (new_operation now oid client path name bytes paths arch) = oid"
  "repo_id (new_operation now oid client path name bytes paths arch) = ''''"
  "op_state (new_operation now oid client path name bytes paths arch) = StateLocalValidated"
  by (simp_all add: new_operation_def)

lemma validate_requests_exists [simp]: "validate_requests X rs \<noteq> Some ErrNotExist"
  by (induction X rs rule: validate_requests.induct) auto

lemma validateOperation_exists [simp]: "validateOperation X op \<noteq> Some ErrNotExist"
  by (simp add: validateOperation_def)

lemma loadLocked_NotExist: "loadLocked X st oid = Inl ErrNotExist \<Longrightarrow> map_of st oid = None"
  by (auto simp: loadLocked_def split: option.splits cell.splits if_splits)

lemma createValidated_effect:
  "snd (createValidated X now fault st oid client path name bytes paths arch) = st
   \<or> creates_at X st oid (snd (createValidated X now fault st oid client path name bytes paths arch))"
proof (cases "loadLocked X st oid = Inl ErrNotExist")
  case True
  let ?new = "new_operation now oid (trim_space client) (go_clean path) (trim_space name) bytes paths arch"
  obtain r st' where save: "saveLocked X fault st ?new = (r, st')" by fastforce
  have "st' = st \<or> creates_at X st oid st'"
    using saveLocked_cases [OF save] loadLocked_NotExist [OF True]
    unfolding creates_at_def by (metis op_inv_new new_operation_fields)
  with True save show ?thesis
    by (auto simp: createValidated_def Let_def split: option.splits)
next
  case False
  then show ?thesis
    by (auto simp: createValidated_def Let_def split: sum.splits)
qed

lemma apply_result_evolves:
  assumes "\<And>now fault oid. evolves_at X st oid (snd (mutate X now fault (fn X res) st oid))"
  shows "\<exists>oid. evolves_at X st oid (snd (apply_result X now fault typ fn st res))"
proof (cases "validateResult X res = None \<and> cr_type res = typ")
  case True
  with assms show ?thesis by (auto simp: apply_result_def)
next
  case False
  then show ?thesis by (auto simp: apply_result_def evolves_at_def split: option.splits)
qed

lemma store_inv_Nil: "store_inv []"
  by (simp add: store_inv_def)

lemma prov_step_effect:
  "prov_step X st st' \<Longrightarrow> \<exists>oid. evolves_at X st oid st' \<or> creates_at X st oid st'"
proof (induction rule: prov_step.induct)
  case (create st now fault oid client path name bytes paths arch)
  then show ?case
    using createValidated_effect [of X now fault st oid client path name bytes paths arch]
    unfolding evolves_at_def by blast
next
  case (repair st now fault oid path name bytes paths)
  show ?case unfolding RepairInitialImportInput_def by (blast intro: repair.mutate_evolves)
next
  case (abandon st now fault oid rid)
  show ?case unfolding AbandonInitialImport_def by (blast intro: abandon.mutate_evolves)
next
  case (req_preflight st now fault oid rid)
  show ?case unfolding RequestStoragePreflight_def by (blast intro: request_preflight.mutate_evolves)
next
  case (req_repository st now fault oid rid)
  show ?case unfolding RequestRepository_def by (blast intro: request_repository.mutate_evolves)
next
  case (start st now fault oid rid)
  show ?case unfolding StartInitialCommit_def by (blast intro: start_initial.mutate_evolves)
next
  case (fail st now fault oid rid code msg)
  show ?case unfolding FailInitialCommit_def by (blast intro: fail_initial.mutate_evolves)
next
  case (published st now fault oid rid revn paths)
  show ?case
    unfolding MarkInitialSnapshotPublished_def by (blast intro: mark_published.mutate_evolves)
next
  case (res_preflight st now fault res)
  show ?case unfolding ApplyStoragePreflightResult_def
    using apply_result_evolves [of X st apply_preflight_fn res, OF apply_preflight.mutate_evolves] by blast
next
  case (res_repository st now fault res)
  show ?case unfolding ApplyRepositoryResult_def
    using apply_result_evolves [of X st apply_repository_fn res, OF apply_repository.mutate_evolves] by blast
next
  case (res_initial st now fault res)
  show ?case unfolding ApplyInitialCommitResult_def
    using apply_result_evolves [of X st apply_initial_fn res, OF apply_initial.mutate_evolves] by blast
next
  case (digest st now fault d oid)
  show ?case by (blast intro: archive_digest.mutate_evolves)
next
  case (loaded st now fault oid uid)
  show ?case unfolding MarkArchiveLoaded_def by (blast intro: archive_loaded.mutate_evolves)
next
  case (completed st now fault oid)
  show ?case unfolding CompleteArchive_def by (blast intro: archive_complete.mutate_evolves)
qed

lemma evolves_at_inv:
  assumes "store_inv st" "evolves_at X st oid st'"
  shows "store_inv st'"
proof -
  from assms(2) consider "st' = st" | op op' where "loadLocked X st oid = Inr op" "op_evolves op op'"
      "st' = AList.update (operation_id op) (Stored op') st"
    unfolding evolves_at_def by blast
  then show ?thesis
  proof cases
    case 2
    from assms(1) 2(1) have "op_inv op" by (auto simp: store_inv_def loadLocked_Inr)
    with 2 assms(1) show ?thesis by (auto simp: store_inv_def op_evolves_def)
  qed (use assms(1) in simp)
qed

lemma creates_at_inv: "store_inv st \<Longrightarrow> creates_at X st oid st' \<Longrightarrow> store_inv st'"
  by (auto simp: store_inv_def creates_at_def split: if_splits)

interpretation prov: invariant_system "\<lambda>st. st = []" "prov_step X" store_inv for X
  by unfold_locales
    (auto simp: store_inv_Nil dest!: prov_step_effect intro: evolves_at_inv creates_at_inv)

text \<open>The fate of one loadable operation under one step of the store.\<close>

lemma prov_step_tracks:
  assumes "store_inv st" "prov_step X st st'" "loadLocked X st oid = Inr op"
  shows "\<exists>op'. loadLocked X st' oid = Inr op' \<and> op_evolves op op'"
proof -
  have same: "op_evolves op op" by (simp add: op_evolves_def)
  from prov_step_effect [OF assms(2)] consider
      "st' = st"
    | i o1 o2 where "loadLocked X st i = Inr o1" "op_evolves o1 o2" "validateOperation X o2 = None"
        "st' = AList.update (operation_id o1) (Stored o2) st"
    | i o1 where "map_of st i = None" "st' = AList.update i (Stored o1) st"
    unfolding evolves_at_def creates_at_def by blast
  then show ?thesis
  proof cases
    case 2
    from 2(1) assms(1) have "operation_id o1 = i" "map_of st i = Some (Stored o1)"
      by (auto simp: store_inv_def loadLocked_Inr)
    with 2 assms(3) same show ?thesis by (cases "oid = i") (auto simp: loadLocked_Inr)
  next
    case 3
    with assms(3) same show ?thesis by (auto simp: loadLocked_Inr)
  qed (use assms(3) same in auto)
qed

section \<open>Properties\<close>


text \<open>
  C18. Once an operation holds a server repository identity, no operation of the store
  changes or loses it, whatever its arguments and whether or not its save fails: a retry
  resumes the same repository and never asks for another one.
\<close>

theorem prov_identity_stable:
  assumes "reach (\<lambda>st. st = []) (prov_step X) st"
    and "Get X st oid = Inr op" "repo_id op \<noteq> ''''" "(prov_step X)\<^sup>*\<^sup>* st st'"
  shows "\<exists>op'. Get X st' oid = Inr op' \<and> repo_id op' = repo_id op \<and> repo_url op' = repo_url op"
  using assms(4)
proof (induction rule: rtranclp_induct)
  case (step u v)
  then obtain op' where op': "loadLocked X u oid = Inr op'" "repo_id op' = repo_id op"
      "repo_url op' = repo_url op"
    by (auto simp: Get_def)
  have "store_inv u"
    using prov.run_inv [OF step(1) prov.reach_inv [OF assms(1)]] .
  moreover from this op'(1) have "op_inv op'" by (auto simp: store_inv_def loadLocked_Inr)
  moreover obtain op'' where "loadLocked X v oid = Inr op''" "op_evolves op' op''"
    using prov_step_tracks [OF \<open>store_inv u\<close> step(2) op'(1)] by blast
  ultimately show ?case
    using op' assms(3) by (auto simp: Get_def op_evolves_def)
qed (use assms(2) in auto)

text \<open>
  C36. Every change of a stored operation's state follows the lifecycle: a step of the store
  leaves the state as it is or moves it along an edge of \<^const>\<open>prov_edge\<close>.
\<close>

theorem prov_follows_lifecycle:
  assumes "reach (\<lambda>st. st = []) (prov_step X) st" "prov_step X st st'" "Get X st oid = Inr op"
  shows "\<exists>op'. Get X st' oid = Inr op' \<and>
    (op_state op' = op_state op \<or> prov_edge (op_state op) (op_state op'))"
  using prov_step_tracks [OF prov.reach_inv [OF assms(1)] assms(2)] assms(3)
  unfolding Get_def op_evolves_def by blast

lemma mutate_Inr:
  assumes "mutate X now fault fn st oid = (Inr op, st')"
  shows "\<exists>old op0. loadLocked X st oid = Inr old \<and> fn old = Inr op0 \<and>
    (op0 = old \<and> op = old \<and> st' = st \<or>
     op = op0\<lparr>updated_at := now\<rparr> \<and> validateOperation X op = None
       \<and> st' = AList.update (operation_id op0) (Stored op) st)"
  using assms
  by (auto simp: mutate_def Let_def saveLocked_def split: sum.splits if_splits option.splits prod.splits)

context prov_transition
begin

lemma mutate_stored:
  assumes "store_inv st" "mutate X now fault fn st oid = (Inr op, st')"
  shows "loadLocked X st' oid = Inr op"
proof -
  obtain old op0 where old: "loadLocked X st oid = Inr old" and fn: "fn old = Inr op0"
    and eff: "op0 = old \<and> op = old \<and> st' = st \<or> op = op0\<lparr>updated_at := now\<rparr> \<and>
      validateOperation X op = None \<and> st' = AList.update (operation_id op0) (Stored op) st"
    using mutate_Inr [OF assms(2)] by blast
  have "operation_id op0 = oid"
    using keeps_id [OF fn] old assms(1) by (auto simp: store_inv_def loadLocked_Inr)
  then show ?thesis using old eff by (auto simp: loadLocked_Inr)
qed

lemma mutate_store_inv:
  "store_inv st \<Longrightarrow> mutate X now fault fn st oid = (r, st') \<Longrightarrow> store_inv st'"
  using mutate_evolves [of X st oid now fault] evolves_at_inv [of st X oid st'] by simp

end

text \<open>
  C35. A result of the server is applied exactly once. After a CREATE_REPOSITORY result was
  accepted, any later valid result for the same request leaves the store as it is: the same
  result is acknowledged again, a different one is refused as conflicting.
\<close>

theorem repository_result_once:
  assumes "store_inv st" "ApplyRepositoryResult X now fault st res = (Inr op, st')"
    and "validateResult X res' = None" "cr_type res' = TicketCreateRepository"
    and "cr_operation_id res' = cr_operation_id res" "cr_request_id res' = cr_request_id res"
  shows "ApplyRepositoryResult X now' fault' st' res' =
    ((if result_digest X res' = result_digest X res then Inr op else Inl ErrConflictingResult), st')"
proof -
  let ?oid = "cr_operation_id res" and ?rid = "cr_request_id res"
  from assms(2) have m: "mutate X now fault (apply_repository_fn X res) st ?oid = (Inr op, st')"
    by (auto simp: ApplyRepositoryResult_def apply_result_def split: option.splits if_splits)
  from mutate_Inr [OF m] obtain old op0 where old: "loadLocked X st ?oid = Inr old"
    and fn: "apply_repository_fn X res old = Inr op0"
    and eff: "op0 = old \<and> op = old \<and> st' = st \<or> op = op0\<lparr>updated_at := now\<rparr> \<and>
      validateOperation X op = None \<and> st' = AList.update (operation_id op0) (Stored op) st"
    by blast
  from fn have settled: "\<exists>r. map_of (requests op0) ?rid = Some r \<and> rr_type r = TicketCreateRepository
      \<and> rr_status r \<noteq> RequestPending \<and> rr_digest r = result_digest X res"
    by (auto simp: apply_repository_fn_def set_request_def split: fn_splits)
  have "operation_id op0 = ?oid"
    using apply_repository.keeps_id [OF fn] old assms(1) by (auto simp: store_inv_def loadLocked_Inr)
  then have load: "loadLocked X st' ?oid = Inr op"
    using old eff by (auto simp: loadLocked_Inr)
  have "apply_repository_fn X res' op =
      (if result_digest X res' = result_digest X res then Inr op else Inl ErrConflictingResult)"
    using settled eff assms(6) by (auto simp: apply_repository_fn_def)
  with load assms(3-5) show ?thesis
    by (simp add: ApplyRepositoryResult_def apply_result_def mutate_def)
qed

section \<open>A sample run\<close>

text \<open>
  A concrete instance of the parameters and a run of the store up to the server's answer,
  on which the properties above are evaluated.
\<close>

definition sample_ext :: ext where
  "sample_ext = \<lparr>uuid_ok = (\<lambda>s. s \<noteq> ''''), rfc3339_ok = (\<lambda>_. True),
     dec_preflight = (\<lambda>_. Some (10, 5, '''')),
     dec_create = (\<lambda>_. Some (''repo-1'', ''svn://h/repo-1'')), dec_initial = (\<lambda>_. Some True),
     other_type_ok = (\<lambda>_. False), other_payload_ok = (\<lambda>_. False), result_digest = cr_completed_at\<rparr>"

definition sample_result :: "ticket_type \<Rightarrow> string \<Rightarrow> string \<Rightarrow> control_result" where
  "sample_result t rid at = \<lparr>cr_schema = ControlSchema, cr_operation_id = ''op'', cr_request_id = rid,
     cr_type = t, cr_status = ResultOK, cr_completed_at = at, cr_result = ''{}'', cr_error = None\<rparr>"

definition sample_created :: store where
  "sample_created = snd (createValidated sample_ext ''t0'' False [] ''op'' ''me'' ''/w'' ''n'' 0 0 None)"

definition sample_requested :: store where
  "sample_requested = snd (RequestRepository sample_ext ''t1'' False sample_created ''op'' ''r1'')"

definition sample_ready :: store where
  "sample_ready = snd (ApplyRepositoryResult sample_ext ''t2'' False sample_requested
     (sample_result TicketCreateRepository ''r1'' ''c1''))"

definition sample_op :: "(string, request_record) assoc \<Rightarrow> prov_state \<Rightarrow> string \<Rightarrow> operation" where
  "sample_op rs s now = (new_operation ''t0'' ''op'' ''me'' ''/w'' ''n'' 0 0 None)
     \<lparr>op_state := s, requests := rs, updated_at := now\<rparr>"

definition settled_record :: "ticket_type \<Rightarrow> string \<Rightarrow> request_record" where
  "settled_record t d = (pending_record t)\<lparr>rr_status := RequestOK, rr_digest := d\<rparr>"

lemma sample_created_eval:
  "sample_created = [(''op'', Stored (sample_op [] StateLocalValidated ''t0''))]"
  by code_simp

lemma sample_requested_eval:
  "sample_requested = [(''op'', Stored (sample_op [(''r1'', pending_record TicketCreateRepository)]
     StateProvisioningRequested ''t1''))]"
  by code_simp

lemma sample_ready_eval:
  "sample_ready = [(''op'', Stored ((sample_op [(''r1'', settled_record TicketCreateRepository ''c1'')]
     StateRepositoryReady ''t2'')\<lparr>repo_id := ''repo-1'', repo_url := ''svn://h/repo-1''\<rparr>))]"
  by code_simp

lemma sample_steps:
  "prov_step sample_ext [] sample_created" "prov_step sample_ext sample_created sample_requested"
  "prov_step sample_ext sample_requested sample_ready"
  unfolding sample_created_def sample_requested_def sample_ready_def by (rule prov_step.intros)+

lemma sample_reach:
  "reach (\<lambda>st. st = []) (prov_step sample_ext) sample_requested"
  "reach (\<lambda>st. st = []) (prov_step sample_ext) sample_ready"
proof -
  have "reach (\<lambda>st. st = []) (prov_step sample_ext) []" by (simp add: reach_init)
  from reach_step [OF reach_step [OF this sample_steps(1)] sample_steps(2)]
  show r: "reach (\<lambda>st. st = []) (prov_step sample_ext) sample_requested" .
  show "reach (\<lambda>st. st = []) (prov_step sample_ext) sample_ready"
    by (rule reach_step [OF r sample_steps(3)])
qed


definition sample_started :: store where
  "sample_started = snd (StartInitialCommit sample_ext ''t3'' False sample_ready ''op'' ''r2'')"

lemma sample_started_step: "prov_step sample_ext sample_ready sample_started"
  unfolding sample_started_def by (rule prov_step.intros)

lemma sample_ready_get: "map_sum id repo_id (Get sample_ext sample_ready ''op'') = Inr ''repo-1''"
  by code_simp

theorem prov_identity_stable_witness:
  "map_sum id repo_id (Get sample_ext sample_started ''op'') = Inr ''repo-1''"
proof -
  obtain op where op: "Get sample_ext sample_ready ''op'' = Inr op" "repo_id op = ''repo-1''"
    using sample_ready_get by (cases "Get sample_ext sample_ready ''op''") auto
  have "(prov_step sample_ext)\<^sup>*\<^sup>* sample_ready sample_started"
    using sample_started_step by blast
  from prov_identity_stable [OF sample_reach(2) op(1) _ this] op(2) show ?thesis by auto
qed

theorem prov_follows_lifecycle_witness:
  "\<exists>op op'. Get sample_ext sample_requested ''op'' = Inr op \<and> Get sample_ext sample_ready ''op'' = Inr op'
     \<and> (op_state op' = op_state op \<or> prov_edge (op_state op) (op_state op'))
     \<and> op_state op' \<noteq> op_state op"
proof -
  have s: "map_sum id op_state (Get sample_ext sample_requested ''op'') = Inr StateProvisioningRequested"
    by code_simp
  have t: "map_sum id op_state (Get sample_ext sample_ready ''op'') = Inr StateRepositoryReady"
    by code_simp
  from s obtain op where op: "Get sample_ext sample_requested ''op'' = Inr op"
      "op_state op = StateProvisioningRequested"
    by (cases "Get sample_ext sample_requested ''op''") auto
  from prov_follows_lifecycle [OF sample_reach(1) sample_steps(3) op(1)]
  obtain op' where op': "Get sample_ext sample_ready ''op'' = Inr op'"
      "op_state op' = op_state op \<or> prov_edge (op_state op) (op_state op')"
    by blast
  from t op' have "op_state op' = StateRepositoryReady" by simp
  with op op' show ?thesis by auto
qed

lemma sample_apply:
  "ApplyRepositoryResult sample_ext ''t2'' False sample_requested
     (sample_result TicketCreateRepository ''r1'' ''c1'') =
   (Inr ((sample_op [(''r1'', settled_record TicketCreateRepository ''c1'')]
     StateRepositoryReady ''t2'')\<lparr>repo_id := ''repo-1'', repo_url := ''svn://h/repo-1''\<rparr>), sample_ready)"
  by code_simp

theorem repository_result_once_witness:
  "ApplyRepositoryResult sample_ext ''t9'' False sample_ready
     (sample_result TicketCreateRepository ''r1'' ''c2'') = (Inl ErrConflictingResult, sample_ready)"
proof -
  let ?res = "sample_result TicketCreateRepository ''r1'' ''c1''"
    and ?res' = "sample_result TicketCreateRepository ''r1'' ''c2''"
  have v: "validateResult sample_ext ?res' = None" by code_simp
  have same: "cr_type ?res' = TicketCreateRepository" "cr_operation_id ?res' = cr_operation_id ?res"
    "cr_request_id ?res' = cr_request_id ?res" by (simp_all add: sample_result_def)
  have "result_digest sample_ext ?res' \<noteq> result_digest sample_ext ?res" by code_simp
  then show ?thesis
    using repository_result_once [OF prov.reach_inv [OF sample_reach(1)] sample_apply v same] by simp
qed

end
