(* ===== verification/File_Policy.thy ===== *)
theory File_Policy
  imports Go_Lib
begin

text \<open>
  The built-in file selection policy (\<open>pkg/filepolicy/ignore.go\<close>): which paths every import
  leaves out, and that the decision depends on the last path component only.
\<close>

section \<open>Globs of package path\<close>

text \<open>
  \<open>path.Match\<close> for patterns made of literal bytes and \<open>*\<close>, which matches any sequence of
  bytes other than \<open>/\<close>. The built-in patterns hold no other metacharacter
  (\<open>builtin_patterns_plain\<close> below).
\<close>

fun path_match :: "string \<Rightarrow> string \<Rightarrow> bool" where
  "path_match [] s = (s = [])"
| "path_match (p # ps) [] = (p = CHR ''*'' \<and> path_match ps [])"
| "path_match (p # ps) (c # cs) =
     (if p = CHR ''*'' then path_match ps (c # cs) \<or> (c \<noteq> CHR ''/'' \<and> path_match (p # ps) cs)
      else p = c \<and> path_match ps cs)"

section \<open>The policy\<close>

definition BuiltinIgnorePatterns :: "string list" where
  "BuiltinIgnorePatterns =
     [''**/~$*'', ''**/.~lock.*#'', ''**/*.tmp'', ''**/*.bak'',
      ''**/.DS_Store'', ''**/Thumbs.db'', ''**/desktop.ini'',
      ''**/.vscode'', ''**/.idea'', ''**/*.swp'', ''**/*.swo'',
      ''**/node_modules'', ''**/__pycache__'', ''**/*.o'', ''**/*.pyc'',
      ''**/.git'',
      ''**/*.dwl'', ''**/*.dwl2'', ''**/*.sv$'', ''**/*.ac$'',
      ''**/*.wbk'', ''**/*.asd'', ''**/*.xlk'', ''**/*.laccdb'']"

text \<open>The loop of \<open>matchDoublestar\<close>: the suffix is tried at every component boundary.\<close>

function match_components :: "string \<Rightarrow> string \<Rightarrow> bool" where
  "match_components suffix rel =
     (if path_match suffix rel then True
      else (case dropWhile (\<lambda>c. c \<noteq> CHR ''/'') rel of
              [] \<Rightarrow> False
            | _ # rest \<Rightarrow> match_components suffix rest))"
  by pat_completeness auto
termination
proof (relation "measure (\<lambda>(suffix, rel). length rel)")
  fix suffix rel :: string and x rest
  assume "dropWhile (\<lambda>c. c \<noteq> CHR ''/'') rel = x # rest"
  then have "length (x # rest) \<le> length rel" by (metis length_dropWhile_le)
  then show "((suffix, rest), (suffix, rel)) \<in> measure (\<lambda>(suffix, rel). length rel)" by simp
qed simp

declare match_components.simps [simp del]

definition matchDoublestar :: "string \<Rightarrow> string \<Rightarrow> bool" where
  "matchDoublestar pattern rel =
     (if pattern = ''**'' then True
      else (case index_sub pattern ''**/'' of
          None \<Rightarrow> has_prefix rel (trim_suffix pattern ''**'')
        | Some idx \<Rightarrow>
           (let prefix = take idx pattern; suffix = drop (idx + 3) pattern in
            if prefix \<noteq> '''' then
              if \<not> has_prefix rel prefix then False
              else match_components suffix (drop (length prefix) rel)
            else match_components suffix rel)))"

definition match :: "string \<Rightarrow> string \<Rightarrow> bool" where
  "match pattern rel =
     (if \<not> contains_sub pattern ''**'' then path_match pattern rel
      else matchDoublestar pattern rel)"

definition normal_rel :: "string \<Rightarrow> string" where
  "normal_rel rel = trim_prefix (map (\<lambda>c. if c = CHR 0x5C then CHR ''/'' else c) rel) ''./''"

definition IsBuiltinIgnored :: "string \<Rightarrow> bool" where
  "IsBuiltinIgnored rel = list_ex (\<lambda>pattern. match pattern (normal_rel rel)) BuiltinIgnorePatterns"

section \<open>The decision depends on the last component\<close>

definition base_name :: "string \<Rightarrow> string" where
  "base_name s = last (split_on CHR ''/'' s)"

definition builtin_globs :: "string list" where
  "builtin_globs = map (drop 3) BuiltinIgnorePatterns"

lemma builtin_patterns_plain:
  "list_all (\<lambda>g. \<not> contains_any g ''?[/'' \<and> CHR 0x5C \<notin> set g) builtin_globs"
  by (simp add: builtin_globs_def BuiltinIgnorePatterns_def contains_any_def)

lemma path_match_no_slash:
  "CHR ''/'' \<notin> set g \<Longrightarrow> path_match g s \<Longrightarrow> CHR ''/'' \<notin> set s"
  by (induction g s rule: path_match.induct) (auto split: if_splits)

lemma base_name_id: "CHR ''/'' \<notin> set s \<Longrightarrow> base_name s = s"
  by (simp add: base_name_def split_on_id)

lemma base_name_Cons: "base_name (a @ CHR ''/'' # r) = base_name r"
  by (simp add: base_name_def split_on_append)

lemma base_name_dropWhile:
  assumes "dropWhile (\<lambda>c. c \<noteq> CHR ''/'') s = x # rest"
  shows "base_name s = base_name rest"
proof -
  have "x = CHR ''/''"
    using assms hd_dropWhile [of "\<lambda>c. c \<noteq> CHR ''/''" s] by simp
  then have "s = takeWhile (\<lambda>c. c \<noteq> CHR ''/'') s @ CHR ''/'' # rest"
    using assms by (metis takeWhile_dropWhile_id)
  then show ?thesis by (metis base_name_Cons)
qed

lemma match_components_base:
  "CHR ''/'' \<notin> set g \<Longrightarrow> match_components g rel = path_match g (base_name rel)"
proof (induction g rel rule: match_components.induct)
  case (1 g rel)
  show ?case
  proof (cases "path_match g rel")
    case True
    with 1(2) have "base_name rel = rel" by (rule base_name_id [OF path_match_no_slash])
    with True show ?thesis by (simp add: match_components.simps)
  next
    case False
    show ?thesis
    proof (cases "dropWhile (\<lambda>c. c \<noteq> CHR ''/'') rel")
      case Nil
      then have "CHR ''/'' \<notin> set rel" by (auto simp: dropWhile_eq_Nil_conv)
      then have "base_name rel = rel" by (rule base_name_id)
      then show ?thesis using False
        unfolding match_components.simps [of g rel] Nil by simp
    next
      case (Cons x rest)
      with False 1 show ?thesis
        by (simp add: match_components.simps [of g rel] base_name_dropWhile)
    qed
  qed
qed

lemma match_builtin:
  "list_all (\<lambda>p. \<forall>rel. match p rel = path_match (drop 3 p) (base_name rel)) BuiltinIgnorePatterns"
  by (simp add: BuiltinIgnorePatterns_def match_def matchDoublestar_def Let_def has_prefix_def
      match_components_base)

lemma base_name_normal_rel:
  "base_name (normal_rel rel) = base_name (map (\<lambda>c. if c = CHR 0x5C then CHR ''/'' else c) rel)"
proof -
  have "base_name (trim_prefix s ''./'') = base_name s" for s
    using base_name_Cons [of "''.''"] by (auto simp: trim_prefix_def has_prefix_iff)
  then show ?thesis by (simp add: normal_rel_def)
qed

text \<open>
  The built-in policy looks at the last component of a path only, with \<open>\\<close> read as a
  separator: a path is ignored exactly when its base name matches one of the built-in globs.
  What lies below an ignored directory is therefore not ignored by itself, and an import
  must leave out the whole directory.
\<close>

theorem builtin_ignore_by_base_name:
  "IsBuiltinIgnored rel \<longleftrightarrow>
     list_ex (\<lambda>g. path_match g (base_name (map (\<lambda>c. if c = CHR 0x5C then CHR ''/'' else c) rel)))
       builtin_globs"
  using match_builtin unfolding IsBuiltinIgnored_def builtin_globs_def
  by (auto simp: list_ex_iff list_all_iff base_name_normal_rel)

end
