(* ===== verification/Initial_Scan.thy ===== *)
theory Initial_Scan
  imports File_Policy "HOL-Library.Product_Lexorder" "HOL-Library.Multiset"
begin

text \<open>
  The local side of the initial import (\<open>pkg/provisioning/import.go\<close>): the scan of the
  directory tree into a snapshot, and the recheck of a batch of paths. The file system is a
  tree value: what \<open>filepath.WalkDir\<close> meets when it walks the root. Proved: the snapshot
  holds exactly the paths the policy admits, a scan that meets a link, a placeholder without
  local bytes or an unsafe object fails, and parents come before their children.
\<close>

section \<open>Data\<close>

record snapshot_file =
  sf_path :: string
  sf_size :: int

record snapshot =
  sn_directories :: "string list"
  sn_files :: "snapshot_file list"
  sn_total :: int

text \<open>\<open>fi_recalls\<close> is the answer of \<open>cloudfiles.RecallsOnRead\<close>.\<close>

record file_info =
  fi_dir :: bool
  fi_symlink :: bool
  fi_regular :: bool
  fi_size :: int
  fi_recalls :: bool

text \<open>
  A directory entry: its type bit, the answer of \<open>entry.Info\<close>, the error of reading it as a
  directory, and its entries in the order \<open>os.ReadDir\<close> lists them.
\<close>

datatype fs_node =
  FsNode (fn_is_dir: bool) (fn_info: "(string, file_info) result")
    (fn_readdir: "string option") (fn_entries: "(string \<times> fs_node) list")

section \<open>The scan\<close>

definition requireInitialContent :: "file_info \<Rightarrow> string option" where
  "requireInitialContent info =
     (if fi_recalls info then Some ''initial import requires local content'' else None)"

definition skipped :: "string \<Rightarrow> bool" where
  "skipped rel =
     (let first = hd (split_on CHR ''/'' rel) in
      first = ''.svn'' \<or> first = ''.filees'' \<or> IsBuiltinIgnored rel)"

datatype walk = WalkErr string | WalkSkip | WalkOn snapshot

text \<open>The callback of \<open>WalkDir\<close> for an entry whose listing raised no error.\<close>

definition visit :: "string \<Rightarrow> fs_node \<Rightarrow> snapshot \<Rightarrow> walk" where
  "visit rel n snap =
     (if rel = ''.'' then
        (case fn_info n of
           Inl e \<Rightarrow> WalkErr e
         | Inr info \<Rightarrow>
            (case requireInitialContent info of Some e \<Rightarrow> WalkErr e | None \<Rightarrow> WalkOn snap))
      else if skipped rel then (if fn_is_dir n then WalkSkip else WalkOn snap)
      else
        (case fn_info n of
           Inl e \<Rightarrow> WalkErr (''inspect: '' @ e)
         | Inr info \<Rightarrow>
            if fi_symlink info then WalkErr ''initial snapshot contains symbolic link''
            else (case requireInitialContent info of
                Some e \<Rightarrow> WalkErr e
              | None \<Rightarrow>
                 if fi_dir info then WalkOn (snap\<lparr>sn_directories := sn_directories snap @ [rel]\<rparr>)
                 else if \<not> fi_regular info
                   then WalkErr ''initial snapshot contains unsafe filesystem object''
                 else WalkOn (snap\<lparr>sn_files := sn_files snap @ [\<lparr>sf_path = rel, sf_size = fi_size info\<rparr>],
                                   sn_total := sn_total snap + fi_size info\<rparr>))))"

definition child_rel :: "string \<Rightarrow> string \<Rightarrow> string" where
  "child_rel rel name = (if rel = ''.'' then name else rel @ ''/'' @ name)"

text \<open>\<open>filepath.WalkDir\<close> with that callback.\<close>

fun walk_node :: "string \<Rightarrow> fs_node \<Rightarrow> snapshot \<Rightarrow> (string, snapshot) result"
and walk_entries :: "string \<Rightarrow> (string \<times> fs_node) list \<Rightarrow> snapshot \<Rightarrow> (string, snapshot) result" where
  "walk_node rel (FsNode d i r es) snap =
     (case visit rel (FsNode d i r es) snap of
        WalkErr e \<Rightarrow> Inl e
      | WalkSkip \<Rightarrow> Inr snap
      | WalkOn snap' \<Rightarrow>
          if \<not> d then Inr snap'
          else (case r of Some e \<Rightarrow> Inl e | None \<Rightarrow> walk_entries rel es snap'))"
| "walk_entries rel [] snap = Inr snap"
| "walk_entries rel ((name, n) # es) snap =
     (case walk_node (child_rel rel name) n snap of
        Inl e \<Rightarrow> Inl e
      | Inr snap' \<Rightarrow> walk_entries rel es snap')"

definition pathDepth :: "string \<Rightarrow> nat" where
  "pathDepth path = length (filter (\<lambda>c. c = CHR ''/'') (go_clean path))"

definition empty_snapshot :: snapshot where
  "empty_snapshot = \<lparr>sn_directories = [], sn_files = [], sn_total = 0\<rparr>"

text \<open>The argument is what \<open>os.Lstat\<close> of the root finds.\<close>

definition ScanInitialSnapshot :: "(string, fs_node) result \<Rightarrow> (string, snapshot) result" where
  "ScanInitialSnapshot root =
     (case root of
        Inl e \<Rightarrow> Inl (''scan initial snapshot: '' @ e)
      | Inr n \<Rightarrow>
         (case walk_node ''.'' n empty_snapshot of
            Inl e \<Rightarrow> Inl (''scan initial snapshot: '' @ e)
          | Inr snap \<Rightarrow>
             Inr (snap\<lparr>sn_directories := sort_key (\<lambda>d. (pathDepth d, d)) (sn_directories snap),
                       sn_files := sort_key sf_path (sn_files snap)\<rparr>)))"

text \<open>\<open>None\<close> is a root that does not exist, which is a valid prospective root.\<close>

definition CheckInitialContent :: "(string, fs_node) result option \<Rightarrow> string option" where
  "CheckInitialContent root =
     (case root of
        None \<Rightarrow> None
      | Some (Inl e) \<Rightarrow> Some e
      | Some (Inr n) \<Rightarrow>
         (case ScanInitialSnapshot (Inr n) of Inl e \<Rightarrow> Some e | Inr _ \<Rightarrow> None))"

section \<open>The recheck of a batch\<close>

lemma go_dir_cases: "go_dir p = p \<or> go_dir p = ''.'' \<or> length (go_dir p) < length p"
  using go_dir_shorter by blast

text \<open>
  The inner loop walks from a path to the root and stops at the first path already checked.
  \<open>lstat\<close> answers for the path joined to the root.
\<close>

function check_path ::
    "(string \<Rightarrow> (string, file_info) result) \<Rightarrow> string \<Rightarrow> string list \<Rightarrow> string
     \<Rightarrow> (string, string list) result" where
  "check_path lstat root checked rel =
     (if rel \<in> set checked then Inr checked
      else (case lstat (go_join [root, rel]) of
          Inl e \<Rightarrow> Inl (''inspect initial path: '' @ e)
        | Inr info \<Rightarrow>
           if fi_symlink info then Inl ''initial snapshot contains symbolic link''
           else (case requireInitialContent info of
               Some e \<Rightarrow> Inl e
             | None \<Rightarrow>
                if rel = ''.'' then Inr (rel # checked)
                else check_path lstat root (rel # checked) (go_dir rel))))"
  by pat_completeness auto
termination
proof (relation "measure (\<lambda>(lstat, root, checked, rel).
        if rel = ''.'' then 0 else Suc (2 * length rel + (if rel \<in> set checked then 0 else 1)))")
  fix lstat :: "string \<Rightarrow> (string, file_info) result" and root checked rel
  assume "rel \<notin> set checked" "rel \<noteq> ''.''"
  then show "((lstat, root, rel # checked, go_dir rel), lstat, root, checked, rel)
      \<in> measure (\<lambda>(lstat, root, checked, rel).
          if rel = ''.'' then 0 else Suc (2 * length rel + (if rel \<in> set checked then 0 else 1)))"
    using go_dir_cases [of rel] by auto
qed simp

declare check_path.simps [simp del]

fun check_paths ::
    "(string \<Rightarrow> (string, file_info) result) \<Rightarrow> string \<Rightarrow> string list \<Rightarrow> string list \<Rightarrow> string option" where
  "check_paths lstat root checked [] = None"
| "check_paths lstat root checked (rel # rels) =
     (case check_path lstat root checked rel of
        Inl e \<Rightarrow> Some e
      | Inr checked' \<Rightarrow> check_paths lstat root checked' rels)"

definition checkInitialPaths ::
    "(string \<Rightarrow> (string, file_info) result) \<Rightarrow> string \<Rightarrow> string list \<Rightarrow> string option" where
  "checkInitialPaths lstat root paths = check_paths lstat root [] (paths @ [''.''])"

section \<open>What the scan returns\<close>

text \<open>
  The specification: \<open>below rel n p m\<close> when \<open>m\<close> is met at \<open>p\<close> by descending from \<open>n\<close>,
  itself at \<open>rel\<close>, through directories the policy does not skip.
\<close>

inductive below :: "string \<Rightarrow> fs_node \<Rightarrow> string \<Rightarrow> fs_node \<Rightarrow> bool" where
  below_self: "\<not> skipped rel \<Longrightarrow> below rel n rel n"
| below_child: "\<not> skipped rel \<Longrightarrow> fn_is_dir n \<Longrightarrow> (name, c) \<in> set (fn_entries n) \<Longrightarrow>
    below (child_rel rel name) c p m \<Longrightarrow> below rel n p m"

definition dirs_below :: "string \<Rightarrow> fs_node \<Rightarrow> string set" where
  "dirs_below rel n = {p. \<exists>m i. below rel n p m \<and> fn_info m = Inr i \<and> fi_dir i}"

definition files_below :: "string \<Rightarrow> fs_node \<Rightarrow> snapshot_file set" where
  "files_below rel n = {f. \<exists>m i. below rel n (sf_path f) m \<and> fn_info m = Inr i \<and> \<not> fi_dir i
     \<and> f = \<lparr>sf_path = sf_path f, sf_size = fi_size i\<rparr>}"

definition acceptable :: "fs_node \<Rightarrow> bool" where
  "acceptable m = (\<exists>i. fn_info m = Inr i \<and> \<not> fi_symlink i \<and> \<not> fi_recalls i \<and> (fi_dir i \<or> fi_regular i))"

text \<open>Names a file system can hold.\<close>

definition valid_name :: "string \<Rightarrow> bool" where
  "valid_name s = (s \<noteq> '''' \<and> s \<noteq> ''.'' \<and> s \<noteq> ''..'' \<and> CHR ''/'' \<notin> set s)"

fun valid_names :: "fs_node \<Rightarrow> bool" where
  "valid_names (FsNode d i r es) = (\<forall>e \<in> set es. valid_name (fst e) \<and> valid_names (snd e))"

lemma child_rel_not_dot [simp]: "valid_name name \<Longrightarrow> child_rel rel name \<noteq> ''.''"
  by (auto simp: child_rel_def valid_name_def append_eq_Cons_conv)

lemma below_iff:
  "below rel (FsNode d i r es) p m \<longleftrightarrow> \<not> skipped rel \<and>
     (p = rel \<and> m = FsNode d i r es \<or>
      d \<and> (\<exists>name c. (name, c) \<in> set es \<and> below (child_rel rel name) c p m))"
  by (subst below.simps) auto

lemma below_skipped: "skipped rel \<Longrightarrow> \<not> below rel n p m"
  by (cases n) (simp add: below_iff)

text \<open>\<open>scanned R s t\<close>: between \<open>s\<close> and \<open>t\<close> exactly the content below \<open>R\<close> was recorded.\<close>

definition scanned :: "(string \<times> fs_node) set \<Rightarrow> snapshot \<Rightarrow> snapshot \<Rightarrow> bool" where
  "scanned R s t \<longleftrightarrow>
     set (sn_directories t) = set (sn_directories s) \<union> (\<Union>(r, n) \<in> R. dirs_below r n) \<and>
     set (sn_files t) = set (sn_files s) \<union> (\<Union>(r, n) \<in> R. files_below r n) \<and>
     sn_total t - sum_list (map sf_size (sn_files t)) = sn_total s - sum_list (map sf_size (sn_files s)) \<and>
     (\<forall>(r, n) \<in> R. \<forall>p m. below r n p m \<longrightarrow> acceptable m)"

lemma scanned_empty [simp]: "scanned {} s s"
  by (simp add: scanned_def)

lemma scanned_trans: "scanned R s t \<Longrightarrow> scanned R' t u \<Longrightarrow> scanned (R \<union> R') s u"
  unfolding scanned_def by (simp add: Un_assoc ball_Un)

lemma scanned_skip: "skipped rel \<Longrightarrow> scanned {(rel, n)} s s"
  by (simp add: scanned_def dirs_below_def files_below_def below_skipped)

lemma dirs_below_node:
  "\<not> skipped rel \<Longrightarrow> dirs_below rel (FsNode d i r es) =
     {p. p = rel \<and> (\<exists>x. i = Inr x \<and> fi_dir x)} \<union>
     (if d then \<Union>(name, c) \<in> set es. dirs_below (child_rel rel name) c else {})"
  unfolding dirs_below_def below_iff by auto

lemma files_below_node:
  "\<not> skipped rel \<Longrightarrow> files_below rel (FsNode d i r es) =
     {f. \<exists>x. i = Inr x \<and> \<not> fi_dir x \<and> f = \<lparr>sf_path = rel, sf_size = fi_size x\<rparr>} \<union>
     (if d then \<Union>(name, c) \<in> set es. files_below (child_rel rel name) c else {})"
  unfolding files_below_def below_iff by auto

text \<open>What one successful visit records, before the entries of the node are walked.\<close>

lemma visit_records:
  assumes "visit rel (FsNode d i r es) s = WalkOn t" "rel \<noteq> ''.''" "\<not> skipped rel"
  shows "set (sn_directories t) = set (sn_directories s) \<union> {p. p = rel \<and> (\<exists>x. i = Inr x \<and> fi_dir x)}"
    and "set (sn_files t) = set (sn_files s) \<union>
           {f. \<exists>x. i = Inr x \<and> \<not> fi_dir x \<and> f = \<lparr>sf_path = rel, sf_size = fi_size x\<rparr>}"
    and "sn_total t - sum_list (map sf_size (sn_files t)) = sn_total s - sum_list (map sf_size (sn_files s))"
    and "acceptable (FsNode d i r es)"
  using assms
  by (auto simp: visit_def requireInitialContent_def acceptable_def split: if_splits sum.splits)

lemma visit_skipped:
  "rel \<noteq> ''.'' \<Longrightarrow> skipped rel \<Longrightarrow> visit rel n s = (if fn_is_dir n then WalkSkip else WalkOn s)"
  by (simp add: visit_def)

lemma visit_not_skipped: "\<not> skipped rel \<Longrightarrow> visit rel n s \<noteq> WalkSkip"
  by (auto simp: visit_def split: sum.splits option.splits)

lemma scanned_node:
  assumes v: "visit rel (FsNode d i r es) s = WalkOn t" "rel \<noteq> ''.''" "\<not> skipped rel"
    and w: "if d then scanned ((\<lambda>(name, c). (child_rel rel name, c)) ` set es) t u else t = u"
  shows "scanned {(rel, FsNode d i r es)} s u"
  unfolding scanned_def using visit_records [OF v] w
  by (auto simp: dirs_below_node [OF v(3)] files_below_node [OF v(3)] below_iff scanned_def split: if_splits)

lemma walk_scanned:
  "walk_node rel n s = Inr t \<Longrightarrow> rel \<noteq> ''.'' \<Longrightarrow> valid_names n \<Longrightarrow> scanned {(rel, n)} s t"
  "walk_entries rel es s = Inr t \<Longrightarrow> \<forall>e \<in> set es. valid_name (fst e) \<and> valid_names (snd e) \<Longrightarrow>
     scanned ((\<lambda>(name, c). (child_rel rel name, c)) ` set es) s t"
proof (induction rel n s and rel es s arbitrary: t and t rule: walk_node_walk_entries.induct)
  case (1 rel d i r es s)
  show ?case
  proof (cases "skipped rel")
    case True
    with 1(2,3) show ?thesis by (auto simp: visit_skipped scanned_skip split: if_splits)
  next
    case False
    then obtain s' where v: "visit rel (FsNode d i r es) s = WalkOn s'"
      using 1(2) visit_not_skipped [OF False] by (cases "visit rel (FsNode d i r es) s") auto
    show ?thesis
      by (rule scanned_node [OF v 1(3) False]) (use 1 v in \<open>auto split: option.splits\<close>)
  qed
next
  case (3 rel name n es s)
  then obtain s' where w: "walk_node (child_rel rel name) n s = Inr s'" "walk_entries rel es s' = Inr t"
    by (auto split: sum.splits)
  have "scanned {(child_rel rel name, n)} s s'"
    using 3 w(1) by simp
  moreover have "scanned ((\<lambda>(name, c). (child_rel rel name, c)) ` set es) s' t"
    using 3 w by simp
  ultimately show ?case using scanned_trans by fastforce
qed simp

lemma sort_key_scanned:
  assumes "ScanInitialSnapshot (Inr n) = Inr snap"
  obtains raw where "walk_node ''.'' n empty_snapshot = Inr raw"
    "sn_directories snap = sort_key (\<lambda>d. (pathDepth d, d)) (sn_directories raw)"
    "sn_files snap = sort_key sf_path (sn_files raw)" "sn_total snap = sn_total raw"
  using assms by (auto simp: ScanInitialSnapshot_def split: sum.splits)

lemma sum_list_map_sort_key: "sum_list (map f (sort_key k xs)) = sum_list (map f xs)"
  for f :: "'a \<Rightarrow> int"
  by (metis mset_map mset_sort sum_mset_sum_list)

definition top_entries :: "fs_node \<Rightarrow> (string \<times> fs_node) set" where
  "top_entries n = (if fn_is_dir n then set (fn_entries n) else {})"

lemma root_scanned:
  assumes "walk_node ''.'' n s = Inr t" "valid_names n"
  shows "scanned (top_entries n) s t"
proof (cases n)
  case (FsNode d i r es)
  show ?thesis
  proof (cases d)
    case False
    with assms FsNode show ?thesis
      by (auto simp: visit_def top_entries_def split: sum.splits option.splits)
  next
    case True
    have "visit ''.'' n s \<noteq> WalkSkip" "visit ''.'' n s = WalkOn s' \<Longrightarrow> s' = s" for s'
      by (auto simp: visit_def split: sum.splits option.splits)
    with assms FsNode True have w: "walk_entries ''.'' es s = Inr t"
      by (auto split: walk.splits option.splits)
    have "(\<lambda>(name, c). (child_rel ''.'' name, c)) ` set es = set es"
      by (force simp: child_rel_def)
    with walk_scanned(2) [OF w] assms(2) FsNode True show ?thesis
      by (simp add: top_entries_def)
  qed
qed

text \<open>
  C25. A successful scan records exactly the content the policy admits: its directories are
  the directories, its files the other objects met by descending from the root through
  entries that are not skipped, each file with its size; the byte total is the sum of the
  sizes; and every object met is a directory or a regular file, no link, with its bytes on
  this disk.
\<close>

theorem scan_exact:
  assumes "valid_names n" and "ScanInitialSnapshot (Inr n) = Inr snap"
  shows "set (sn_directories snap) = (\<Union>(name, c) \<in> top_entries n. dirs_below name c)
    \<and> set (sn_files snap) = (\<Union>(name, c) \<in> top_entries n. files_below name c)
    \<and> sn_total snap = sum_list (map sf_size (sn_files snap))
    \<and> (\<forall>(name, c) \<in> top_entries n. \<forall>p m. below name c p m \<longrightarrow> acceptable m)"
proof -
  obtain raw where raw: "walk_node ''.'' n empty_snapshot = Inr raw"
    "sn_directories snap = sort_key (\<lambda>d. (pathDepth d, d)) (sn_directories raw)"
    "sn_files snap = sort_key sf_path (sn_files raw)" "sn_total snap = sn_total raw"
    by (rule sort_key_scanned [OF assms(2)])
  from root_scanned [OF raw(1) assms(1)] show ?thesis
    unfolding scanned_def raw(2-4) by (simp add: empty_snapshot_def sum_list_map_sort_key)
qed

section \<open>Parents come first\<close>

definition valid_rel :: "string \<Rightarrow> bool" where
  "valid_rel p = (\<forall>s \<in> set (split_on CHR ''/'' p). valid_name s)"

lemma clean_segs_valid: "\<forall>s \<in> set xs. valid_name s \<Longrightarrow> clean_segs r xs acc = rev acc @ xs"
  by (induction xs arbitrary: acc) (auto simp: valid_name_def)

lemma go_clean_valid: "valid_rel p \<Longrightarrow> go_clean p = p"
proof -
  assume v: "valid_rel p"
  then have "clean_segs False (split_on CHR ''/'' p) [] = split_on CHR ''/'' p"
    by (simp add: clean_segs_valid valid_rel_def)
  moreover have "[] \<notin> set (split_on CHR ''/'' p)"
    using v unfolding valid_rel_def valid_name_def by blast
  then have "p \<noteq> ''''" "\<not> is_abs p"
    by (auto simp: is_abs_def has_prefix_iff)
  ultimately show ?thesis by (simp add: go_clean_def join_split_on Let_def)
qed

lemma valid_rel_child:
  "rel = ''.'' \<or> valid_rel rel \<Longrightarrow> valid_name name \<Longrightarrow> valid_rel (child_rel rel name)"
  by (auto simp: valid_rel_def child_rel_def split_on_append split_on_id valid_name_def)

lemma valid_names_entry:
  "valid_names n \<Longrightarrow> (name, c) \<in> set (fn_entries n) \<Longrightarrow> valid_name name \<and> valid_names c"
  by (cases n) fastforce

lemma valid_rel_name: "valid_name name \<Longrightarrow> valid_rel name"
  by (auto simp: valid_rel_def split_on_id valid_name_def)

lemma below_valid: "below rel n p m \<Longrightarrow> valid_rel rel \<Longrightarrow> valid_names n \<Longrightarrow> valid_rel p"
proof (induction rule: below.induct)
  case (below_child rel n name c p m)
  then show ?case using valid_names_entry [of n name c] by (simp add: valid_rel_child)
qed

lemma pathDepth_child: "valid_rel p \<Longrightarrow> valid_rel (p @ ''/'' @ r) \<Longrightarrow> pathDepth p < pathDepth (p @ ''/'' @ r)"
  by (simp add: pathDepth_def go_clean_valid)

lemma sort_key_nth_less:
  assumes "i < length xs" "j < length xs" "k (sort_key k xs ! i) < k (sort_key k xs ! j)"
  shows "i < j"
proof (rule ccontr)
  assume "\<not> i < j"
  then have "k (sort_key k xs ! j) \<le> k (sort_key k xs ! i)"
    using assms(1,2) sorted_nth_mono [OF sorted_sort_key [of k xs], of j i] by simp
  with assms(3) show False by simp
qed

text \<open>
  The directories of a snapshot are in an order Subversion can add them in: a directory
  stands after each directory that contains it.
\<close>

theorem scan_parents_first:
  assumes "valid_names n" and "ScanInitialSnapshot (Inr n) = Inr snap"
    and "i < length (sn_directories snap)" and "j < length (sn_directories snap)"
    and "sn_directories snap ! j = sn_directories snap ! i @ ''/'' @ r"
  shows "i < j"
proof -
  obtain raw where raw: "walk_node ''.'' n empty_snapshot = Inr raw"
    "sn_directories snap = sort_key (\<lambda>d. (pathDepth d, d)) (sn_directories raw)"
    by (rule sort_key_scanned [OF assms(2)])
  have ok: "valid_rel p" if p: "p \<in> set (sn_directories snap)" for p
  proof -
    from p root_scanned [OF raw(1) assms(1)] obtain name c m
      where "(name, c) \<in> top_entries n" and b: "below name c p m"
      unfolding raw(2) by (auto simp: scanned_def empty_snapshot_def dirs_below_def)
    then have "valid_name name \<and> valid_names c"
      using valid_names_entry [OF assms(1), of name c] by (simp add: top_entries_def split: if_splits)
    with below_valid [OF b valid_rel_name] show ?thesis by blast
  qed
  have "pathDepth (sn_directories snap ! i) < pathDepth (sn_directories snap ! j)"
    using pathDepth_child [of "sn_directories snap ! i" r] ok [OF nth_mem [OF assms(3)]]
      ok [OF nth_mem [OF assms(4)]] by (simp add: assms(5))
  then show ?thesis
    using sort_key_nth_less [of i "sn_directories raw" j "\<lambda>d. (pathDepth d, d)"] assms(3,4) raw(2)
    by (simp add: less_prod_def)
qed

section \<open>A sample tree\<close>

definition sample_info :: "bool \<Rightarrow> int \<Rightarrow> file_info" where
  "sample_info dir n = \<lparr>fi_dir = dir, fi_symlink = False, fi_regular = (\<not> dir), fi_size = n, fi_recalls = False\<rparr>"

definition sample_tree :: fs_node where
  "sample_tree =
     (let file = (\<lambda>n. FsNode False (Inr (sample_info False n)) None []);
          dir = (\<lambda>es. FsNode True (Inr (sample_info True 0)) None es) in
      dir [(''.git'', dir [(''cfg'', file 9)]), (''d'', dir [(''e'', dir []), (''f'', file 3)]),
           (''g'', file 4), (''x.tmp'', file 7)])"

definition sample_snapshot :: snapshot where
  "sample_snapshot = \<lparr>sn_directories = [''d'', ''d/e''],
     sn_files = [\<lparr>sf_path = ''d/f'', sf_size = 3\<rparr>, \<lparr>sf_path = ''g'', sf_size = 4\<rparr>], sn_total = 7\<rparr>"

lemma sample_tree_valid: "valid_names sample_tree"
  by (simp add: sample_tree_def Let_def valid_name_def)

lemma sample_tree_scan: "ScanInitialSnapshot (Inr sample_tree) = Inr sample_snapshot"
  by code_simp

theorem scan_exact_witness:
  "(\<Union>(name, c) \<in> top_entries sample_tree. dirs_below name c) = {''d'', ''d/e''}"
  using scan_exact [OF sample_tree_valid sample_tree_scan] by (simp add: sample_snapshot_def)

theorem scan_parents_first_witness:
  "sn_directories sample_snapshot ! 1 = sn_directories sample_snapshot ! 0 @ ''/'' @ ''e'' \<and> (0::nat) < 1"
  using scan_parents_first [OF sample_tree_valid sample_tree_scan, of 0 1 "''e''"]
  by (simp add: sample_snapshot_def)

end
