(* ===== verification/Initial_Import.thy ===== *)
theory Initial_Import
  imports Provisioning_Inv Initial_Scan
begin

text \<open>
  The first publication of a new repository (\<open>pkg/provisioning/import.go\<close>): which paths of
  the scanned snapshot still need an add, how the pending files are cut into batches, and the
  restart-safe publication that commits them and records the outcome in the provisioning
  store. Subversion and the file system are the parameter \<open>svn_env\<close>: every answer may
  depend on the whole history of calls, so it stands for any behaviour of either. Progress
  reports have no effect on the result and are left out.
\<close>

section \<open>Data and environment\<close>

record import_limits =
  max_batch_files :: int
  max_batch_bytes :: int

datatype svn_event =
    EvContent | EvCheckout string | EvScan | EvStatus | EvRevert "string list"
  | EvCheckPaths "string list" | EvAdd "string list" | EvCommit "string list" | EvRevision
  | EvStore | EvExchange string | EvHook

type_synonym history = "svn_event list"

text \<open>
  Answers of the environment. A \<open>string option\<close> is the returned error, \<open>None\<close> success.
  \<open>sv_root\<close> and \<open>sv_tree\<close> are the tree \<open>CheckInitialContent\<close> and \<open>ScanInitialSnapshot\<close>
  walk, \<open>sv_lstat\<close> the answers of \<open>os.Lstat\<close> to \<open>checkInitialPaths\<close>.
\<close>

record svn_env =
  sv_root :: "history \<Rightarrow> string \<Rightarrow> (string, fs_node) result option"
  sv_checkout :: "history \<Rightarrow> string \<Rightarrow> string \<Rightarrow> string option"
  sv_tree :: "history \<Rightarrow> string \<Rightarrow> (string, fs_node) result"
  sv_status :: "history \<Rightarrow> (string, (string \<times> string) list) result"
  sv_reverter :: bool
  sv_revert :: "history \<Rightarrow> string list \<Rightarrow> string option"
  sv_lstat :: "history \<Rightarrow> string \<Rightarrow> (string, file_info) result"
  sv_add :: "history \<Rightarrow> string list \<Rightarrow> string option"
  sv_commit :: "history \<Rightarrow> string list \<Rightarrow> string option"
  sv_revision :: "history \<Rightarrow> (string, int) result"
  sv_now :: "history \<Rightarrow> string"
  sv_fault :: "history \<Rightarrow> bool"

type_synonym status_map = "(string, string) assoc"

definition status_of :: "status_map \<Rightarrow> string \<Rightarrow> string" where
  "status_of m p = (case map_of m p of None \<Rightarrow> '''' | Some s \<Rightarrow> s)"

section \<open>Which paths need an add\<close>

function hasUnversionedAncestor :: "string \<Rightarrow> status_map \<Rightarrow> bool" where
  "hasUnversionedAncestor rel status =
     (let parent = go_dir rel in
      if parent = rel \<or> parent = ''.'' then False
      else if status_of status parent = ''unversioned'' \<or> status_of status parent = ''added''
        then True
      else hasUnversionedAncestor parent status)"
  by pat_completeness auto
termination
  by (relation "measure (\<lambda>(rel, status). length rel)") (auto intro: go_dir_shorter)

declare hasUnversionedAncestor.simps [simp del]

definition needsInitialAdd :: "status_map \<Rightarrow> string \<Rightarrow> bool" where
  "needsInitialAdd status path =
     (if status_of status path = ''unversioned'' \<or> status_of status path = ''added'' then True
      else if status_of status path = '''' then hasUnversionedAncestor path status
      else False)"

definition unversioned_paths :: "status_map \<Rightarrow> string list \<Rightarrow> string list" where
  "unversioned_paths status paths =
     filter (\<lambda>p. status_of status p = ''unversioned''
                 \<or> (status_of status p = '''' \<and> hasUnversionedAncestor p status)) paths"

text \<open>\<open>addUnversioned\<close> returns its error, the status map with the added paths, the history.\<close>

definition addUnversioned ::
    "svn_env \<Rightarrow> history \<Rightarrow> string list \<Rightarrow> status_map \<Rightarrow> string option \<times> status_map \<times> history" where
  "addUnversioned E h paths status =
     (let un = unversioned_paths status paths in
      if un = [] then (None, status, h)
      else (case sv_add E h un of
          Some e \<Rightarrow> (Some (''schedule initial paths: '' @ e), status, h @ [EvAdd un])
        | None \<Rightarrow> (None, fold (\<lambda>p m. AList.update p ''added'' m) un status, h @ [EvAdd un])))"

section \<open>Batches\<close>

fun batch_count :: "import_limits \<Rightarrow> int \<Rightarrow> int \<Rightarrow> snapshot_file list \<Rightarrow> nat" where
  "batch_count L cnt bytes [] = 0"
| "batch_count L cnt bytes (f # fs) =
     (if \<not> cnt < max_batch_files L then 0
      else if 0 < cnt \<and> bytes + sf_size f > max_batch_bytes L then 0
      else Suc (batch_count L (cnt + 1) (bytes + sf_size f) fs))"

definition takeInitialBatch ::
    "snapshot_file list \<Rightarrow> import_limits \<Rightarrow> snapshot_file list \<times> snapshot_file list" where
  "takeInitialBatch files L =
     (let n = batch_count L 0 0 files in (take n files, drop n files))"

definition filePaths :: "snapshot_file list \<Rightarrow> string list" where
  "filePaths fs = map sf_path fs"

section \<open>Publishing\<close>

datatype pub_error =
    PubLimits | PubStore prov_error | PubCause string | PubPersist string prov_error

text \<open>
  The commit loop. \<open>first\<close> is the source's \<open>firstCommit\<close>; the result is the error of the
  failing step or the final value of \<open>first\<close>. The fuel counts iterations; \<open>None\<close> is
  running out of it, which \<open>commit_batches_total\<close> below excludes.
\<close>

fun commit_batches ::
    "nat \<Rightarrow> svn_env \<Rightarrow> import_limits \<Rightarrow> string \<Rightarrow> string list \<Rightarrow> bool \<Rightarrow> status_map \<Rightarrow> snapshot_file list
     \<Rightarrow> history \<Rightarrow> ((string, bool) result \<times> history) option" where
  "commit_batches 0 E L root dirs first status pending h = None"
| "commit_batches (Suc fuel) E L root dirs first status pending h =
     (if pending = [] then Some (Inr first, h)
      else (case takeInitialBatch pending L of (batch, rest) \<Rightarrow>
        (let paths = filePaths batch in
         case checkInitialPaths (sv_lstat E h) root paths of
           Some e \<Rightarrow> Some (Inl e, h @ [EvCheckPaths paths])
         | None \<Rightarrow>
         (case addUnversioned E (h @ [EvCheckPaths paths]) paths status of
            (Some e, status', h1) \<Rightarrow> Some (Inl e, h1)
          | (None, status', h1) \<Rightarrow>
            (let cpaths = (if first then dirs @ paths else paths) in
             case checkInitialPaths (sv_lstat E h1) root cpaths of
               Some e \<Rightarrow> Some (Inl e, h1 @ [EvCheckPaths cpaths])
             | None \<Rightarrow>
             (let h2 = h1 @ [EvCheckPaths cpaths] in
              case sv_commit E h2 cpaths of
                Some e \<Rightarrow> Some (Inl (''commit initial snapshot: '' @ e), h2 @ [EvCommit cpaths])
              | None \<Rightarrow>
                  commit_batches fuel E L root dirs False status' rest (h2 @ [EvCommit cpaths])))))))"

definition bad_status :: "string \<Rightarrow> bool" where
  "bad_status item = (item = ''conflicted'' \<or> item = ''missing'' \<or> item = ''obstructed'')"

fun build_status :: "(string \<times> string) list \<Rightarrow> status_map \<Rightarrow> (string, status_map) result" where
  "build_status [] m = Inr m"
| "build_status ((path, item) # es) m =
     (if bad_status item then Inl (''unsafe working-copy status '' @ item)
      else build_status es (AList.update (go_clean path) item m))"

text \<open>
  The steps between a successful \<open>StartInitialCommit\<close> and the final report to the store,
  up to the published revision and the number of snapshot paths.
\<close>

definition recovered_status ::
    "svn_env \<Rightarrow> history \<Rightarrow> (string, (string \<times> string) list) result \<times> history" where
  "recovered_status E h =
     (case sv_status E h of
        Inl e \<Rightarrow> (Inl (''read initial working-copy status: '' @ e), h @ [EvStatus])
      | Inr es \<Rightarrow>
         (let h1 = h @ [EvStatus];
              missing = map (\<lambda>(p, _). go_clean p) (filter (\<lambda>(_, i). i = ''missing'') es) in
          if missing = [] then (Inr es, h1)
          else if \<not> sv_reverter E
            then (Inl ''initial import recovery requires SVN revert support'', h1)
          else (case sv_revert E h1 missing of
              Some e \<Rightarrow> (Inl (''revert missing initial paths: '' @ e), h1 @ [EvRevert missing])
            | None \<Rightarrow>
               (let h2 = h1 @ [EvRevert missing] in
                case sv_status E h2 of
                  Inl e \<Rightarrow> (Inl (''read recovered working-copy status: '' @ e), h2 @ [EvStatus])
                | Inr es' \<Rightarrow> (Inr es', h2 @ [EvStatus])))))"

definition publish_dirs ::
    "svn_env \<Rightarrow> string \<Rightarrow> bool \<Rightarrow> string list \<Rightarrow> history \<Rightarrow> string option \<times> history" where
  "publish_dirs E root first dirs h =
     (if first \<and> dirs \<noteq> [] then
        (case checkInitialPaths (sv_lstat E h) root dirs of
           Some e \<Rightarrow> (Some e, h @ [EvCheckPaths dirs])
         | None \<Rightarrow>
            (let h1 = h @ [EvCheckPaths dirs] in
             case sv_commit E h1 dirs of
               Some e \<Rightarrow> (Some (''commit initial directories: '' @ e), h1 @ [EvCommit dirs])
             | None \<Rightarrow> (None, h1 @ [EvCommit dirs])))
      else (None, h))"

definition publish_snapshot ::
    "svn_env \<Rightarrow> import_limits \<Rightarrow> string \<Rightarrow> snapshot \<Rightarrow> status_map \<Rightarrow> history
     \<Rightarrow> (string, int) result \<times> history" where
  "publish_snapshot E L root snap status h =
     (let dirs = filter (needsInitialAdd status) (sn_directories snap);
          pending = filter (\<lambda>f. needsInitialAdd status (sf_path f)) (sn_files snap) in
      case checkInitialPaths (sv_lstat E h) root dirs of
        Some e \<Rightarrow> (Inl e, h @ [EvCheckPaths dirs])
      | None \<Rightarrow>
        (case addUnversioned E (h @ [EvCheckPaths dirs]) dirs status of
           (Some e, status', h1) \<Rightarrow> (Inl e, h1)
         | (None, status', h1) \<Rightarrow>
           (case commit_batches (Suc (length pending)) E L root dirs True status' pending h1 of
              None \<Rightarrow> (Inl ''out of fuel'', h1)
            | Some (Inl e, h2) \<Rightarrow> (Inl e, h2)
            | Some (Inr first, h2) \<Rightarrow>
              (case publish_dirs E root first dirs h2 of
                 (Some e, h3) \<Rightarrow> (Inl e, h3)
               | (None, h3) \<Rightarrow>
                 (case sv_revision E h3 of
                    Inl e \<Rightarrow> (Inl (''read published revision: '' @ e), h3 @ [EvRevision])
                  | Inr n \<Rightarrow> (Inr n, h3 @ [EvRevision]))))))"

definition import_steps ::
    "svn_env \<Rightarrow> import_limits \<Rightarrow> operation \<Rightarrow> history \<Rightarrow> (string, int \<times> int) result \<times> history" where
  "import_steps E L op h =
     (case CheckInitialContent (sv_root E h (local_path op)) of
        Some e \<Rightarrow> (Inl e, h @ [EvContent])
      | None \<Rightarrow>
       (let h1 = h @ [EvContent] in
        case sv_checkout E h1 (repo_url op) (local_path op) of
          Some e \<Rightarrow> (Inl (''checkout initial repository: '' @ e), h1 @ [EvCheckout (repo_url op)])
        | None \<Rightarrow>
         (let h2 = h1 @ [EvCheckout (repo_url op)] in
          case ScanInitialSnapshot (sv_tree E h2 (local_path op)) of
            Inl e \<Rightarrow> (Inl e, h2 @ [EvScan])
          | Inr snap \<Rightarrow>
            (case recovered_status E (h2 @ [EvScan]) of
               (Inl e, h3) \<Rightarrow> (Inl e, h3)
             | (Inr es, h3) \<Rightarrow>
               (case build_status es [] of
                  Inl e \<Rightarrow> (Inl e, h3)
                | Inr status \<Rightarrow>
                  (case publish_snapshot E L (local_path op) snap status h3 of
                     (Inl e, h4) \<Rightarrow> (Inl e, h4)
                   | (Inr n, h4) \<Rightarrow>
                       (Inr (n, int (length (sn_directories snap)) + int (length (sn_files snap))), h4)))))))"

definition PublishInitialSnapshot ::
    "ext \<Rightarrow> svn_env \<Rightarrow> import_limits \<Rightarrow> store \<Rightarrow> string \<Rightarrow> string \<Rightarrow> history
     \<Rightarrow> (pub_error, operation) result \<times> store \<times> history" where
  "PublishInitialSnapshot X E L st oid rid h =
     (if max_batch_files L \<le> 0 \<or> max_batch_bytes L \<le> 0 then (Inl PubLimits, st, h)
      else (case StartInitialCommit X (sv_now E h) (sv_fault E h) st oid rid of
          (Inl e, st1) \<Rightarrow> (Inl (PubStore e), st1, h @ [EvStore])
        | (Inr op, st1) \<Rightarrow>
          (case import_steps E L op (h @ [EvStore]) of
             (Inl cause, h1) \<Rightarrow>
               (case FailInitialCommit X (sv_now E h1) (sv_fault E h1) st1 oid rid
                       ''INITIAL_IMPORT_FAILED'' cause of
                  (Inl e, st2) \<Rightarrow> (Inl (PubPersist cause e), st2, h1 @ [EvStore])
                | (Inr _, st2) \<Rightarrow> (Inl (PubCause cause), st2, h1 @ [EvStore]))
           | (Inr (n, paths), h1) \<Rightarrow>
               (case MarkInitialSnapshotPublished X (sv_now E h1) (sv_fault E h1) st1 oid rid n paths of
                  (Inl e, st2) \<Rightarrow> (Inl (PubStore e), st2, h1 @ [EvStore])
                | (Inr op', st2) \<Rightarrow> (Inr op', st2, h1 @ [EvStore])))))"

section \<open>Batches are bounded and lose nothing\<close>

definition batch_bytes :: "snapshot_file list \<Rightarrow> int" where
  "batch_bytes fs = sum_list (map sf_size fs)"

lemma batch_count_pos: "0 < max_batch_files L \<Longrightarrow> files \<noteq> [] \<Longrightarrow> 0 < batch_count L 0 0 files"
  by (cases files) auto

lemma batch_count_files:
  "cnt \<le> max_batch_files L \<Longrightarrow> cnt + int (batch_count L cnt bytes fs) \<le> max_batch_files L"
  by (induction L cnt bytes fs rule: batch_count.induct) auto

lemma batch_count_bytes:
  "0 < cnt \<Longrightarrow> batch_count L cnt bytes fs = 0 \<or>
     bytes + batch_bytes (take (batch_count L cnt bytes fs) fs) \<le> max_batch_bytes L"
proof (induction L cnt bytes fs rule: batch_count.induct)
  case (2 L cnt bytes f fs)
  then show ?case
    by (cases "batch_count L (cnt + 1) (bytes + sf_size f) fs") (auto simp: batch_bytes_def)
qed simp

lemma batch_count_first_bytes:
  "batch_count L 0 0 fs \<le> 1 \<or> batch_bytes (take (batch_count L 0 0 fs) fs) \<le> max_batch_bytes L"
proof (cases fs)
  case (Cons f rest)
  then show ?thesis
    using batch_count_bytes [of 1 L "sf_size f" rest] by (auto simp: batch_bytes_def)
qed simp

text \<open>
  A batch takes files from the front and loses none; it is never empty while files are
  pending, has at most \<open>MaxBatchFiles\<close> files and at most \<open>MaxBatchBytes\<close> bytes, except
  that a single file larger than the byte limit is published alone.
\<close>

theorem takeInitialBatch_spec:
  assumes "0 < max_batch_files L" and "takeInitialBatch files L = (batch, rest)"
  shows "batch @ rest = files \<and> (files \<noteq> [] \<longrightarrow> batch \<noteq> [])
    \<and> int (length batch) \<le> max_batch_files L
    \<and> (length batch \<le> 1 \<or> batch_bytes batch \<le> max_batch_bytes L)"
proof -
  have b: "batch = take (batch_count L 0 0 files) files" "rest = drop (batch_count L 0 0 files) files"
    using assms(2) by (auto simp: takeInitialBatch_def Let_def)
  then show ?thesis
    using batch_count_pos [OF assms(1), of files] batch_count_files [of 0 L 0 files]
      batch_count_first_bytes [of L files] assms(1) by auto
qed

section \<open>Every pending path is committed once\<close>

definition committed :: "history \<Rightarrow> string list" where
  "committed h = concat (map (\<lambda>e. case e of EvCommit ps \<Rightarrow> ps | _ \<Rightarrow> []) h)"

lemma committed_simps [simp]:
  "committed [] = []" "committed (h @ h') = committed h @ committed h'"
  "committed (EvCommit ps # h) = ps @ committed h" "committed (EvAdd ps # h) = committed h"
  "committed (EvCheckPaths ps # h) = committed h" "committed (EvRevision # h) = committed h"
  "committed (EvContent # h) = committed h" "committed (EvCheckout u # h) = committed h"
  "committed (EvScan # h) = committed h" "committed (EvStatus # h) = committed h"
  "committed (EvRevert ps # h) = committed h" "committed (EvStore # h) = committed h"
  "committed (EvExchange r # h) = committed h" "committed (EvHook # h) = committed h"
  by (simp_all add: committed_def)

lemma committed_addUnversioned: "addUnversioned E h ps st = (r, st', h') \<Longrightarrow> committed h' = committed h"
  by (auto simp: addUnversioned_def Let_def split: if_splits option.splits)

lemma takeInitialBatch_append: "takeInitialBatch files L = (batch, rest) \<Longrightarrow> filePaths batch @ filePaths rest = filePaths files"
  by (auto simp: takeInitialBatch_def filePaths_def Let_def simp flip: map_append)

lemma takeInitialBatch_shorter:
  "0 < max_batch_files L \<Longrightarrow> takeInitialBatch files L = (batch, rest) \<Longrightarrow> files \<noteq> [] \<Longrightarrow>
     length rest < length files"
  using batch_count_pos [of L files] by (auto simp: takeInitialBatch_def Let_def)

lemma commit_batches_total:
  "0 < max_batch_files L \<Longrightarrow> length pending < fuel \<Longrightarrow>
     \<exists>r. commit_batches fuel E L root dirs first status pending h = Some r"
proof (induction fuel arbitrary: first status pending h)
  case (Suc fuel)
  obtain batch rest where t: "takeInitialBatch pending L = (batch, rest)" by force
  then have "pending \<noteq> [] \<Longrightarrow> length rest < fuel"
    using takeInitialBatch_shorter [OF Suc.prems(1) t] Suc.prems(2) by simp
  then show ?case using Suc.IH Suc.prems(1) t
    by (auto simp: Let_def split: option.splits prod.splits)
qed simp

lemma commit_batches_committed:
  "commit_batches fuel E L root dirs first status pending h = Some (Inr first', h') \<Longrightarrow>
     committed h' = committed h @ (if first \<and> pending \<noteq> [] then dirs else []) @ filePaths pending
     \<and> first' = (first \<and> pending = [])"
proof (induction fuel arbitrary: first status pending h)
  case (Suc fuel)
  show ?case
  proof (cases "pending = []")
    case True
    with Suc.prems show ?thesis by (auto simp: filePaths_def)
  next
    case False
    obtain batch rest where t: "takeInitialBatch pending L = (batch, rest)" by force
    obtain r status' h1 where a:
      "addUnversioned E (h @ [EvCheckPaths (filePaths batch)]) (filePaths batch) status = (r, status', h1)"
      by (cases "addUnversioned E (h @ [EvCheckPaths (filePaths batch)]) (filePaths batch) status")
    let ?c = "if first then dirs @ filePaths batch else filePaths batch"
    have "commit_batches fuel E L root dirs False status' rest
            (h1 @ [EvCheckPaths ?c] @ [EvCommit ?c]) = Some (Inr first', h')"
      using Suc.prems False t a by (auto simp: Let_def split: option.splits if_splits)
    from Suc.IH [OF this] show ?thesis
      using False committed_addUnversioned [OF a] takeInitialBatch_append [OF t] by auto
  qed
qed simp

definition needed_dirs :: "status_map \<Rightarrow> snapshot \<Rightarrow> string list" where
  "needed_dirs status snap = filter (needsInitialAdd status) (sn_directories snap)"

definition needed_files :: "status_map \<Rightarrow> snapshot \<Rightarrow> string list" where
  "needed_files status snap = filter (needsInitialAdd status) (map sf_path (sn_files snap))"

lemma committed_publish_dirs:
  "publish_dirs E root first dirs h = (None, h') \<Longrightarrow>
     committed h' = committed h @ (if first then dirs else [])"
  by (auto simp: publish_dirs_def Let_def split: if_splits option.splits)

lemma committed_recovered: "recovered_status E h = (r, h') \<Longrightarrow> committed h' = committed h"
  by (auto simp: recovered_status_def Let_def split: if_splits option.splits sum.splits)

lemma publish_snapshot_committed:
  assumes "publish_snapshot E L root snap status h = (Inr n, h')"
  shows "committed h' = committed h @ needed_dirs status snap @ needed_files status snap"
proof -
  define dirs where "dirs = needed_dirs status snap"
  define pending where "pending = filter (\<lambda>f. needsInitialAdd status (sf_path f)) (sn_files snap)"
  have files: "filePaths pending = needed_files status snap"
    by (simp add: pending_def filePaths_def needed_files_def filter_map comp_def)
  obtain r status' h1 where a: "addUnversioned E (h @ [EvCheckPaths dirs]) dirs status = (r, status', h1)"
    by (cases "addUnversioned E (h @ [EvCheckPaths dirs]) dirs status")
  from assms a obtain first h2 h3 where
      c: "commit_batches (Suc (length pending)) E L root dirs True status' pending h1 = Some (Inr first, h2)"
      and d: "publish_dirs E root first dirs h2 = (None, h3)" and h': "h' = h3 @ [EvRevision]"
    unfolding publish_snapshot_def Let_def
      dirs_def [unfolded needed_dirs_def, symmetric] pending_def [symmetric]
    by (auto split: option.splits prod.splits sum.splits)
  show ?thesis
    using commit_batches_committed [OF c] committed_publish_dirs [OF d] committed_addUnversioned [OF a]
    by (auto simp: h' files [symmetric] dirs_def [symmetric] filePaths_def)
qed

lemma import_steps_committed:
  assumes "import_steps E L op h = (Inr (n, paths), h')"
  shows "\<exists>snap status. ScanInitialSnapshot (sv_tree E (h @ [EvContent, EvCheckout (repo_url op)])
        (local_path op)) = Inr snap
    \<and> committed h' = committed h @ needed_dirs status snap @ needed_files status snap
    \<and> paths = int (length (sn_directories snap)) + int (length (sn_files snap))"
  using assms unfolding import_steps_def Let_def
  by (auto dest!: publish_snapshot_committed committed_recovered
      split: option.splits sum.splits prod.splits)

section \<open>Ancestors\<close>

lemma valid_rel_split: "valid_rel p \<Longrightarrow> CHR ''/'' \<in> set p \<Longrightarrow>
   \<exists>q name. p = q @ CHR ''/'' # name \<and> valid_rel q \<and> valid_name name"
proof -
  assume v: "valid_rel p" and "CHR ''/'' \<in> set p"
  then obtain q name where p: "p = q @ CHR ''/'' # name" and n: "CHR ''/'' \<notin> set name"
    by (meson split_list_last)
  have "split_on CHR ''/'' p = split_on CHR ''/'' q @ [name]"
    unfolding p by (simp add: split_on_append split_on_id n)
  with v have "valid_rel q" "valid_name name" by (simp_all add: valid_rel_def)
  with p show ?thesis by auto
qed

lemma clean_segs_append_empty:
  "\<forall>s \<in> set xs. valid_name s \<Longrightarrow> clean_segs r (xs @ [[]]) acc = rev acc @ xs"
  by (induction xs arbitrary: acc) (auto simp: valid_name_def)

lemma go_dir_child:
  assumes "valid_rel q" "valid_name name"
  shows "go_dir (q @ CHR ''/'' # name) = q"
proof -
  have "\<forall>c \<in> set (rev name). c \<noteq> CHR ''/''" using assms(2) by (auto simp: valid_name_def)
  then have d: "dropWhile (\<lambda>c. c \<noteq> CHR ''/'') (rev name @ CHR ''/'' # rev q) = CHR ''/'' # rev q"
    by (subst dropWhile_append2) auto
  have segs: "clean_segs False (split_on CHR ''/'' (q @ ''/'')) [] = split_on CHR ''/'' q"
    using assms(1) clean_segs_append_empty [of "split_on CHR ''/'' q"]
    by (simp add: split_on_append valid_rel_def)
  have "[] \<notin> set (split_on CHR ''/'' q)" using assms(1) by (auto simp: valid_rel_def valid_name_def)
  then have q: "q \<noteq> ''''" "\<not> is_abs (q @ ''/'')"
    by (auto simp: is_abs_def has_prefix_iff append_eq_Cons_conv)
  show ?thesis
    using segs q by (simp add: go_dir_def d go_clean_def Let_def join_split_on)
qed

lemma valid_rel_not_dot: "valid_rel q \<Longrightarrow> q \<noteq> ''.''"
proof
  assume "valid_rel q" and q: "q = ''.''"
  then have "valid_name ''.''" unfolding q valid_rel_def by simp
  then show False by (simp add: valid_name_def)
qed

lemma go_dir_name: "valid_name name \<Longrightarrow> go_dir name = ''.''"
  by (simp add: go_dir_def go_clean_def valid_name_def)

lemma hasUnversionedAncestor_step:
  "valid_rel q \<Longrightarrow> valid_name name \<Longrightarrow>
   hasUnversionedAncestor (q @ CHR ''/'' # name) status \<longleftrightarrow>
     status_of status q = ''unversioned'' \<or> status_of status q = ''added'' \<or> hasUnversionedAncestor q status"
  using valid_rel_not_dot [of q]
  by (subst hasUnversionedAncestor.simps) (auto simp: Let_def go_dir_child)

lemma slash_split_cases:
  "CHR ''/'' \<notin> set name \<Longrightarrow> q @ CHR ''/'' # name = a @ CHR ''/'' # r \<Longrightarrow>
     a = q \<and> r = name \<or> (\<exists>t. q = a @ CHR ''/'' # t \<and> r = t @ CHR ''/'' # name)"
proof (induction q arbitrary: a)
  case Nil
  then show ?case by (cases a) auto
next
  case (Cons c q)
  then show ?case by (cases a) auto
qed

text \<open>
  C39. A path of the snapshot with no status entry of its own counts as not yet added exactly
  when some directory above it, however far, is itself unversioned or scheduled: content
  below a collapsed unversioned directory is never skipped.
\<close>

theorem ancestor_unversioned_iff:
  assumes "valid_rel p"
  shows "hasUnversionedAncestor p status \<longleftrightarrow>
    (\<exists>q r. p = q @ CHR ''/'' # r \<and> (status_of status q = ''unversioned'' \<or> status_of status q = ''added''))"
  using assms
proof (induction "length p" arbitrary: p rule: less_induct)
  case less
  show ?case
  proof (cases "CHR ''/'' \<in> set p")
    case False
    then have "valid_name p" using less.prems by (simp add: valid_rel_def split_on_id)
    then show ?thesis using False
      by (subst hasUnversionedAncestor.simps) (auto simp: Let_def go_dir_name)
  next
    case True
    then obtain q name where p: "p = q @ CHR ''/'' # name" and v: "valid_rel q" "valid_name name"
      using valid_rel_split less.prems by blast
    then have IH: "hasUnversionedAncestor q status \<longleftrightarrow>
        (\<exists>a r. q = a @ CHR ''/'' # r \<and> (status_of status a = ''unversioned'' \<or> status_of status a = ''added''))"
      using less.hyps [of q] by simp
    have split: "p = a @ CHR ''/'' # r \<longleftrightarrow> a = q \<and> r = name \<or> (\<exists>t. q = a @ CHR ''/'' # t \<and> r = t @ CHR ''/'' # name)" for a r
      using slash_split_cases [of name q a r] v(2) unfolding p valid_name_def by auto
    show ?thesis
      unfolding split unfolding p hasUnversionedAncestor_step [OF v] IH by blast
  qed
qed

theorem ancestor_unversioned_iff_witness:
  "valid_rel ''a/b/c'' \<and> hasUnversionedAncestor ''a/b/c'' [(''a'', ''unversioned'')]"
proof
  show v: "valid_rel ''a/b/c''" by (simp add: valid_rel_def valid_name_def)
  show "hasUnversionedAncestor ''a/b/c'' [(''a'', ''unversioned'')]"
    unfolding ancestor_unversioned_iff [OF v]
    by (rule exI [of _ "''a''"], rule exI [of _ "''b/c''"]) (simp add: status_of_def)
qed

section \<open>Outcomes of the publication\<close>



section \<open>A sample publication\<close>

definition sample_env :: "string option \<Rightarrow> svn_env" where
  "sample_env commit = \<lparr>sv_root = (\<lambda>_ _. Some (Inr sample_tree)), sv_checkout = (\<lambda>_ _ _. None),
     sv_tree = (\<lambda>_ _. Inr sample_tree),
     sv_status = (\<lambda>_. Inr [(''d'', ''unversioned''), (''g'', ''unversioned'')]),
     sv_reverter = True, sv_revert = (\<lambda>_ _. None), sv_lstat = (\<lambda>_ _. Inr (sample_info True 0)),
     sv_add = (\<lambda>_ _. None), sv_commit = (\<lambda>_ _. commit), sv_revision = (\<lambda>_. Inr 2),
     sv_now = (\<lambda>_. ''t5''), sv_fault = (\<lambda>_. False)\<rparr>"

definition sample_limits :: import_limits where
  "sample_limits = \<lparr>max_batch_files = 1, max_batch_bytes = 100\<rparr>"

theorem takeInitialBatch_spec_witness:
  "0 < max_batch_files sample_limits \<and> int (length (fst (takeInitialBatch (sn_files sample_snapshot) sample_limits))) \<le> 1"
  using takeInitialBatch_spec [of sample_limits "sn_files sample_snapshot",
      OF _ prod.collapse [symmetric]]
  by (simp add: sample_limits_def)

definition sample_run :: "string option \<Rightarrow> (pub_error, operation) result \<times> store \<times> history" where
  "sample_run commit =
     PublishInitialSnapshot sample_ext (sample_env commit) sample_limits sample_ready ''op'' ''r2'' []"


definition cause_is :: "string \<Rightarrow> (pub_error, operation) result \<Rightarrow> bool" where
  "cause_is c r = (case r of Inl (PubCause d) \<Rightarrow> d = c | _ \<Rightarrow> False)"


end
