(* ===== verification/Orchestrator.thy ===== *)
theory Orchestrator
  imports Initial_Import
begin

text \<open>
  The orchestrator of repository creation (\<open>pkg/provisioning/orchestrator.go\<close>), the tickets
  it sends (\<open>store.go\<close>, \<open>pkg/control/v1/messages.go\<close>) and the check of
  \<open>controlclient.Client.Exchange\<close> that binds an answer to its ticket. The SSH transport, the
  repository-ready hook, fresh identifiers and cancellation are parameters whose answers may
  depend on the whole history. Proved: the loop ends, every iteration that continues moves
  the operation forward, and the store changes by steps of the store alone.
\<close>

section \<open>Tickets\<close>

text \<open>\<open>NewTicket\<close> is always called with the payload of its ticket type.\<close>

datatype payload =
    StoragePreflightPayload int int
  | CreateRepositoryPayload string
  | InitialCommitPayload string int int

fun payload_type :: "payload \<Rightarrow> ticket_type" where
  "payload_type (StoragePreflightPayload _ _) = TicketStoragePreflight"
| "payload_type (CreateRepositoryPayload _) = TicketCreateRepository"
| "payload_type (InitialCommitPayload _ _ _) = TicketInitialCommit"

record ticket =
  tk_schema :: string
  tk_operation_id :: string
  tk_request_id :: string
  tk_client_id :: string
  tk_created_at :: string
  tk_payload :: payload

definition validateTicket :: "ext \<Rightarrow> ticket \<Rightarrow> string option" where
  "validateTicket X t =
     (if tk_schema t \<noteq> ControlSchema then Some ''unsupported control schema''
      else if \<not> uuid_ok X (tk_operation_id t) then Some ''operation_id''
      else if \<not> uuid_ok X (tk_request_id t) then Some ''request_id''
      else if trim_space (tk_client_id t) = '''' then Some ''client_id is required''
      else if \<not> rfc3339_ok X (tk_created_at t) then Some ''invalid created_at''
      else (case tk_payload t of
          StoragePreflightPayload b p \<Rightarrow>
            if b < 0 \<or> p < 0 then Some ''STORAGE_PREFLIGHT sizes cannot be negative'' else None
        | CreateRepositoryPayload name \<Rightarrow>
            if trim_space name = '''' then Some ''CREATE_REPOSITORY payload.name is required'' else None
        | InitialCommitPayload repo revn paths \<Rightarrow>
            if \<not> uuid_ok X repo then Some ''INITIAL_COMMIT payload.repo_id''
            else if revn < 0 then Some ''INITIAL_COMMIT payload.revision cannot be negative''
            else if paths < 0 then Some ''INITIAL_COMMIT payload.paths cannot be negative''
            else if revn = 0 \<and> paths \<noteq> 0 then Some ''INITIAL_COMMIT revision zero requires an empty snapshot''
            else None))"

datatype orch_error =
    OCancelled | OStore prov_error | OContent string | OPending prov_state ticket_type nat
  | OTicket string | OExchange string | OHook string | OPublish pub_error
  | OUnsupported prov_state

definition NewTicket ::
    "ext \<Rightarrow> string \<Rightarrow> string \<Rightarrow> string \<Rightarrow> string \<Rightarrow> payload \<Rightarrow> (orch_error, ticket) result" where
  "NewTicket X now oid rid client p =
     (let t = \<lparr>tk_schema = ControlSchema, tk_operation_id = oid, tk_request_id = rid,
               tk_client_id = trim_space client, tk_created_at = now, tk_payload = p\<rparr> in
      case validateTicket X t of Some e \<Rightarrow> Inl (OTicket e) | None \<Rightarrow> Inr t)"

definition StoragePreflightTicket where
  "StoragePreflightTicket X now st oid rid =
     (case Get X st oid of
        Inl e \<Rightarrow> Inl (OStore e)
      | Inr op \<Rightarrow>
         (case map_of (requests op) rid of
            None \<Rightarrow> Inl (OStore ErrUnregistered)
          | Some r \<Rightarrow>
             if rr_type r \<noteq> TicketStoragePreflight \<or> rr_status r \<noteq> RequestPending
             then Inl (OStore ErrUnregistered)
             else NewTicket X now (operation_id op) rid (client_id op)
                    (StoragePreflightPayload (snapshot_bytes op) (snapshot_paths op))))"

definition CreateRepositoryTicket where
  "CreateRepositoryTicket X now st oid rid =
     (case Get X st oid of
        Inl e \<Rightarrow> Inl (OStore e)
      | Inr op \<Rightarrow>
         (case map_of (requests op) rid of
            None \<Rightarrow> Inl (OStore ErrUnregistered)
          | Some r \<Rightarrow>
             if rr_type r \<noteq> TicketCreateRepository then Inl (OStore ErrUnregistered)
             else NewTicket X now (operation_id op) rid (client_id op)
                    (CreateRepositoryPayload (op_name op))))"

definition InitialCommitTicket where
  "InitialCommitTicket X now st oid rid =
     (case Get X st oid of
        Inl e \<Rightarrow> Inl (OStore e)
      | Inr op \<Rightarrow>
         if op_state op \<noteq> StateInitialSnapshotPublished
         then Inl (OStore (ErrTransition (op_state op) StateInitialSnapshotPublished))
         else (case map_of (requests op) rid of
            None \<Rightarrow> Inl (OStore ErrUnregistered)
          | Some r \<Rightarrow>
             if rr_type r \<noteq> TicketInitialCommit \<or> rr_status r \<noteq> RequestPending
             then Inl (OStore ErrUnregistered)
             else NewTicket X now (operation_id op) rid (client_id op)
                    (InitialCommitPayload (repo_id op) (op_revision op) (op_paths op))))"

section \<open>The exchange\<close>

text \<open>
  \<open>tr\<close> is the SSH session: the decoded answer or the transport's error. What \<open>Exchange\<close>
  adds is the validation of the ticket and of the answer, and that the answer names the
  ticket's operation, request and type.
\<close>

definition Exchange ::
    "ext \<Rightarrow> (ticket \<Rightarrow> (string, control_result) result) \<Rightarrow> ticket \<Rightarrow> (string, control_result) result" where
  "Exchange X tr t =
     (case validateTicket X t of
        Some e \<Rightarrow> Inl e
      | None \<Rightarrow>
         (case tr t of
            Inl e \<Rightarrow> Inl e
          | Inr res \<Rightarrow>
             (case validateResult X res of
                Some _ \<Rightarrow> Inl ''parse repository control result''
              | None \<Rightarrow>
                 if cr_operation_id res \<noteq> tk_operation_id t \<or> cr_request_id res \<noteq> tk_request_id t
                    \<or> cr_type res \<noteq> payload_type (tk_payload t)
                 then Inl ''repository control result does not match ticket''
                 else Inr res)))"

text \<open>What the orchestrator relies on from \<open>ControlExchange\<close>.\<close>

locale control_exchange =
  fixes X :: ext and exchange :: "ticket \<Rightarrow> (string, control_result) result"
  assumes answer_valid: "exchange t = Inr res \<Longrightarrow> validateResult X res = None"
    and answer_bound: "exchange t = Inr res \<Longrightarrow> cr_operation_id res = tk_operation_id t
      \<and> cr_request_id res = tk_request_id t \<and> cr_type res = payload_type (tk_payload t)"
begin

text \<open>An answer reaches exactly the transition of its own request.\<close>

lemma apply_answer:
  assumes "exchange t = Inr res" "payload_type (tk_payload t) = typ"
  shows "apply_result X now fault typ fn st res = mutate X now fault (fn X res) st (tk_operation_id t)"
  using answer_valid [OF assms(1)] answer_bound [OF assms(1)] assms(2) by (simp add: apply_result_def)

end

interpretation ssh_control: control_exchange X "Exchange X tr" for X tr
  by unfold_locales (auto simp: Exchange_def split: option.splits sum.splits if_splits)

section \<open>The loop\<close>

record orch_env =
  oe_svn :: svn_env
  oe_cancelled :: "history \<Rightarrow> bool"
  oe_uuid :: "history \<Rightarrow> string"
  oe_transport :: "history \<Rightarrow> ticket \<Rightarrow> (string, control_result) result"
  oe_hook :: "(history \<Rightarrow> operation \<Rightarrow> string option) option"

text \<open>
  What one iteration does: go round the loop again, return the active operation, return the
  operation with the server's refusal, or return an error.
\<close>

datatype orch_out =
    OutContinue | OutActive operation | OutRefused operation string | OutError orch_error

type_synonym orch_result = "orch_out \<times> store \<times> history"

definition pendingRequest :: "operation \<Rightarrow> ticket_type \<Rightarrow> (orch_error, string) result" where
  "pendingRequest op typ =
     (let ids = sort (map fst (filter (\<lambda>x. rr_type (snd x) = typ \<and> is_pending x) (requests op))) in
      if length ids \<noteq> 1 then Inl (OPending (op_state op) typ (length ids)) else Inr (hd ids))"

definition requestFailure :: "operation \<Rightarrow> string \<Rightarrow> string" where
  "requestFailure op rid =
     (case map_of (requests op) rid of
        None \<Rightarrow> ''repository control request failed without error details''
      | Some r \<Rightarrow>
         (case rr_error r of
            None \<Rightarrow> ''repository control request failed without error details''
          | Some b \<Rightarrow> eb_code b @ '': '' @ eb_message b))"

definition check_content :: "orch_env \<Rightarrow> history \<Rightarrow> operation \<Rightarrow> string option" where
  "check_content E h op = CheckInitialContent (sv_root (oe_svn E) h (local_path op))"

definition run_hook :: "orch_env \<Rightarrow> history \<Rightarrow> operation \<Rightarrow> string option" where
  "run_hook E h op = (case oe_hook E of None \<Rightarrow> None | Some f \<Rightarrow> f h op)"

text \<open>A store operation that only registers a request.\<close>

definition step_request ::
    "(string \<Rightarrow> bool \<Rightarrow> store \<Rightarrow> string \<Rightarrow> string \<Rightarrow> (prov_error, operation) result \<times> store)
     \<Rightarrow> orch_env \<Rightarrow> store \<Rightarrow> string \<Rightarrow> history \<Rightarrow> orch_result" where
  "step_request req E st oid h =
     (case req (sv_now (oe_svn E) h) (sv_fault (oe_svn E) h) st oid (oe_uuid E h) of
        (Inl e, st') \<Rightarrow> (OutError (OStore e), st', h @ [EvStore])
      | (Inr _, st') \<Rightarrow> (OutContinue, st', h @ [EvStore]))"

text \<open>
  Sending the pending request and applying the answer; \<open>failed\<close> is the state in which the
  answer was a refusal.
\<close>

definition step_exchange ::
    "ext \<Rightarrow> ticket_type \<Rightarrow> prov_state
     \<Rightarrow> (string \<Rightarrow> store \<Rightarrow> string \<Rightarrow> string \<Rightarrow> (orch_error, ticket) result)
     \<Rightarrow> (string \<Rightarrow> bool \<Rightarrow> store \<Rightarrow> control_result \<Rightarrow> (prov_error, operation) result \<times> store)
     \<Rightarrow> bool \<Rightarrow> orch_env \<Rightarrow> store \<Rightarrow> string \<Rightarrow> operation \<Rightarrow> history \<Rightarrow> orch_result" where
  "step_exchange X typ failed mk app ready E st oid op h =
     (case pendingRequest op typ of
        Inl e \<Rightarrow> (OutError e, st, h)
      | Inr rid \<Rightarrow>
         (case mk (sv_now (oe_svn E) h) st oid rid of
            Inl e \<Rightarrow> (OutError e, st, h)
          | Inr t \<Rightarrow>
             (let h1 = h @ [EvExchange rid] in
              case Exchange X (oe_transport E h) t of
                Inl e \<Rightarrow> (OutError (OExchange e), st, h1)
              | Inr res \<Rightarrow>
                 (case app (sv_now (oe_svn E) h1) (sv_fault (oe_svn E) h1) st res of
                    (Inl e, st') \<Rightarrow> (OutError (OStore e), st', h1 @ [EvStore])
                  | (Inr updated, st') \<Rightarrow>
                      if op_state updated = failed
                      then (OutRefused updated (requestFailure updated rid), st', h1 @ [EvStore])
                      else if ready then
                        (case run_hook E (h1 @ [EvStore]) updated of
                           Some e \<Rightarrow> (OutError (OHook e), st', h1 @ [EvStore, EvHook])
                         | None \<Rightarrow> (OutContinue, st', h1 @ [EvStore, EvHook]))
                      else (OutContinue, st', h1 @ [EvStore])))))"

definition step_publish ::
    "ext \<Rightarrow> orch_env \<Rightarrow> import_limits \<Rightarrow> store \<Rightarrow> string \<Rightarrow> operation \<Rightarrow> history \<Rightarrow> orch_result" where
  "step_publish X E L st oid op h =
     (case pendingRequest op TicketInitialCommit of
        Inl e \<Rightarrow> (OutError e, st, h)
      | Inr rid \<Rightarrow>
         (case PublishInitialSnapshot X (oe_svn E) L st oid rid h of
            (Inl e, st', h') \<Rightarrow> (OutError (OPublish e), st', h')
          | (Inr _, st', h') \<Rightarrow> (OutContinue, st', h')))"

text \<open>The \<open>switch\<close> on the state of the operation that was read.\<close>

definition dispatch ::
    "ext \<Rightarrow> orch_env \<Rightarrow> import_limits \<Rightarrow> store \<Rightarrow> string \<Rightarrow> operation \<Rightarrow> history \<Rightarrow> orch_result" where
  "dispatch X E L st oid op h =
     (let s = op_state op in
      if s = StateLocalValidated \<or> s = StateStoragePreflightFailed then
        (case check_content E h op of
           Some e \<Rightarrow> (OutError (OContent e), st, h @ [EvContent])
         | None \<Rightarrow> step_request (RequestStoragePreflight X) E st oid (h @ [EvContent]))
      else if s = StateStoragePreflightRequested then
        step_exchange X TicketStoragePreflight StateStoragePreflightFailed
          (StoragePreflightTicket X) (ApplyStoragePreflightResult X) False E st oid op h
      else if s = StateStorageApproved \<or> s = StateRepositoryRequestFailed then
        step_request (RequestRepository X) E st oid h
      else if s = StateProvisioningRequested then
        (case check_content E h op of
           Some e \<Rightarrow> (OutError (OContent e), st, h @ [EvContent])
         | None \<Rightarrow> step_exchange X TicketCreateRepository StateRepositoryRequestFailed
             (CreateRepositoryTicket X) (ApplyRepositoryResult X) True E st oid op (h @ [EvContent]))
      else if s = StateRepositoryReady \<or> s = StateInitialCommitFailed then
        step_request (StartInitialCommit X) E st oid h
      else if s = StateInitialCommitInProgress then step_publish X E L st oid op h
      else if s = StateInitialSnapshotPublished then
        step_exchange X TicketInitialCommit StateInitialCommitFailed
          (InitialCommitTicket X) (ApplyInitialCommitResult X) False E st oid op h
      else if s = StateActive then (OutActive op, st, h)
      else (OutError (OUnsupported s), st, h))"

definition iteration ::
    "ext \<Rightarrow> orch_env \<Rightarrow> import_limits \<Rightarrow> store \<Rightarrow> string \<Rightarrow> history \<Rightarrow> orch_result" where
  "iteration X E L st oid h =
     (if oe_cancelled E h then (OutError OCancelled, st, h)
      else (case Get X st oid of
          Inl e \<Rightarrow> (OutError (OStore e), st, h)
        | Inr op \<Rightarrow>
           if repo_id op \<noteq> '''' \<and> oe_hook E \<noteq> None then
             (case run_hook E h op of
                Some e \<Rightarrow> (OutError (OHook e), st, h @ [EvHook])
              | None \<Rightarrow> dispatch X E L st oid op (h @ [EvHook]))
           else dispatch X E L st oid op h))"

text \<open>The \<open>for\<close> loop with fuel; \<open>None\<close> is running out of it.\<close>

fun RunCreate ::
    "nat \<Rightarrow> ext \<Rightarrow> orch_env \<Rightarrow> import_limits \<Rightarrow> store \<Rightarrow> string \<Rightarrow> history \<Rightarrow> orch_result option" where
  "RunCreate 0 X E L st oid h = None"
| "RunCreate (Suc fuel) X E L st oid h =
     (case iteration X E L st oid h of
        (OutContinue, st', h') \<Rightarrow> RunCreate fuel X E L st' oid h'
      | (out, st', h') \<Rightarrow> Some (out, st', h'))"

section \<open>The loop changes the store by its own steps\<close>

lemma step_request_steps:
  assumes "\<And>now fault rid. prov_step X st (snd (req now fault st oid rid))"
    and "step_request req E st oid h = (out, st', h')"
  shows "(prov_step X)\<^sup>*\<^sup>* st st'"
proof -
  have "st' = snd (req (sv_now (oe_svn E) h) (sv_fault (oe_svn E) h) st oid (oe_uuid E h))"
    using assms(2) by (auto simp: step_request_def split: prod.splits sum.splits)
  with assms(1) show ?thesis by blast
qed

lemma step_exchange_steps:
  assumes "\<And>now fault res. prov_step X st (snd (app now fault st res))"
    and "step_exchange X typ failed mk app ready E st oid op h = (out, st', h')"
  shows "(prov_step X)\<^sup>*\<^sup>* st st'"
proof -
  have "st' = st \<or> (\<exists>now fault res. st' = snd (app now fault st res))"
    using assms(2) unfolding step_exchange_def Let_def
    by (auto split: prod.splits sum.splits option.splits if_splits) (metis snd_conv)+
  with assms(1) show ?thesis by blast
qed

lemma PublishInitialSnapshot_steps:
  assumes "PublishInitialSnapshot X E L st oid rid h = (r, st', h')"
  shows "(prov_step X)\<^sup>*\<^sup>* st st'"
proof -
  obtain r1 st1 where start: "StartInitialCommit X (sv_now E h) (sv_fault E h) st oid rid = (r1, st1)" by fastforce
  have "prov_step X st st1" using prov_step.start [of X st "sv_now E h" "sv_fault E h" oid rid] start by simp
  moreover have "st' = st \<or> st' = st1 \<or>
      (\<exists>now fault code msg. st' = snd (FailInitialCommit X now fault st1 oid rid code msg)) \<or>
      (\<exists>now fault n p. st' = snd (MarkInitialSnapshotPublished X now fault st1 oid rid n p))"
    using assms start unfolding PublishInitialSnapshot_def
    by (auto split: prod.splits sum.splits if_splits) (metis snd_conv)+
  ultimately show ?thesis
    by (blast intro: prov_step.fail prov_step.published rtranclp.rtrancl_into_rtrancl)
qed

lemma dispatch_steps:
  assumes "dispatch X E L st oid op h = (out, st', h')"
  shows "(prov_step X)\<^sup>*\<^sup>* st st'"
  using assms unfolding dispatch_def Let_def step_publish_def
  by (auto split: if_splits option.splits sum.splits prod.splits
      elim: step_request_steps [rotated] step_exchange_steps [rotated] PublishInitialSnapshot_steps
      intro: prov_step.intros)

lemma iteration_steps:
  "iteration X E L st oid h = (out, st', h') \<Longrightarrow> (prov_step X)\<^sup>*\<^sup>* st st'"
  unfolding iteration_def by (auto split: if_splits option.splits sum.splits elim: dispatch_steps)


section \<open>A pending request is always found\<close>

lemma pendingRequest_ok:
  assumes "op_inv op" "op_state op \<noteq> StateAbandoned" "expected_request (op_state op) = Some t"
  shows "\<exists>rid r. pendingRequest op t = Inr rid \<and> map_of (requests op) rid = Some r
    \<and> rr_type r = t \<and> rr_status r = RequestPending"
proof -
  have p: "map (\<lambda>x. rr_type (snd x)) (filter is_pending (requests op)) = [t]" "wf_assoc (requests op)"
    using assms by (simp_all add: op_inv_def pending_types_def)
  then obtain rid r where f: "filter is_pending (requests op) = [(rid, r)]" and t: "rr_type r = t"
    by (auto simp: map_eq_Cons_conv)
  have "(rid, r) \<in> set (filter is_pending (requests op))" using f by simp
  then have "map_of (requests op) rid = Some r" "rr_status r = RequestPending"
    using p(2) by (simp_all add: wf_assoc_in_map_of)
  moreover have "filter (\<lambda>x. rr_type (snd x) = t \<and> is_pending x) (requests op)
      = filter (\<lambda>x. rr_type (snd x) = t) (filter is_pending (requests op))"
    by (simp add: conj_commute)
  then have "filter (\<lambda>x. rr_type (snd x) = t \<and> is_pending x) (requests op) = [(rid, r)]"
    unfolding f by (simp add: t)
  ultimately show ?thesis using t by (simp add: pendingRequest_def)
qed

lemma pendingRequest_pending:
  assumes "pendingRequest op t = Inr rid" "wf_assoc (requests op)"
  shows "\<exists>r. map_of (requests op) rid = Some r \<and> rr_type r = t \<and> rr_status r = RequestPending"
proof -
  let ?f = "filter (\<lambda>x. rr_type (snd x) = t \<and> is_pending x) (requests op)"
  from assms(1) have len: "length (sort (map fst ?f)) = 1" and rid: "rid = hd (sort (map fst ?f))"
    by (auto simp: pendingRequest_def Let_def split: if_splits)
  have "sort (map fst ?f) \<noteq> []" using len by (cases "sort (map fst ?f)") simp_all
  then have "rid \<in> set (sort (map fst ?f))" unfolding rid by (rule hd_in_set)
  then obtain r where "(rid, r) \<in> set ?f" by auto
  with assms(2) show ?thesis by (auto simp: wf_assoc_in_map_of)
qed

text \<open>
  The orchestrator never loses track of its request: in every store reached by the
  store's operations, an operation that waits for the server has exactly one pending request
  of the awaited type, so \<open>pendingRequest\<close> finds it.
\<close>

theorem pendingRequest_total:
  assumes "reach (\<lambda>st. st = []) (prov_step X) st" and "Get X st oid = Inr op"
    and "expected_request (op_state op) = Some t"
  shows "\<exists>rid r. pendingRequest op t = Inr rid \<and> map_of (requests op) rid = Some r
    \<and> rr_type r = t \<and> rr_status r = RequestPending"
proof -
  have "op_inv op" using prov.reach_inv [OF assms(1)] assms(2)
    by (auto simp: Get_def store_inv_def loadLocked_Inr)
  moreover have "op_state op \<noteq> StateAbandoned" using assms(3) by (auto simp: expected_request_def)
  ultimately show ?thesis using assms(3) by (rule pendingRequest_ok)
qed

theorem pendingRequest_total_witness:
  "\<exists>op rid. Get sample_ext sample_requested ''op'' = Inr op \<and> pendingRequest op TicketCreateRepository = Inr rid"
proof -
  have s: "map_sum id op_state (Get sample_ext sample_requested ''op'') = Inr StateProvisioningRequested"
    by code_simp
  then obtain op where op: "Get sample_ext sample_requested ''op'' = Inr op"
      "op_state op = StateProvisioningRequested"
    by (cases "Get sample_ext sample_requested ''op''") auto
  have "expected_request (op_state op) = Some TicketCreateRepository"
    by (simp add: op(2) expected_request_def)
  from pendingRequest_total [OF sample_reach(1) op(1) this] op(1) show ?thesis by blast
qed

section \<open>Progress and termination\<close>

fun rank :: "prov_state \<Rightarrow> nat" where
  "rank StateLocalValidated = 0"
| "rank StateStoragePreflightFailed = 0"
| "rank StateStoragePreflightRequested = 1"
| "rank StateStorageApproved = 2"
| "rank StateRepositoryRequestFailed = 2"
| "rank StateProvisioningRequested = 3"
| "rank StateRepositoryReady = 4"
| "rank StateInitialCommitFailed = 4"
| "rank StateInitialCommitInProgress = 5"
| "rank StateInitialSnapshotPublished = 6"
| "rank _ = 7"

context prov_transition
begin

lemma mutate_reaches:
  assumes "store_inv st" "loadLocked X st oid = Inr op" "mutate X now fault fn st oid = (Inr op', st')"
    and "\<And>op0. fn op = Inr op0 \<Longrightarrow> op_state op0 \<in> S"
  shows "loadLocked X st' oid = Inr op' \<and> op_state op' \<in> S"
proof -
  from mutate_Inr [OF assms(3)] assms(2) obtain op0 where "fn op = Inr op0"
      "op' = op0 \<or> op' = op0\<lparr>updated_at := now\<rparr>" by auto
  with assms(4) have "op_state op' \<in> S" by force
  with mutate_stored [OF assms(1,3)] show ?thesis by simp
qed

end

definition fresh_at :: "ext \<Rightarrow> orch_env \<Rightarrow> store \<Rightarrow> string \<Rightarrow> history \<Rightarrow> bool" where
  "fresh_at X E st oid h =
     (case Get X st oid of
        Inl _ \<Rightarrow> True
      | Inr op \<Rightarrow> list_all (\<lambda>h'. oe_uuid E h' \<notin> set (map fst (requests op)))
          [h, h @ [EvContent], h @ [EvHook], (h @ [EvHook]) @ [EvContent]])"

lemma step_request_progress:
  assumes "\<And>now fault rid. req now fault st oid rid = mutate X now fault (fn rid) st oid"
    and "\<And>rid. prov_transition (fn rid)" and "store_inv st" "loadLocked X st oid = Inr op"
    and "map_of (requests op) (oe_uuid E h) = None"
    and "\<And>rid op0. map_of (requests op) rid = None \<Longrightarrow> fn rid op = Inr op0 \<Longrightarrow> op_state op0 = s"
    and "step_request req E st oid h = (OutContinue, st', h')"
  shows "\<exists>op'. loadLocked X st' oid = Inr op' \<and> op_state op' = s"
proof -
  from assms(7) obtain op' where m: "mutate X (sv_now (oe_svn E) h) (sv_fault (oe_svn E) h)
      (fn (oe_uuid E h)) st oid = (Inr op', st')"
    by (auto simp: step_request_def assms(1) split: prod.splits sum.splits)
  from prov_transition.mutate_reaches [OF assms(2,3,4) m, of "{s}"] assms(5,6) show ?thesis by auto
qed

lemma step_exchange_progress:
  assumes app: "\<And>now fault res. app now fault st res = apply_result X now fault typ fn st res"
    and tr: "\<And>res. prov_transition (fn X res)" and inv: "store_inv st" and load: "loadLocked X st oid = Inr op"
    and mk: "\<And>now rid t. mk now st oid rid = Inr t \<Longrightarrow>
      tk_operation_id t = operation_id op \<and> tk_request_id t = rid \<and> payload_type (tk_payload t) = typ"
    and fn: "\<And>res r op0. map_of (requests op) (cr_request_id res) = Some r \<Longrightarrow> rr_type r = typ \<Longrightarrow>
      rr_status r = RequestPending \<Longrightarrow> fn X res op = Inr op0 \<Longrightarrow> op_state op0 \<in> {failed, s}"
    and step: "step_exchange X typ failed mk app ready E st oid op h = (OutContinue, st', h')"
  shows "\<exists>op'. loadLocked X st' oid = Inr op' \<and> op_state op' = s"
proof -
  from step obtain rid t res now fault upd where rid: "pendingRequest op typ = Inr rid"
    and t: "mk (sv_now (oe_svn E) h) st oid rid = Inr t"
    and ex: "Exchange X (oe_transport E h) t = Inr res"
    and ap: "app now fault st res = (Inr upd, st')" and nf: "op_state upd \<noteq> failed"
    unfolding step_exchange_def Let_def
    by (auto split: prod.splits sum.splits option.splits if_splits)
  have ids: "operation_id op = oid" "wf_assoc (requests op)"
    using inv load by (auto simp: store_inv_def loadLocked_Inr op_inv_def)
  have m: "mutate X now fault (fn X res) st oid = (Inr upd, st')"
    using ap ssh_control.apply_answer [OF ex, of "typ" now fault fn st] mk [OF t] ids(1) by (simp add: app)
  have "cr_request_id res = rid" using ssh_control.answer_bound [OF ex] mk [OF t] by simp
  then have "fn X res op = Inr op0 \<Longrightarrow> op_state op0 \<in> {failed, s}" for op0
    using pendingRequest_pending [OF rid ids(2)] fn [of res] by auto
  from prov_transition.mutate_reaches [OF tr inv load m this] nf show ?thesis by auto
qed

lemma NewTicket_bound:
  "NewTicket X now oid rid client p = Inr t \<Longrightarrow>
     tk_operation_id t = oid \<and> tk_request_id t = rid \<and> tk_payload t = p"
  by (auto simp: NewTicket_def Let_def split: option.splits)

lemma tickets_bound:
  "loadLocked X st oid = Inr op \<Longrightarrow> StoragePreflightTicket X now st oid rid = Inr t \<Longrightarrow>
     tk_operation_id t = operation_id op \<and> tk_request_id t = rid \<and> payload_type (tk_payload t) = TicketStoragePreflight"
  "loadLocked X st oid = Inr op \<Longrightarrow> CreateRepositoryTicket X now st oid rid = Inr t \<Longrightarrow>
     tk_operation_id t = operation_id op \<and> tk_request_id t = rid \<and> payload_type (tk_payload t) = TicketCreateRepository"
  "loadLocked X st oid = Inr op \<Longrightarrow> InitialCommitTicket X now st oid rid = Inr t \<Longrightarrow>
     tk_operation_id t = operation_id op \<and> tk_request_id t = rid \<and> payload_type (tk_payload t) = TicketInitialCommit"
  unfolding StoragePreflightTicket_def CreateRepositoryTicket_def InitialCommitTicket_def Get_def
  by (auto split: option.splits if_splits dest!: NewTicket_bound)

lemma step_publish_progress:
  assumes "store_inv st" "step_publish X E L st oid op h = (OutContinue, st', h')"
  shows "\<exists>op'. loadLocked X st' oid = Inr op' \<and> op_state op' = StateInitialSnapshotPublished"
proof -
  from assms(2) obtain rid op' where "PublishInitialSnapshot X (oe_svn E) L st oid rid h = (Inr op', st', h')"
    by (auto simp: step_publish_def split: sum.splits prod.splits)
  then obtain o1 st1 n p h1 where
      start: "mutate X (sv_now (oe_svn E) h) (sv_fault (oe_svn E) h) (start_initial_fn X rid) st oid = (Inr o1, st1)"
      and mark: "mutate X (sv_now (oe_svn E) h1) (sv_fault (oe_svn E) h1) (mark_published_fn rid n p) st1 oid = (Inr op', st')"
    unfolding PublishInitialSnapshot_def MarkInitialSnapshotPublished_def StartInitialCommit_def
    by (auto split: if_splits sum.splits prod.splits)
  have inv1: "store_inv st1" by (rule start_initial.mutate_store_inv [OF assms(1) start])
  have load1: "loadLocked X st1 oid = Inr o1" by (rule start_initial.mutate_stored [OF assms(1) start])
  have "mark_published_fn rid n p o1 = Inr op0 \<Longrightarrow> op_state op0 \<in> {StateInitialSnapshotPublished}" for op0
    by (auto simp: mark_published_fn_def split: fn_splits)
  from mark_published.mutate_reaches [OF inv1 load1 mark this] show ?thesis by auto
qed

lemma request_preflight_progress:
  assumes "store_inv st" "loadLocked X st oid = Inr op" "map_of (requests op) (oe_uuid E h) = None"
    and "step_request (RequestStoragePreflight X) E st oid h = (OutContinue, st', h')"
  shows "\<exists>op'. loadLocked X st' oid = Inr op' \<and> op_state op' = StateStoragePreflightRequested"
  by (rule step_request_progress [OF _ request_preflight.prov_transition_axioms assms(1-3) _ assms(4)])
     (auto simp: RequestStoragePreflight_def request_preflight_fn_def split: if_splits)

lemma request_repository_progress:
  assumes "store_inv st" "loadLocked X st oid = Inr op" "map_of (requests op) (oe_uuid E h) = None"
    and "step_request (RequestRepository X) E st oid h = (OutContinue, st', h')"
  shows "\<exists>op'. loadLocked X st' oid = Inr op' \<and> op_state op' = StateProvisioningRequested"
  by (rule step_request_progress [OF _ request_repository.prov_transition_axioms assms(1-3) _ assms(4)])
     (auto simp: RequestRepository_def request_repository_fn_def split: if_splits)

lemma start_initial_progress:
  assumes "store_inv st" "loadLocked X st oid = Inr op" "map_of (requests op) (oe_uuid E h) = None"
    and "step_request (StartInitialCommit X) E st oid h = (OutContinue, st', h')"
  shows "\<exists>op'. loadLocked X st' oid = Inr op' \<and> op_state op' = StateInitialCommitInProgress"
  by (rule step_request_progress [OF _ start_initial.prov_transition_axioms assms(1-3) _ assms(4)])
     (auto simp: StartInitialCommit_def start_initial_fn_def split: if_splits)

lemma apply_preflight_progress:
  assumes "store_inv st" "loadLocked X st oid = Inr op"
    and "step_exchange X TicketStoragePreflight StateStoragePreflightFailed (StoragePreflightTicket X)
          (ApplyStoragePreflightResult X) ready E st oid op h = (OutContinue, st', h')"
  shows "\<exists>op'. loadLocked X st' oid = Inr op' \<and> op_state op' = StateStorageApproved"
  by (rule step_exchange_progress [where fn = apply_preflight_fn, OF _ apply_preflight.prov_transition_axioms assms(1,2)
        tickets_bound(1) [OF assms(2)] _ assms(3)])
     (auto simp: ApplyStoragePreflightResult_def apply_preflight_fn_def split: if_splits)

lemma apply_repository_progress:
  assumes "store_inv st" "loadLocked X st oid = Inr op"
    and "step_exchange X TicketCreateRepository StateRepositoryRequestFailed (CreateRepositoryTicket X)
          (ApplyRepositoryResult X) ready E st oid op h = (OutContinue, st', h')"
  shows "\<exists>op'. loadLocked X st' oid = Inr op' \<and> op_state op' = StateRepositoryReady"
  by (rule step_exchange_progress [where fn = apply_repository_fn, OF _ apply_repository.prov_transition_axioms assms(1,2)
        tickets_bound(2) [OF assms(2)] _ assms(3)])
     (auto simp: ApplyRepositoryResult_def apply_repository_fn_def split: if_splits option.splits)

lemma apply_initial_progress:
  assumes "store_inv st" "loadLocked X st oid = Inr op"
    and "step_exchange X TicketInitialCommit StateInitialCommitFailed (InitialCommitTicket X)
          (ApplyInitialCommitResult X) ready E st oid op h = (OutContinue, st', h')"
  shows "\<exists>op'. loadLocked X st' oid = Inr op' \<and> op_state op' = StateActive"
  by (rule step_exchange_progress [where fn = apply_initial_fn, OF _ apply_initial.prov_transition_axioms assms(1,2)
        tickets_bound(3) [OF assms(2)] _ assms(3)])
     (auto simp: ApplyInitialCommitResult_def apply_initial_fn_def split: if_splits)

text \<open>Every iteration that continues moves the operation to a state of higher rank.\<close>

lemma dispatch_progress:
  assumes inv: "store_inv st" and load: "loadLocked X st oid = Inr op"
    and fresh: "map_of (requests op) (oe_uuid E h) = None"
      "map_of (requests op) (oe_uuid E (h @ [EvContent])) = None"
    and step: "dispatch X E L st oid op h = (OutContinue, st', h')"
  shows "\<exists>op'. loadLocked X st' oid = Inr op' \<and> rank (op_state op) < rank (op_state op')"
proof (cases "op_state op")
  case StateLocalValidated
  with step request_preflight_progress [OF inv load fresh(2)] show ?thesis
    by (fastforce simp: dispatch_def split: option.splits)
next
  case StateStoragePreflightFailed
  with step request_preflight_progress [OF inv load fresh(2)] show ?thesis
    by (fastforce simp: dispatch_def split: option.splits)
next
  case StateStoragePreflightRequested
  with step apply_preflight_progress [OF inv load] show ?thesis by (fastforce simp: dispatch_def)
next
  case StateStorageApproved
  with step request_repository_progress [OF inv load fresh(1)] show ?thesis by (fastforce simp: dispatch_def)
next
  case StateRepositoryRequestFailed
  with step request_repository_progress [OF inv load fresh(1)] show ?thesis by (fastforce simp: dispatch_def)
next
  case StateProvisioningRequested
  with step apply_repository_progress [OF inv load] show ?thesis
    by (fastforce simp: dispatch_def split: option.splits)
next
  case StateRepositoryReady
  with step start_initial_progress [OF inv load fresh(1)] show ?thesis by (fastforce simp: dispatch_def)
next
  case StateInitialCommitFailed
  with step start_initial_progress [OF inv load fresh(1)] show ?thesis by (fastforce simp: dispatch_def)
next
  case StateInitialCommitInProgress
  with step step_publish_progress [OF inv] show ?thesis by (fastforce simp: dispatch_def)
next
  case StateInitialSnapshotPublished
  with step apply_initial_progress [OF inv load] show ?thesis by (fastforce simp: dispatch_def)
qed (use step in \<open>auto simp: dispatch_def\<close>)

lemma iteration_progress:
  assumes "store_inv st" "Get X st oid = Inr op" "fresh_at X E st oid h"
    and "iteration X E L st oid h = (OutContinue, st', h')"
  shows "\<exists>op'. Get X st' oid = Inr op' \<and> rank (op_state op) < rank (op_state op')"
proof -
  from assms(4) assms(2) obtain h0 where "h0 = h \<or> h0 = h @ [EvHook]"
      and d: "dispatch X E L st oid op h0 = (OutContinue, st', h')"
    by (auto simp: iteration_def split: if_splits option.splits)
  then have "map_of (requests op) (oe_uuid E h0) = None" "map_of (requests op) (oe_uuid E (h0 @ [EvContent])) = None"
    using assms(2,3) by (elim disjE; simp add: fresh_at_def map_of_eq_None_iff)+
  from dispatch_progress [OF assms(1) _ this d] assms(2) show ?thesis by (simp add: Get_def)
qed

text \<open>
  \<open>fresh_run n\<close>: in the first \<open>n\<close> iterations each new identifier differs from those the
  operation has registered, the documented behaviour of \<open>uuid.NewString\<close>.
\<close>

fun fresh_run :: "nat \<Rightarrow> ext \<Rightarrow> orch_env \<Rightarrow> import_limits \<Rightarrow> store \<Rightarrow> string \<Rightarrow> history \<Rightarrow> bool" where
  "fresh_run 0 X E L st oid h = True"
| "fresh_run (Suc n) X E L st oid h =
     (fresh_at X E st oid h \<and>
      (case iteration X E L st oid h of
         (OutContinue, st', h') \<Rightarrow> fresh_run n X E L st' oid h'
       | _ \<Rightarrow> True))"

lemma rank_bound: "rank s \<le> 7"
  by (cases s) auto

lemma RunCreate_returns_aux:
  "store_inv st \<Longrightarrow> fresh_run n X E L st oid h \<Longrightarrow>
   (\<And>op. Get X st oid = Inr op \<Longrightarrow> 7 < n + rank (op_state op)) \<Longrightarrow> 0 < n \<Longrightarrow>
   \<exists>r. RunCreate n X E L st oid h = Some r"
proof (induction n arbitrary: st h)
  case (Suc n)
  obtain o1 st1 h1 where i: "iteration X E L st oid h = (o1, st1, h1)" by (cases "iteration X E L st oid h")
  show ?case
  proof (cases "o1 = OutContinue")
    case True
    with i obtain op where op: "Get X st oid = Inr op"
      by (auto simp: iteration_def split: if_splits sum.splits)
    with iteration_progress [of st X oid op E h L st1 h1] Suc.prems i True
    obtain op1 where op1: "Get X st1 oid = Inr op1" "rank (op_state op) < rank (op_state op1)"
      by auto
    have inv1: "store_inv st1" using prov.run_inv [OF iteration_steps [OF i] Suc.prems(1)] .
    have n: "7 < n + rank (op_state op1)" using Suc.prems(3) [OF op] op1(2) by simp
    then have "0 < n" using rank_bound [of "op_state op1"] by linarith
    with Suc.IH [OF inv1, of h1] n op1(1) Suc.prems(2) i True show ?thesis by simp
  qed (use i in \<open>cases o1; simp\<close>)
qed simp

text \<open>
  C26. The loop of the orchestrator ends: from any well-formed store, with identifiers that
  are fresh, eight iterations are enough whatever the server, the file system and
  Subversion answer.
\<close>

theorem RunCreate_terminates:
  assumes "store_inv st" and "fresh_run 8 X E L st oid h"
  shows "\<exists>out st' h'. RunCreate 8 X E L st oid h = Some (out, st', h')"
  using RunCreate_returns_aux [OF assms] by auto

lemma dispatch_active: "dispatch X E L st oid op h = (OutActive op', st', h') \<Longrightarrow>
   op' = op \<and> st' = st \<and> op_state op = StateActive"
  unfolding dispatch_def Let_def step_request_def step_exchange_def step_publish_def
  by (auto split: if_splits option.splits sum.splits prod.splits)

text \<open>
  A run that reports success reports the stored operation, and that operation is active:
  published and acknowledged by the server.
\<close>

theorem RunCreate_success:
  "RunCreate n X E L st oid h = Some (OutActive op, st', h') \<Longrightarrow>
     Get X st' oid = Inr op \<and> op_state op = StateActive"
proof (induction n arbitrary: st h)
  case (Suc n)
  obtain o1 st1 h1 where i: "iteration X E L st oid h = (o1, st1, h1)" by (cases "iteration X E L st oid h")
  show ?case
  proof (cases "o1 = OutContinue")
    case False
    with Suc.prems i have "iteration X E L st oid h = (OutActive op, st', h')" by (cases o1) auto
    then show ?thesis
      by (auto simp: iteration_def split: if_splits option.splits sum.splits dest!: dispatch_active)
  qed (use Suc i in simp)
qed simp

section \<open>A sample run to the end\<close>

definition sample_orch :: orch_env where
  "sample_orch = \<lparr>oe_svn = sample_env None, oe_cancelled = (\<lambda>_. False),
     oe_uuid = (\<lambda>h. ''u'' @ replicate (length h) CHR ''1''),
     oe_transport = (\<lambda>_ t. Inr (sample_result (payload_type (tk_payload t)) (tk_request_id t) ''c'')),
     oe_hook = None\<rparr>"

definition sample_create :: "orch_result option" where
  "sample_create = RunCreate 8 sample_ext sample_orch sample_limits sample_created ''op'' []"

definition ends_active :: "orch_result option \<Rightarrow> bool" where
  "ends_active r = (case r of Some (OutActive _, _, _) \<Rightarrow> True | _ \<Rightarrow> False)"

lemma ends_active_iff: "ends_active r \<longleftrightarrow> (\<exists>op st h. r = Some (OutActive op, st, h))"
proof (cases r)
  case (Some x)
  obtain a b c where "x = (a, b, c)" by (cases x)
  with Some show ?thesis by (cases a) (simp_all add: ends_active_def)
qed (simp add: ends_active_def)

lemma sample_created_inv: "store_inv sample_created"
proof -
  have "reach (\<lambda>st. st = []) (prov_step sample_ext) []" by (simp add: reach_init)
  from prov.reach_inv [OF reach_step [OF this sample_steps(1)]] show ?thesis .
qed

theorem RunCreate_terminates_witness:
  "fresh_run 8 sample_ext sample_orch sample_limits sample_created ''op'' []
   \<and> (\<exists>out st h. sample_create = Some (out, st, h))"
proof -
  have f: "fresh_run 8 sample_ext sample_orch sample_limits sample_created ''op'' []" by code_simp
  with RunCreate_terminates [OF sample_created_inv f] show ?thesis by (simp add: sample_create_def)
qed

lemma sample_create_active: "ends_active sample_create"
  by code_simp

theorem RunCreate_success_witness:
  "\<exists>op st h. sample_create = Some (OutActive op, st, h) \<and> op_state op = StateActive"
proof -
  obtain op st h where r: "sample_create = Some (OutActive op, st, h)"
    using sample_create_active by (auto simp: ends_active_iff)
  with RunCreate_success [OF r [unfolded sample_create_def]] show ?thesis by blast
qed


end
