(* ===== verification/Passport.thy ===== *)
theory Passport
  imports Go_Lib
begin

text \<open>
  Edit passports (\<open>pkg/passport\<close>): the records, the durable store and the recovery of a
  pending reservation (\<open>pending.go\<close>, \<open>execution_recovery.go\<close>, \<open>release_receipt.go\<close>,
  \<open>acquisition_receipt.go\<close>). The lock backend, the clock, cancellation and the disk are the
  parameter \<open>penv\<close>; every answer may depend on the whole trace of what the manager did
  before. The trace keeps with each event the passports on disk at that moment, so that what
  was durable before a remote mutation can be stated. Presentation callbacks and output
  texts have no effect on the state and are left out.
\<close>

section \<open>Data\<close>

record metadata =
  md_acquisition_id :: string
  md_passport_id :: string
  md_instance_uid :: string
  md_previous_token :: string
  md_realm_id :: string
  md_issued_at :: gotime
  md_expires_at :: gotime
  md_hard_expires_at :: gotime

datatype stage = StPrepare | StLocking | StChecking | StCanceling | StSettling | StOther string

datatype mode = ModeAcquire | ModeMigrate | ModeRenew | ModeOther string

text \<open>The control tickets of a reservation (\<open>pkg/control/v1/passport_*.go\<close>) and their payloads.\<close>

datatype ctl_type = TArmAcquisition | TSettleAcquisition | TExpirePath | TPrepareReplacement | TOtherType string

datatype ctl_payload =
    ExecutionPayload string string string
  | ReplacementPayload string string string string string mode

record ctl_ticket =
  ct_operation_id :: string
  ct_request_id :: string
  ct_type :: ctl_type
  ct_client_id :: string
  ct_created_at :: gotime
  ct_payload :: ctl_payload

record lock_intent =
  li_acquisition :: "ctl_ticket option"
  li_stage :: stage
  li_repo_id :: string
  li_client_id :: string
  li_path :: string
  li_mode :: mode
  li_metadata :: metadata
  li_ticket :: "ctl_ticket option"

datatype pstate = PActive | PLost | PExpired | PPending | PReleasing | POtherState string

record passport =
  pp_path :: string
  pp_passport_id :: string
  pp_instance_uid :: string
  pp_realm_id :: string
  pp_token :: string
  pp_issued_at :: gotime
  pp_heartbeat_at :: gotime
  pp_expires_at :: gotime
  pp_hard_expires_at :: gotime
  pp_close_after :: gotime
  pp_state :: pstate
  pp_pending :: "lock_intent option"

record lock =
  lk_token :: string
  lk_owner :: string
  lk_comment :: string

datatype perr =
    PassportUncertain | PassportRequestConflict | PassportStale | PassportAborted
  | PathOwnerUnavailable
  | HeldByOther string string
  | NoPassport string | PassportLost string
  | BackendErr string | CtxErr string | SaveErr | PErr string
  | AbortedPreparation ctl_ticket
  | Joined perr perr

text \<open>What the server holds for a path in an authenticated observation.\<close>

record ownership_hold =
  oh_token :: string
  oh_realm_id :: string
  oh_owner :: string
  oh_comment :: string

record ownership_view =
  ov_owners :: "(string, string) assoc"
  ov_holds :: "(string, ownership_hold) assoc"
  ov_observed_at :: gotime

section \<open>Trace, environment and state\<close>

datatype pevent =
    EvSaveStore | EvInspectLock string | EvLockForce string string bool | EvUnlockPath string
  | EvNewIntent string | EvPrepareIntent string lock_intent | EvAcquireIntent string lock_intent
  | EvConfirmIntent string | EvReconcileIntent string
  | EvSettleIntent string lock_intent | EvCancelIntent string lock_intent
  | EvReleaseToken string string | EvOwnership | EvChmod string

type_synonym ptrace = "(pevent \<times> passport list) list"

record penv =
  pe_now :: "ptrace \<Rightarrow> nat \<Rightarrow> gotime"
  pe_ctx :: "ptrace \<Rightarrow> nat \<Rightarrow> string option"
  pe_save :: "ptrace \<Rightarrow> save_outcome"
  pe_uuid :: "ptrace \<Rightarrow> string"
  pe_inspect :: "ptrace \<Rightarrow> string \<Rightarrow> (perr, lock option) result"
  pe_lock :: "ptrace \<Rightarrow> string \<Rightarrow> string \<Rightarrow> bool \<Rightarrow> (perr, lock option) result"
  pe_unlock :: "ptrace \<Rightarrow> string \<Rightarrow> perr option"
  pe_durable :: bool
  pe_new_intent :: "ptrace \<Rightarrow> string \<Rightarrow> metadata \<Rightarrow> mode \<Rightarrow> gotime \<Rightarrow> (perr, lock_intent) result"
  pe_validate :: "string \<Rightarrow> lock_intent \<Rightarrow> perr option"
  pe_prepare :: "ptrace \<Rightarrow> string \<Rightarrow> lock_intent \<Rightarrow> perr option"
  pe_aborted :: "perr \<Rightarrow> ctl_ticket \<Rightarrow> bool"
  pe_acquire :: "ptrace \<Rightarrow> string \<Rightarrow> lock_intent \<Rightarrow> (perr, lock option) result"
  pe_confirm :: "ptrace \<Rightarrow> string \<Rightarrow> lock_intent \<Rightarrow> (perr, lock option) result"
  pe_reconcile :: "ptrace \<Rightarrow> string \<Rightarrow> lock_intent \<Rightarrow> (perr, lock option \<times> bool) result"
  pe_cancel :: "ptrace \<Rightarrow> string \<Rightarrow> lock_intent \<Rightarrow> perr option"
  pe_settler :: bool
  pe_settle :: "ptrace \<Rightarrow> string \<Rightarrow> lock_intent \<Rightarrow> perr option"
  pe_receipts :: bool
  pe_release :: "ptrace \<Rightarrow> string \<Rightarrow> string \<Rightarrow> (perr, (string \<times> string) option) result"
  pe_ownership :: "(ptrace \<Rightarrow> (perr, ownership_view) result) option"
  pe_hb_ownership :: "(ptrace \<Rightarrow> (perr, ownership_view) result) option"
  pe_chmod :: "ptrace \<Rightarrow> string \<Rightarrow> perr option"
  pe_format :: "metadata \<Rightarrow> string"
  pe_parse :: "string \<Rightarrow> metadata option"

record pconfig =
  pc_instance_uid :: string
  pc_working_copy :: string
  pc_ttl :: duration
  pc_heartbeat_interval :: duration
  pc_max_session :: duration
  pc_close_grace :: duration

record pmgr =
  pm_passports :: "(string, passport) assoc"
  pm_disk :: "passport list"
  pm_trace :: ptrace

definition emit :: "pevent \<Rightarrow> pmgr \<Rightarrow> pmgr" where
  "emit e s = s\<lparr>pm_trace := pm_trace s @ [(e, pm_disk s)]\<rparr>"

definition put :: "passport \<Rightarrow> pmgr \<Rightarrow> pmgr" where
  "put p s = s\<lparr>pm_passports := AList.update (pp_path p) p (pm_passports s)\<rparr>"

definition forget :: "string \<Rightarrow> pmgr \<Rightarrow> pmgr" where
  "forget path s = s\<lparr>pm_passports := AList.delete path (pm_passports s)\<rparr>"

definition saved_list :: "pmgr \<Rightarrow> passport list" where
  "saved_list s = sort_key pp_path (map snd (pm_passports s))"

definition saveLocked_pp :: "penv \<Rightarrow> pmgr \<Rightarrow> perr option \<times> pmgr" where
  "saveLocked_pp E s =
     (case pe_save E (pm_trace s) of
        SaveOk \<Rightarrow> (None, emit EvSaveStore (s\<lparr>pm_disk := saved_list s\<rparr>))
      | SaveUnsynced \<Rightarrow> (Some SaveErr, emit EvSaveStore (s\<lparr>pm_disk := saved_list s\<rparr>))
      | SaveFail \<Rightarrow> (Some SaveErr, emit EvSaveStore s))"

section \<open>Pending reservations\<close>

definition owns :: "penv \<Rightarrow> passport \<Rightarrow> lock option \<Rightarrow> bool" where
  "owns E p lk =
     (case lk of
        None \<Rightarrow> False
      | Some l \<Rightarrow>
          if lk_token l \<noteq> pp_token p then False
          else (case pe_parse E (lk_comment l) of
              None \<Rightarrow> False
            | Some m \<Rightarrow> md_passport_id m = pp_passport_id p \<and> md_instance_uid m = pp_instance_uid p))"

definition minTime :: "gotime \<Rightarrow> gotime \<Rightarrow> gotime" where
  "minTime a b = (if a < b then a else b)"

definition retirePending :: "penv \<Rightarrow> pmgr \<Rightarrow> passport \<Rightarrow> perr \<Rightarrow> perr \<times> pmgr" where
  "retirePending E s p cause =
     (case saveLocked_pp E (forget (pp_path p) s) of
        (Some e, s') \<Rightarrow> (Joined cause e, put p s')
      | (None, s') \<Rightarrow> (cause, s'))"

definition with_stage :: "stage \<Rightarrow> passport \<Rightarrow> lock_intent \<Rightarrow> passport" where
  "with_stage st p i = p\<lparr>pp_pending := Some (i\<lparr>li_stage := st\<rparr>)\<rparr>"

type_synonym presult = "(perr, passport) result \<times> pmgr"

definition failing :: "perr \<times> pmgr \<Rightarrow> presult" where
  "failing x = (Inl (fst x), snd x)"

definition settlePending :: "penv \<Rightarrow> pmgr \<Rightarrow> passport \<Rightarrow> presult" where
  "settlePending E s p =
     (case pp_pending p of
        None \<Rightarrow> (Inl PassportUncertain, s)
      | Some i \<Rightarrow>
         if \<not> pe_settler E \<or> li_acquisition i = None then (Inl PassportUncertain, s)
         else if li_stage i \<notin> {StLocking, StChecking, StSettling}
           then (Inl (PErr ''invalid acquisition settlement stage''), s)
         else
          (let i' = i\<lparr>li_stage := StSettling\<rparr>; p' = with_stage StSettling p i in
           case saveLocked_pp E (put p' s) of
             (Some e, s1) \<Rightarrow> (Inl e, s1)
           | (None, s1) \<Rightarrow>
              (case pe_settle E (pm_trace s1) (pp_path p) i' of
                 Some e \<Rightarrow> (Inl e, emit (EvSettleIntent (pp_path p) i') s1)
               | None \<Rightarrow> failing (retirePending E (emit (EvSettleIntent (pp_path p) i') s1) p' PassportAborted))))"

definition cancelPending :: "penv \<Rightarrow> pmgr \<Rightarrow> passport \<Rightarrow> presult" where
  "cancelPending E s p =
     (case pp_pending p of
        None \<Rightarrow> (Inl PassportUncertain, s)
      | Some i \<Rightarrow>
         if li_stage i \<notin> {StPrepare, StCanceling} then (Inl PassportUncertain, s)
         else
          (let i' = i\<lparr>li_stage := StCanceling\<rparr>; p' = with_stage StCanceling p i in
           case saveLocked_pp E (put p' s) of
             (Some e, s1) \<Rightarrow> (Inl e, s1)
           | (None, s1) \<Rightarrow>
              (case (if li_acquisition i = None then (None, s1)
                     else if \<not> pe_settler E then (Some (PErr ''acquisition recovery unavailable''), s1)
                     else (pe_settle E (pm_trace s1) (pp_path p) i', emit (EvSettleIntent (pp_path p) i') s1)) of
                 (Some e, s2) \<Rightarrow> (Inl e, s2)
               | (None, s2) \<Rightarrow>
                  (case pe_cancel E (pm_trace s2) (pp_path p) i' of
                     Some e \<Rightarrow> (Inl e, emit (EvCancelIntent (pp_path p) i') s2)
                   | None \<Rightarrow> failing (retirePending E (emit (EvCancelIntent (pp_path p) i') s2) p' PassportAborted)))))"

text \<open>\<open>checkLive\<close>; \<open>k\<close> names the call site, so that each reading of the clock may differ.\<close>

definition checkLive :: "penv \<Rightarrow> pmgr \<Rightarrow> nat \<Rightarrow> lock_intent \<Rightarrow> perr option" where
  "checkLive E s k i =
     (case pe_ctx E (pm_trace s) k of
        Some e \<Rightarrow> Some (CtxErr e)
      | None \<Rightarrow>
         (let now = pe_now E (pm_trace s) k in
          if \<not> now < md_expires_at (li_metadata i) \<or> \<not> now < md_hard_expires_at (li_metadata i)
          then Some PassportUncertain else None))"

definition acquisitionReceiptFresh :: "gotime \<Rightarrow> gotime \<Rightarrow> bool" where
  "acquisitionReceiptFresh started now =
     (started \<noteq> 0 \<and> \<not> now < started \<and> time_sub now started < minute)"

text \<open>
  The last part of \<open>resumePending\<close>: a confirmed lock makes the passport active, durably;
  anything else settles the acquisition or leaves the record pending.
\<close>

definition activate :: "penv \<Rightarrow> pmgr \<Rightarrow> passport \<Rightarrow> lock \<Rightarrow> presult" where
  "activate E s p l =
     (let confirmed = p\<lparr>pp_pending := None, pp_state := PActive, pp_token := lk_token l,
                        pp_heartbeat_at := pe_now E (pm_trace s) 8\<rparr> in
      case saveLocked_pp E (put confirmed s) of
        (Some e, s1) \<Rightarrow> (Inl e, put p s1)
      | (None, s1) \<Rightarrow>
         if pe_ownership E = None then (Inr confirmed, s1)
         else (case pe_chmod E (pm_trace s1) (pp_path p) of
             Some e \<Rightarrow> (Inl e, emit (EvChmod (pp_path p)) s1)
           | None \<Rightarrow> (Inr confirmed, emit (EvChmod (pp_path p)) s1)))"

definition unresolved :: "penv \<Rightarrow> pmgr \<Rightarrow> passport \<Rightarrow> lock_intent \<Rightarrow> perr \<Rightarrow> presult" where
  "unresolved E s p i e = (if li_acquisition i \<noteq> None then settlePending E s p else (Inl e, s))"

definition resolve :: "penv \<Rightarrow> pmgr \<Rightarrow> passport \<Rightarrow> lock_intent \<Rightarrow> (perr, lock option) result \<Rightarrow> presult" where
  "resolve E s p i r =
     (case r of
        Inl e \<Rightarrow> unresolved E s p i e
      | Inr None \<Rightarrow> unresolved E s p i PassportUncertain
      | Inr (Some l) \<Rightarrow>
          if lk_token l = '''' then unresolved E s p i PassportUncertain
          else (case checkLive E s 7 i of
              Some e \<Rightarrow> unresolved E s p i e
            | None \<Rightarrow> activate E s p l))"

definition resume_finish ::
    "penv \<Rightarrow> pmgr \<Rightarrow> passport \<Rightarrow> lock_intent \<Rightarrow> lock option \<Rightarrow> gotime \<Rightarrow> presult" where
  "resume_finish E s p i acq started =
     (if li_stage i = StChecking then
        (case saveLocked_pp E s of
           (Some e, s1) \<Rightarrow> (Inl e, s1)
         | (None, s1) \<Rightarrow>
            if acq \<noteq> None \<and> acquisitionReceiptFresh started (pe_now E (pm_trace s1) 6)
               \<and> pe_ctx E (pm_trace s1) 6 = None
            then resolve E s1 p i (Inr acq)
            else (let s2 = emit (EvReconcileIntent (pp_path p)) s1 in
                  case pe_reconcile E (pm_trace s1) (pp_path p) i of
                    Inl e \<Rightarrow> resolve E s2 p i (Inl e)
                  | Inr (l, gone) \<Rightarrow>
                     if gone then failing (retirePending E s2 p PassportStale)
                     else resolve E s2 p i (Inr l)))
      else resolve E (emit (EvConfirmIntent (pp_path p)) s) p i
             (pe_confirm E (pm_trace s) (pp_path p) i))"

text \<open>The \<open>prepare\<close> stage: durable before the control request, and again before the lock.\<close>

definition resume_prepare :: "penv \<Rightarrow> pmgr \<Rightarrow> passport \<Rightarrow> lock_intent \<Rightarrow> presult" where
  "resume_prepare E s p i =
     (case saveLocked_pp E s of
        (Some e, s1) \<Rightarrow> (Inl e, s1)
      | (None, s1) \<Rightarrow>
         (let s2 = emit (EvPrepareIntent (pp_path p) i) s1 in
          case pe_prepare E (pm_trace s1) (pp_path p) i of
            Some e \<Rightarrow>
              if (case li_ticket i of None \<Rightarrow> False | Some t \<Rightarrow> pe_aborted E e t)
              then failing (retirePending E s2 p e) else (Inl e, s2)
          | None \<Rightarrow>
             (case pe_ctx E (pm_trace s2) 3 of
                Some e \<Rightarrow> (Inl (CtxErr e), s2)
              | None \<Rightarrow>
                 (case checkLive E s2 4 i of
                    Some _ \<Rightarrow> cancelPending E s2 p
                  | None \<Rightarrow>
                     (let i1 = i\<lparr>li_stage := StLocking\<rparr>; p1 = with_stage StLocking p i in
                      case saveLocked_pp E (put p1 s2) of
                        (Some e, s3) \<Rightarrow> (Inl e, s3)
                      | (None, s3) \<Rightarrow>
                         (case checkLive E s3 5 i1 of
                            Some e \<Rightarrow> (Inl e, s3)
                          | None \<Rightarrow>
                             (let s4 = emit (EvAcquireIntent (pp_path p) i1) s3 in
                              case pe_acquire E (pm_trace s3) (pp_path p) i1 of
                                Inl e \<Rightarrow> (Inl e, s4)
                              | Inr acq \<Rightarrow>
                                 (let i2 = i1\<lparr>li_stage := StChecking\<rparr>; p2 = with_stage StChecking p1 i1 in
                                  resume_finish E (put p2 s4) p2 i2 acq (pe_now E (pm_trace s3) 9)))))))))"

definition resumePending :: "penv \<Rightarrow> pmgr \<Rightarrow> passport \<Rightarrow> presult" where
  "resumePending E s p =
     (case pp_pending p of
        None \<Rightarrow> (Inl (PErr ''passport pending backend unavailable''), s)
      | Some i \<Rightarrow>
         if \<not> pe_durable E then (Inl (PErr ''passport pending backend unavailable''), s)
         else (case pe_validate E (pp_path p) i of
             Some e \<Rightarrow> (Inl e, s)
           | None \<Rightarrow>
              (case pe_ctx E (pm_trace s) 1 of
                 Some e \<Rightarrow> (Inl (CtxErr e), s)
               | None \<Rightarrow>
                  if li_stage i = StSettling then settlePending E s p
                  else
                   (let now = pe_now E (pm_trace s) 1 in
                    if li_stage i = StCanceling \<or> (li_stage i = StPrepare \<and>
                         (\<not> now < md_expires_at (li_metadata i) \<or> \<not> now < md_hard_expires_at (li_metadata i)))
                    then cancelPending E s p
                    else (case (if li_stage i \<noteq> StChecking \<and> \<not> (li_stage i = StLocking \<and> li_acquisition i \<noteq> None)
                                then checkLive E s 2 i else None) of
                        Some e \<Rightarrow> (Inl e, s)
                      | None \<Rightarrow>
                          if li_stage i = StPrepare then resume_prepare E s p i
                          else resume_finish E s p i None 0)))))"

definition beginPending ::
    "penv \<Rightarrow> pmgr \<Rightarrow> string \<Rightarrow> metadata \<Rightarrow> mode \<Rightarrow> gotime \<Rightarrow> presult" where
  "beginPending E s path meta md close =
     (case pe_new_intent E (pm_trace s) path meta md (pe_now E (pm_trace s) 0) of
        Inl e \<Rightarrow> (Inl e, emit (EvNewIntent path) s)
      | Inr i \<Rightarrow>
         (let m = li_metadata i;
              p = \<lparr>pp_path = path, pp_passport_id = md_passport_id m, pp_instance_uid = md_instance_uid m,
                   pp_realm_id = md_realm_id m, pp_token = '''', pp_issued_at = md_issued_at m,
                   pp_heartbeat_at = 0, pp_expires_at = md_expires_at m,
                   pp_hard_expires_at = md_hard_expires_at m, pp_close_after = close,
                   pp_state = PPending, pp_pending = Some i\<rparr> in
          resumePending E (put p (emit (EvNewIntent path) s)) p))"

section \<open>Release with a receipt\<close>

text \<open>The result is the error, if any. A receipt is its token and state.\<close>

definition release_finish :: "penv \<Rightarrow> passport \<Rightarrow> pmgr \<Rightarrow> perr option \<times> pmgr" where
  "release_finish E p t =
     (case pe_ctx E (pm_trace t) 12 of
        Some e \<Rightarrow> (Some (CtxErr e), t)
      | None \<Rightarrow>
         (case saveLocked_pp E (forget (pp_path p) t) of
            (Some e, t') \<Rightarrow> (Some e, put p t')
          | (None, t') \<Rightarrow> (None, t')))"

text \<open>Without a receipt the release falls back to the live check and an unlock.\<close>

definition release_live :: "penv \<Rightarrow> passport \<Rightarrow> pmgr \<Rightarrow> perr option \<times> pmgr" where
  "release_live E p t =
     (let t1 = emit (EvInspectLock (pp_path p)) t in
      case pe_inspect E (pm_trace t) (pp_path p) of
        Inl e \<Rightarrow> (Some e, t1)
      | Inr current \<Rightarrow>
         if \<not> owns E p current then
           (case saveLocked_pp E (put (p\<lparr>pp_state := PLost\<rparr>) t1) of
              (None, t2) \<Rightarrow> (Some (PassportLost ''''), t2)
            | (Some e, t2) \<Rightarrow> (Some (Joined (PassportLost '''') e), t2))
         else
           (let t2 = emit (EvUnlockPath (pp_path p)) t1 in
            case pe_unlock E (pm_trace t1) (pp_path p) of
              Some e \<Rightarrow> (Some e, t2)
            | None \<Rightarrow> release_finish E p t2))"

definition releasing :: "passport \<Rightarrow> passport" where
  "releasing p =
     (if pp_state p \<noteq> PReleasing then p\<lparr>pp_state := PReleasing, pp_close_after := 0\<rparr> else p)"

definition releaseWithReceipt :: "penv \<Rightarrow> pmgr \<Rightarrow> passport \<Rightarrow> perr option \<times> pmgr" where
  "releaseWithReceipt E s p0 =
     (let p = releasing p0;
          s0 = (if pp_state p0 \<noteq> PReleasing then put p s else s) in
      case saveLocked_pp E s0 of
        (Some e, s1) \<Rightarrow> (Some e, s1)
      | (None, s1) \<Rightarrow>
         (let s2 = emit (EvReleaseToken (pp_path p) (pp_token p)) s1 in
          case pe_release E (pm_trace s1) (pp_path p) (pp_token p) of
            Inl e \<Rightarrow> (Some e, s2)
          | Inr receipt \<Rightarrow>
             (case pe_ctx E (pm_trace s2) 11 of
                Some e \<Rightarrow> (Some (CtxErr e), s2)
              | None \<Rightarrow>
                 (case receipt of
                    None \<Rightarrow> release_live E p s2
                  | Some (tok, st) \<Rightarrow>
                      if tok \<noteq> pp_token p \<or> (st \<noteq> ''released'' \<and> st \<noteq> ''not-held'')
                      then (Some (PErr ''passport release receipt mismatch''), s2)
                      else release_finish E p s2))))"

end
