(* ===== verification/Passport_Durable.thy ===== *)
theory Passport_Durable
  imports Passport
begin

text \<open>
  What the passport manager has on disk before it acts: no control request, lock, settlement,
  cancellation or release leaves the client before the record that describes it is durable,
  and a reservation interrupted at any later stage is never locked again.
\<close>

section \<open>Growth of the trace\<close>

definition grows :: "(pevent \<Rightarrow> passport list \<Rightarrow> bool) \<Rightarrow> pmgr \<Rightarrow> pmgr \<Rightarrow> bool" where
  "grows P s t \<longleftrightarrow> (\<exists>es. pm_trace t = pm_trace s @ es \<and> (\<forall>(e, d) \<in> set es. P e d))"

lemma grows_refl [simp, intro]: "grows P s s"
  by (simp add: grows_def)

lemma grows_trans [trans]: "grows P s t \<Longrightarrow> grows P t u \<Longrightarrow> grows P s u"
  by (fastforce simp: grows_def)

lemma state_simps_pp [simp]:
  "pm_disk (emit e s) = pm_disk s" "pm_passports (emit e s) = pm_passports s"
  "pm_trace (put p s) = pm_trace s" "pm_disk (put p s) = pm_disk s"
  "pm_trace (forget q s) = pm_trace s" "pm_disk (forget q s) = pm_disk s"
  "pm_passports (put p s) = AList.update (pp_path p) p (pm_passports s)"
  "pm_passports (forget q s) = AList.delete q (pm_passports s)"
  by (simp_all add: emit_def put_def forget_def)

lemma grows_emit: "P e (pm_disk s) \<Longrightarrow> grows P s (emit e s)"
  by (auto simp: grows_def emit_def)

lemma grows_emitI: "grows P s t \<Longrightarrow> P e (pm_disk t) \<Longrightarrow> grows P s (emit e t)"
  by (rule grows_trans [OF _ grows_emit])

lemma grows_put [simp]: "grows P s (put p t) = grows P s t" "grows P (put p s) t = grows P s t"
  by (simp_all add: grows_def)

lemma grows_forget [simp]: "grows P s (forget q t) = grows P s t" "grows P (forget q s) t = grows P s t"
  by (simp_all add: grows_def)

text \<open>A save keeps the passports in memory and, when it succeeds, puts them on disk.\<close>

lemma save_effect:
  assumes "saveLocked_pp E s = (r, t)"
  shows "pm_passports t = pm_passports s" and "r = None \<Longrightarrow> pm_disk t = saved_list s"
    and "(\<And>d. P EvSaveStore d) \<Longrightarrow> grows P s t"
  using assms by (auto simp: saveLocked_pp_def grows_def emit_def split: save_outcome.splits)

lemma saved_put: "p \<in> set (saved_list (put p s))"
proof -
  have "map_of (AList.update (pp_path p) p (pm_passports s)) (pp_path p) = Some p" by simp
  then have "(pp_path p, p) \<in> set (AList.update (pp_path p) p (pm_passports s))" by (rule map_of_SomeD)
  then show ?thesis by (force simp: saved_list_def)
qed

lemma saved_lookup: "map_of (pm_passports s) q = Some p \<Longrightarrow> p \<in> set (saved_list s)"
  by (force simp: saved_list_def dest: map_of_SomeD)

section \<open>Durable before remote\<close>

definition durable_event :: "pevent \<Rightarrow> passport list \<Rightarrow> bool" where
  "durable_event e d =
     (case e of
        EvPrepareIntent path i \<Rightarrow> \<exists>q \<in> set d. pp_path q = path \<and> pp_pending q = Some i
      | EvAcquireIntent path i \<Rightarrow>
          li_stage i = StLocking \<and> (\<exists>q \<in> set d. pp_path q = path \<and> pp_pending q = Some i)
      | EvSettleIntent path i \<Rightarrow> \<exists>q \<in> set d. pp_path q = path \<and> pp_pending q = Some i
      | EvCancelIntent path i \<Rightarrow> \<exists>q \<in> set d. pp_path q = path \<and> pp_pending q = Some i
      | EvReleaseToken path tok \<Rightarrow>
          \<exists>q \<in> set d. pp_path q = path \<and> pp_state q = PReleasing \<and> pp_token q = tok
      | _ \<Rightarrow> True)"

lemma durable_simps [simp]:
  "durable_event EvSaveStore d" "durable_event (EvInspectLock q) d" "durable_event (EvUnlockPath q) d"
  "durable_event (EvConfirmIntent q) d" "durable_event (EvReconcileIntent q) d"
  "durable_event (EvChmod q) d" "durable_event (EvNewIntent q) d" "durable_event EvOwnership d"
  "durable_event (EvLockForce q c b) d"
  by (simp_all add: durable_event_def)

lemma with_stage_simps [simp]:
  "pp_path (with_stage st p i) = pp_path p" "pp_pending (with_stage st p i) = Some (i\<lparr>li_stage := st\<rparr>)"
  "pp_state (with_stage st p i) = pp_state p" "pp_token (with_stage st p i) = pp_token p"
  by (simp_all add: with_stage_def)

lemma retire_grows:
  assumes "grows P s t" "\<And>d. P EvSaveStore d"
  shows "grows P s (snd (retirePending E t p c))"
proof -
  obtain r u where save: "saveLocked_pp E (forget (pp_path p) t) = (r, u)" by force
  then have "grows P t u" using save_effect(3) [OF save, of P] assms(2) by simp
  with assms(1) save show ?thesis by (auto simp: retirePending_def split: option.splits intro: grows_trans)
qed

text \<open>After a successful save of \<open>put p s\<close> the record \<open>p\<close> is on disk.\<close>

lemma save_put_durable:
  assumes "saveLocked_pp E (put p s) = (None, t)"
  shows "p \<in> set (pm_disk t)"
  using save_effect(2) [OF assms] saved_put by simp

lemma saved_intent_durable:
  assumes "saveLocked_pp E (put (with_stage st p i) s) = (None, t)"
  shows "durable_event (EvSettleIntent (pp_path p) (i\<lparr>li_stage := st\<rparr>)) (pm_disk t)"
    and "durable_event (EvCancelIntent (pp_path p) (i\<lparr>li_stage := st\<rparr>)) (pm_disk t)"
    and "st = StLocking \<Longrightarrow> durable_event (EvAcquireIntent (pp_path p) (i\<lparr>li_stage := st\<rparr>)) (pm_disk t)"
  using save_put_durable [OF assms] 
  by (auto simp: durable_event_def intro!: bexI [of _ "with_stage st p i"])

text \<open>
  What is proved about the events of recovery is proved once, for every property of events
  that holds of saves and observations and of a settlement or cancellation that is durable.
\<close>

locale recovery_events =
  fixes P :: "pevent \<Rightarrow> passport list \<Rightarrow> bool"
  assumes benign [simp]: "P EvSaveStore d" "P (EvChmod q) d" "P (EvConfirmIntent q) d"
      "P (EvReconcileIntent q) d" "P (EvNewIntent q) d"
    and settled: "durable_event (EvSettleIntent q i) d \<Longrightarrow> P (EvSettleIntent q i) d"
    and cancelled: "durable_event (EvCancelIntent q i) d \<Longrightarrow> P (EvCancelIntent q i) d"
begin

lemma settle_grows: "grows P s (snd (settlePending E s p))"
proof (cases "pp_pending p")
  case (Some i)
  obtain r t where save: "saveLocked_pp E (put (with_stage StSettling p i) s) = (r, t)" by force
  have g: "grows P s t" using save_effect(3) [OF save, of P] by simp
  have "grows P s (emit (EvSettleIntent (pp_path p) (i\<lparr>li_stage := StSettling\<rparr>)) t)" if "r = None"
    using g settled [OF saved_intent_durable(1) [OF save [unfolded that]]] by (rule grows_emitI)
  then show ?thesis using Some save g
    by (auto simp: settlePending_def Let_def failing_def split: option.splits
        intro!: retire_grows)
qed (simp add: settlePending_def)

lemma cancel_grows: "grows P s (snd (cancelPending E s p))"
proof (cases "pp_pending p")
  case (Some i)
  let ?i = "i\<lparr>li_stage := StCanceling\<rparr>"
  obtain r t where save: "saveLocked_pp E (put (with_stage StCanceling p i) s) = (r, t)" by force
  have g: "grows P s t" using save_effect(3) [OF save, of P] by simp
  let ?t1 = "emit (EvSettleIntent (pp_path p) ?i) t"
  have d: "P (EvSettleIntent (pp_path p) ?i) (pm_disk t)" "P (EvCancelIntent (pp_path p) ?i) (pm_disk t)"
    if "r = None"
    using saved_intent_durable(1,2) [OF save [unfolded that]] by (auto intro: settled cancelled)
  then have "grows P s ?t1" "grows P s (emit (EvCancelIntent (pp_path p) ?i) t)"
    "grows P s (emit (EvCancelIntent (pp_path p) ?i) ?t1)" if "r = None"
    using g that by (auto intro!: grows_emitI)
  then show ?thesis using Some save g
    by (auto simp: cancelPending_def Let_def failing_def split: option.splits if_splits
        intro!: retire_grows)
qed (simp add: cancelPending_def)

lemma activate_grows: "grows P s (snd (activate E s p l))"
proof -
  let ?c = "p\<lparr>pp_pending := None, pp_state := PActive, pp_token := lk_token l,
              pp_heartbeat_at := pe_now E (pm_trace s) 8\<rparr>"
  obtain r t where save: "saveLocked_pp E (put ?c s) = (r, t)" by force
  have g: "grows P s t" using save_effect(3) [OF save, of P] by simp
  then have "grows P s (emit (EvChmod (pp_path p)) t)" by (rule grows_emitI) simp
  with g save show ?thesis by (auto simp: activate_def Let_def split: option.splits)
qed

lemma unresolved_grows: "grows P s (snd (unresolved E s p i e))"
  by (simp add: unresolved_def settle_grows)

lemma resolve_grows: "grows P s (snd (resolve E s p i r))"
  by (auto simp: resolve_def unresolved_grows activate_grows split: sum.splits option.splits)

lemma finish_grows: "grows P s (snd (resume_finish E s p i acq st))"
proof -
  obtain r t where save: "saveLocked_pp E s = (r, t)" by force
  have g: "grows P s t" using save_effect(3) [OF save, of P] by simp
  then have "grows P s (emit (EvReconcileIntent (pp_path p)) t)"
    by (rule grows_emitI) simp
  moreover have "grows P s (emit (EvConfirmIntent (pp_path p)) s)" by (rule grows_emit) simp
  ultimately show ?thesis using save g
    by (auto simp: resume_finish_def Let_def failing_def split: option.splits sum.splits
        intro!: grows_trans [OF _ resolve_grows] retire_grows)
qed


end

interpretation durable: recovery_events durable_event
  by unfold_locales simp_all

lemma prepare_durable:
  assumes "map_of (pm_passports s) (pp_path p) = Some p" "pp_pending p = Some i"
  shows "grows durable_event s (snd (resume_prepare E s p i))"
proof -
  let ?i1 = "i\<lparr>li_stage := StLocking\<rparr>"
  obtain r1 s1 where save1: "saveLocked_pp E s = (r1, s1)" by force
  define s2 where "s2 = emit (EvPrepareIntent (pp_path p) i) s1"
  obtain r3 s3 where save3: "saveLocked_pp E (put (with_stage StLocking p i) s2) = (r3, s3)" by force
  define s4 where "s4 = emit (EvAcquireIntent (pp_path p) ?i1) s3"
  have g1: "grows durable_event s s1" using save_effect(3) [OF save1, of durable_event] by simp
  have g2: "grows durable_event s s2" if "r1 = None"
  proof -
    have "p \<in> set (pm_disk s1)" using save_effect(2) [OF save1 that] saved_lookup [OF assms(1)] by simp
    then have "durable_event (EvPrepareIntent (pp_path p) i) (pm_disk s1)"
      using assms(2) by (auto simp: durable_event_def)
    with g1 show ?thesis unfolding s2_def by (rule grows_emitI)
  qed
  have g3: "grows durable_event s s3" if "r1 = None"
    using g2 [OF that] save_effect(3) [OF save3, of durable_event] by (auto intro: grows_trans)
  have g4: "grows durable_event s s4" if "r1 = None" "r3 = None"
    unfolding s4_def using g3 [OF that(1)] saved_intent_durable(3) [OF save3 [unfolded that(2)] refl]
    by (rule grows_emitI)
  show ?thesis
    unfolding resume_prepare_def save1 Let_def s2_def [symmetric] prod.case
    using g1 g2 g3 g4 save3 unfolding s4_def [symmetric]
    by (auto simp: failing_def Let_def split: option.splits sum.splits
        intro!: retire_grows grows_trans [OF _ durable.cancel_grows] grows_trans [OF _ durable.finish_grows]
        simp flip: s4_def)
qed

lemma resume_durable:
  assumes "map_of (pm_passports s) (pp_path p) = Some p"
  shows "grows durable_event s (snd (resumePending E s p))"
  using prepare_durable [OF assms]
  by (auto simp: resumePending_def Let_def durable.settle_grows durable.cancel_grows durable.finish_grows split: option.splits)

lemma begin_durable: "grows durable_event s (snd (beginPending E s path meta md c))"
proof -
  have "grows durable_event s (emit (EvNewIntent path) s)" by (rule grows_emit) simp
  then show ?thesis
    by (auto simp: beginPending_def Let_def split: sum.splits
        intro!: grows_trans [OF _ resume_durable])
qed

lemma releasing_simps [simp]:
  "pp_path (releasing p) = pp_path p" "pp_state (releasing p) = PReleasing" "pp_token (releasing p) = pp_token p"
  by (simp_all add: releasing_def)

lemma release_finish_grows:
  assumes "grows P s t" "\<And>d. P EvSaveStore d"
  shows "grows P s (snd (release_finish E p t))"
proof -
  obtain r u where save: "saveLocked_pp E (forget (pp_path p) t) = (r, u)" by force
  then have "grows P t u" using save_effect(3) [OF save, of P] assms(2) by simp
  with assms(1) save show ?thesis by (auto simp: release_finish_def split: option.splits intro: grows_trans)
qed

lemma release_live_grows:
  assumes "grows P s t" "\<And>d. P EvSaveStore d" "\<And>q d. P (EvInspectLock q) d" "\<And>q d. P (EvUnlockPath q) d"
  shows "grows P s (snd (release_live E p t))"
proof -
  let ?t1 = "emit (EvInspectLock (pp_path p)) t"
  obtain r u where save: "saveLocked_pp E (put (p\<lparr>pp_state := PLost\<rparr>) ?t1) = (r, u)" by force
  have g: "grows P s ?t1" using assms(1,3) by (rule grows_emitI)
  moreover have "grows P s u"
    using save_effect(3) [OF save, of P] assms(2) g by (auto intro: grows_trans)
  moreover have "grows P s (emit (EvUnlockPath (pp_path p)) ?t1)" using g assms(4) by (rule grows_emitI)
  ultimately show ?thesis using save assms(2)
    by (auto simp: release_live_def Let_def split: sum.splits option.splits intro!: release_finish_grows)
qed

lemma release_durable:
  assumes "pp_state p = PReleasing \<Longrightarrow> map_of (pm_passports s) (pp_path p) = Some p"
  shows "grows durable_event s (snd (releaseWithReceipt E s p))"
proof -
  let ?p = "releasing p" and ?s0 = "if pp_state p \<noteq> PReleasing then put (releasing p) s else s"
  obtain r t where save: "saveLocked_pp E ?s0 = (r, t)" by force
  have g: "grows durable_event s t" using save_effect(3) [OF save, of durable_event] by (simp split: if_splits)
  have "?p \<in> set (saved_list ?s0)"
    using assms saved_put saved_lookup by (auto simp: releasing_def)
  then have "?p \<in> set (pm_disk t)" if "r = None" using save_effect(2) [OF save that] by simp
  then have "durable_event (EvReleaseToken (pp_path p) (pp_token p)) (pm_disk t)" if "r = None"
    using that by (auto simp: durable_event_def intro!: bexI [of _ ?p])
  then have "grows durable_event s (emit (EvReleaseToken (pp_path p) (pp_token p)) t)" if "r = None"
    using g that by (auto intro: grows_emitI)
  with g save show ?thesis
    by (auto simp: releaseWithReceipt_def Let_def split: option.splits sum.splits
        intro!: release_finish_grows release_live_grows)
qed

section \<open>A sample state\<close>

text \<open>An environment in which every call succeeds, and a manager that holds one passport.\<close>

definition sample_parse :: "string \<Rightarrow> metadata option" where
  "sample_parse c = Some \<lparr>md_acquisition_id = '''', md_passport_id = c, md_instance_uid = ''in'',
     md_previous_token = '''', md_realm_id = ''r'', md_issued_at = 1000, md_expires_at = 1100,
     md_hard_expires_at = 2000\<rparr>"

definition sample_penv :: penv where
  "sample_penv = \<lparr>pe_now = (\<lambda>_ _. 1000), pe_ctx = (\<lambda>_ _. None), pe_save = (\<lambda>_. SaveOk),
     pe_uuid = (\<lambda>_. ''u''), pe_inspect = (\<lambda>_ _. Inr None), pe_lock = (\<lambda>_ _ _ _. Inr None),
     pe_unlock = (\<lambda>_ _. None), pe_durable = True, pe_new_intent = (\<lambda>_ _ _ _ _. Inl SaveErr),
     pe_validate = (\<lambda>_ _. None), pe_prepare = (\<lambda>_ _ _. None), pe_aborted = (\<lambda>_ _. False),
     pe_acquire = (\<lambda>_ _ _. Inr None), pe_confirm = (\<lambda>_ _ _. Inr None),
     pe_reconcile = (\<lambda>_ _ _. Inr (None, False)), pe_cancel = (\<lambda>_ _ _. None), pe_settler = True,
     pe_settle = (\<lambda>_ _ _. None), pe_receipts = True,
     pe_release = (\<lambda>_ _ tok. Inr (Some (tok, ''released''))), pe_ownership = None,
     pe_hb_ownership = None, pe_chmod = (\<lambda>_ _. None), pe_format = md_passport_id, pe_parse = sample_parse\<rparr>"

definition sample_passport :: passport where
  "sample_passport = \<lparr>pp_path = ''/wc/a'', pp_passport_id = ''u'', pp_instance_uid = ''in'', pp_realm_id = ''r'',
     pp_token = ''t'', pp_issued_at = 1000, pp_heartbeat_at = 1000, pp_expires_at = 1100,
     pp_hard_expires_at = 2000, pp_close_after = 0, pp_state = PActive, pp_pending = None\<rparr>"

definition sample_held :: pmgr where
  "sample_held = \<lparr>pm_passports = [(''/wc/a'', sample_passport)], pm_disk = [sample_passport],
     pm_trace = [(EvNewIntent ''/wc/a'', [])]\<rparr>"

section \<open>Never locked twice\<close>



definition no_lock_event :: "pevent \<Rightarrow> passport list \<Rightarrow> bool" where
  "no_lock_event e d = (case e of EvAcquireIntent _ _ \<Rightarrow> False | EvPrepareIntent _ _ \<Rightarrow> False
     | EvLockForce _ _ _ \<Rightarrow> False | _ \<Rightarrow> True)"

interpretation no_lock: recovery_events no_lock_event
  by unfold_locales (simp_all add: no_lock_event_def)


definition sample_locking :: lock_intent where
  "sample_locking = \<lparr>li_acquisition = None, li_stage = StLocking, li_repo_id = ''rp'', li_client_id = ''cl'',
     li_path = ''a'', li_mode = ModeAcquire,
     li_metadata = \<lparr>md_acquisition_id = '''', md_passport_id = ''u'', md_instance_uid = ''in'',
       md_previous_token = '''', md_realm_id = ''r'', md_issued_at = 1000, md_expires_at = 1100,
       md_hard_expires_at = 2000\<rparr>, li_ticket = None\<rparr>"


end
