(* ===== verification/Passport_Manager.thy ===== *)
theory Passport_Manager
  imports Passport_Durable
begin

text \<open>
  The operations of the passport manager (\<open>pkg/passport/manager.go\<close>, \<open>ownership.go\<close>,
  \<open>heartbeat_observation.go\<close>): acquiring, releasing, renewing, the check before a
  publication, and opening the store again after a restart.
\<close>

section \<open>Paths\<close>

definition cleanPaths :: "string list \<Rightarrow> string list" where
  "cleanPaths paths = sort (remdups (filter (\<lambda>p. p \<noteq> ''.'') (map (\<lambda>p. go_clean (trim_space p)) paths)))"

fun strip_common :: "'a list \<Rightarrow> 'a list \<Rightarrow> 'a list \<times> 'a list" where
  "strip_common (x # xs) (y # ys) = (if x = y then strip_common xs ys else (x # xs, y # ys))"
| "strip_common xs ys = (xs, ys)"

text \<open>
  \<open>filepath.Rel\<close>: the path from one cleaned path to another, or \<open>None\<close> for its error.
\<close>

definition go_rel :: "string \<Rightarrow> string \<Rightarrow> string option" where
  "go_rel base targ =
     (let b = go_clean base; t = go_clean targ; segs = (\<lambda>s. filter (\<lambda>x. x \<noteq> []) (split_on CHR ''/'' s)) in
      if b = t then Some ''.''
      else if is_abs b \<noteq> is_abs t then None
      else (case strip_common (if b = ''.'' then [] else segs b) (segs t) of
          (bs, ts) \<Rightarrow>
            if bs \<noteq> [] \<and> hd bs = ''..'' then None
            else Some (join ''/'' (replicate (length bs) ''..'' @ ts))))"

section \<open>Acquire\<close>

datatype acq_out = AcqOk passport bool | AcqFail perr bool

text \<open>
  \<open>AcqOk p new\<close> returns the passport and whether a legacy lock was taken for it; \<open>AcqFail e rb\<close>
  fails with \<open>e\<close>, rolling back the legacy locks of this call when \<open>rb\<close>.
\<close>

definition new_metadata ::
    "penv \<Rightarrow> pconfig \<Rightarrow> pmgr \<Rightarrow> gotime \<Rightarrow> string \<Rightarrow> lock option \<Rightarrow> metadata" where
  "new_metadata E C s now realm info =
     (let hard = now + pc_max_session C in
      \<lparr>md_acquisition_id = '''', md_passport_id = pe_uuid E (pm_trace s),
       md_instance_uid = pc_instance_uid C,
       md_previous_token = (case info of None \<Rightarrow> '''' | Some l \<Rightarrow> lk_token l), md_realm_id = realm,
       md_issued_at = now, md_expires_at = minTime (now + pc_ttl C) hard, md_hard_expires_at = hard\<rparr>)"

definition acquire_new ::
    "penv \<Rightarrow> pconfig \<Rightarrow> pmgr \<Rightarrow> gotime \<Rightarrow> string \<Rightarrow> string \<Rightarrow> lock option \<Rightarrow> acq_out \<times> pmgr" where
  "acquire_new E C s now realm path info =
     (let meta = new_metadata E C s now realm info in
      if pe_durable E then
        (case beginPending E s path meta (if info = None then ModeAcquire else ModeMigrate) 0 of
           (Inl e, s') \<Rightarrow> (AcqFail e False, s')
         | (Inr p, s') \<Rightarrow> (AcqOk p False, s'))
      else
        (let s1 = emit (EvLockForce path (pe_format E meta) (info \<noteq> None)) s in
         case pe_lock E (pm_trace s) path (pe_format E meta) (info \<noteq> None) of
           Inl e \<Rightarrow> (AcqFail e True, s1)
         | Inr None \<Rightarrow> (AcqFail (PErr ''passport: backend returned no fencing token'') True, s1)
         | Inr (Some l) \<Rightarrow>
            if lk_token l = '''' then (AcqFail (PErr ''passport: backend returned no fencing token'') True, s1)
            else (let p = \<lparr>pp_path = path, pp_passport_id = md_passport_id meta,
                           pp_instance_uid = md_instance_uid meta, pp_realm_id = realm,
                           pp_token = lk_token l, pp_issued_at = now, pp_heartbeat_at = now,
                           pp_expires_at = md_expires_at meta, pp_hard_expires_at = md_hard_expires_at meta,
                           pp_close_after = 0, pp_state = PActive, pp_pending = None\<rparr> in
                  (AcqOk p True, put p s1))))"

text \<open>Whether a live lock belongs to the same realm, decided by the authenticated observation.\<close>

definition same_realm ::
    "penv \<Rightarrow> pconfig \<Rightarrow> pmgr \<Rightarrow> string \<Rightarrow> string \<Rightarrow> lock \<Rightarrow> metadata \<Rightarrow> (perr, bool) result \<times> pmgr" where
  "same_realm E C s realm path info meta =
     (case pe_ownership E of
        None \<Rightarrow> (Inr (realm \<noteq> '''' \<and> md_realm_id meta = realm), s)
      | Some f \<Rightarrow>
         if realm = '''' then (Inr (realm \<noteq> '''' \<and> md_realm_id meta = realm), s)
         else (let s1 = emit EvOwnership s in
               case f (pm_trace s) of
                 Inl e \<Rightarrow> (Inl e, s1)
               | Inr view \<Rightarrow>
                  (case go_rel (pc_working_copy C) path of
                     None \<Rightarrow> (Inl (PErr ''rel''), s1)
                   | Some rel \<Rightarrow>
                      (Inr (map_of (ov_owners view) rel = Some realm
                            \<and> (case map_of (ov_holds view) rel of
                                 None \<Rightarrow> False
                               | Some hold \<Rightarrow> oh_realm_id hold = realm \<and> oh_token hold = lk_token info)), s1))))"

text \<open>A lock this manager does not hold itself: refuse it, or take it over.\<close>

definition acquire_foreign ::
    "penv \<Rightarrow> pconfig \<Rightarrow> pmgr \<Rightarrow> gotime \<Rightarrow> string \<Rightarrow> string \<Rightarrow> lock \<Rightarrow> metadata \<Rightarrow> acq_out \<times> pmgr" where
  "acquire_foreign E C s now realm path info meta =
     (case same_realm E C s realm path info meta of
        (Inl e, s1) \<Rightarrow> (AcqFail e True, s1)
      | (Inr same, s1) \<Rightarrow>
         if \<not> same \<and> (pe_ownership E \<noteq> None \<or> now < md_expires_at meta)
         then (AcqFail (HeldByOther path (lk_owner info)) True, s1)
         else acquire_new E C s1 now realm path (Some info))"

definition acquire_held ::
    "penv \<Rightarrow> pconfig \<Rightarrow> pmgr \<Rightarrow> gotime \<Rightarrow> string \<Rightarrow> string \<Rightarrow> lock \<Rightarrow> acq_out \<times> pmgr" where
  "acquire_held E C s now realm path info =
     (case pe_parse E (lk_comment info) of
        None \<Rightarrow> (AcqFail (HeldByOther path (lk_owner info)) True, s)
      | Some meta \<Rightarrow>
         (case map_of (pm_passports s) path of
            Some local \<Rightarrow>
              if pp_state local = PActive \<and> pp_passport_id local = md_passport_id meta
                 \<and> pp_token local = lk_token info \<and> now < md_expires_at meta \<and> now < md_hard_expires_at meta
              then (AcqOk local False, s)
              else acquire_foreign E C s now realm path info meta
          | None \<Rightarrow> acquire_foreign E C s now realm path info meta))"

definition acquire_inspect ::
    "penv \<Rightarrow> pconfig \<Rightarrow> pmgr \<Rightarrow> gotime \<Rightarrow> string \<Rightarrow> string \<Rightarrow> acq_out \<times> pmgr" where
  "acquire_inspect E C s now realm path =
     (let s1 = emit (EvInspectLock path) s in
      case pe_inspect E (pm_trace s) path of
        Inl e \<Rightarrow> (AcqFail e True, s1)
      | Inr None \<Rightarrow> acquire_new E C s1 now realm path None
      | Inr (Some info) \<Rightarrow> acquire_held E C s1 now realm path info)"

definition acquire_one ::
    "penv \<Rightarrow> pconfig \<Rightarrow> pmgr \<Rightarrow> gotime \<Rightarrow> string \<Rightarrow> string \<Rightarrow> acq_out \<times> pmgr" where
  "acquire_one E C s now realm path =
     (case map_of (pm_passports s) path of
        None \<Rightarrow> acquire_inspect E C s now realm path
      | Some p \<Rightarrow>
         if pp_state p = PReleasing then (AcqFail PassportUncertain False, s)
         else if pp_state p = PPending then
           if pp_realm_id p \<noteq> realm then (AcqFail PassportRequestConflict False, s)
           else (case resumePending E s p of
               (Inl e, s') \<Rightarrow> (AcqFail e False, s')
             | (Inr q, s') \<Rightarrow> (AcqOk q False, s'))
         else acquire_inspect E C s now realm path)"

fun rollback_loop :: "penv \<Rightarrow> pmgr \<Rightarrow> passport list \<Rightarrow> pmgr" where
  "rollback_loop E s [] = s"
| "rollback_loop E s (p # ps) =
     (if pe_receipts E then rollback_loop E (snd (releaseWithReceipt E s p)) ps
      else rollback_loop E (forget (pp_path p) (emit (EvUnlockPath (pp_path p)) s)) ps)"

definition rollback :: "penv \<Rightarrow> pmgr \<Rightarrow> passport list \<Rightarrow> pmgr" where
  "rollback E s ps = snd (saveLocked_pp E (rollback_loop E s ps))"

fun acquire_loop ::
    "penv \<Rightarrow> pconfig \<Rightarrow> pmgr \<Rightarrow> gotime \<Rightarrow> string \<Rightarrow> passport list \<Rightarrow> passport list \<Rightarrow> string list
     \<Rightarrow> (perr, passport list \<times> passport list) result \<times> pmgr" where
  "acquire_loop E C s now realm acquired newly [] = (Inr (acquired, newly), s)"
| "acquire_loop E C s now realm acquired newly (path # paths) =
     (case acquire_one E C s now realm path of
        (AcqFail e rb, s') \<Rightarrow> (Inl e, if rb then rollback E s' newly else s')
      | (AcqOk p new, s') \<Rightarrow>
          acquire_loop E C s' now realm (acquired @ [p]) (if new then newly @ [p] else newly) paths)"

definition Acquire ::
    "penv \<Rightarrow> pconfig \<Rightarrow> pmgr \<Rightarrow> string list \<Rightarrow> string \<Rightarrow> (perr, passport list) result \<times> pmgr" where
  "Acquire E C s paths realm =
     (let ps = cleanPaths paths; now = pe_now E (pm_trace s) 20 in
      if ps = [] then (Inl (PErr ''passport: no paths''), s)
      else (case acquire_loop E C s now realm [] [] ps of
          (Inl e, s') \<Rightarrow> (Inl e, s')
        | (Inr (acquired, newly), s') \<Rightarrow>
           (case saveLocked_pp E s' of
              (Some e, s2) \<Rightarrow> (Inl e, rollback E s2 newly)
            | (None, s2) \<Rightarrow> (Inr acquired, s2))))"

section \<open>Release\<close>

text \<open>The error a \<open>fail\<close> of \<open>Release\<close> returns: the cause, joined with that of the save.\<close>

definition release_fail :: "penv \<Rightarrow> pmgr \<Rightarrow> bool \<Rightarrow> perr \<Rightarrow> perr option \<times> pmgr" where
  "release_fail E s changed cause =
     (if changed then
        (case saveLocked_pp E s of
           (Some e, s') \<Rightarrow> (Some (Joined cause e), s')
         | (None, s') \<Rightarrow> (Some cause, s'))
      else (Some cause, s))"

definition lost :: "passport \<Rightarrow> passport" where
  "lost p = p\<lparr>pp_state := PLost, pp_close_after := 0\<rparr>"

fun release_loop :: "penv \<Rightarrow> pmgr \<Rightarrow> bool \<Rightarrow> string list \<Rightarrow> perr option \<times> pmgr" where
  "release_loop E s changed [] = saveLocked_pp E s"
| "release_loop E s changed (path # paths) =
     (case map_of (pm_passports s) path of
        None \<Rightarrow> release_fail E s changed (NoPassport path)
      | Some p \<Rightarrow>
         if pp_state p = PPending then release_fail E s changed PassportUncertain
         else if pp_state p \<noteq> PActive \<and> pp_state p \<noteq> PReleasing
           then release_fail E s changed (NoPassport path)
         else if pe_receipts E then
           (case releaseWithReceipt E s p of
              (Some e, s') \<Rightarrow> release_fail E s' changed e
            | (None, s') \<Rightarrow> release_loop E s' changed paths)
         else
           (let s1 = emit (EvInspectLock path) s in
            case pe_inspect E (pm_trace s) path of
              Inl e \<Rightarrow> release_fail E s1 changed e
            | Inr info \<Rightarrow>
               if \<not> owns E p info then release_fail E (put (lost p) s1) True (PassportLost path)
               else (let s2 = emit (EvUnlockPath path) s1 in
                     case pe_unlock E (pm_trace s1) path of
                       Some e \<Rightarrow> release_fail E s2 changed e
                     | None \<Rightarrow> release_loop E (forget path s2) True paths)))"

definition Release_pp :: "penv \<Rightarrow> pmgr \<Rightarrow> string list \<Rightarrow> perr option \<times> pmgr" where
  "Release_pp E s paths = release_loop E s False (cleanPaths paths)"

section \<open>Heartbeat\<close>

definition hb_mutating :: "pconfig \<Rightarrow> gotime \<Rightarrow> passport \<Rightarrow> bool" where
  "hb_mutating C now p =
     ((pp_close_after p \<noteq> 0 \<and> \<not> now < pp_close_after p) \<or> \<not> now < pp_hard_expires_at p
      \<or> \<not> now + pc_heartbeat_interval C < pp_expires_at p)"

type_synonym hb_cache = "(perr, ownership_view) result option"

definition inspect_live :: "penv \<Rightarrow> pmgr \<Rightarrow> string \<Rightarrow> (perr, lock option) result \<times> pmgr" where
  "inspect_live E s path = (pe_inspect E (pm_trace s) path, emit (EvInspectLock path) s)"

text \<open>The view of one heartbeat: read at most once, from a bounded-age observation.\<close>

definition observe_hold ::
    "penv \<Rightarrow> pconfig \<Rightarrow> pmgr \<Rightarrow> ownership_view \<Rightarrow> passport \<Rightarrow> (perr, lock option) result \<times> pmgr" where
  "observe_hold E C s view p =
     (let now = pe_now E (pm_trace s) 31 in
      if ov_observed_at view = 0 \<or> now < ov_observed_at view
         \<or> time_sub now (ov_observed_at view) \<ge> minute
        then (Inl (PErr ''passport heartbeat: state observation is not fresh''), s)
      else if \<not> ov_observed_at view > pp_heartbeat_at p \<or> \<not> ov_observed_at view > pp_issued_at p
        then inspect_live E s (pp_path p)
      else if pc_working_copy C = '''' then (Inl (PErr ''passport heartbeat: working copy binding missing''), s)
      else (case go_rel (pc_working_copy C) (pp_path p) of
          None \<Rightarrow> (Inl (PErr ''passport heartbeat: path outside working copy''), s)
        | Some rel \<Rightarrow>
           if rel = ''.'' \<or> rel = ''..'' \<or> is_abs rel \<or> has_prefix rel ''../''
             then (Inl (PErr ''passport heartbeat: path outside working copy''), s)
           else (case map_of (ov_holds view) rel of
               None \<Rightarrow> (Inr None, s)
             | Some hold \<Rightarrow>
                if oh_token hold = '''' \<or> oh_owner hold = '''' \<or> oh_comment hold = ''''
                  then (Inl (PErr ''passport heartbeat: incomplete lock observation''), s)
                else (Inr (Some \<lparr>lk_token = oh_token hold, lk_owner = oh_owner hold,
                                 lk_comment = oh_comment hold\<rparr>), s))))"

definition heartbeatInspector ::
    "penv \<Rightarrow> pconfig \<Rightarrow> pmgr \<Rightarrow> hb_cache \<Rightarrow> passport \<Rightarrow> (perr, lock option) result \<times> pmgr \<times> hb_cache" where
  "heartbeatInspector E C s cache p =
     (case pe_ctx E (pm_trace s) 30 of
        Some e \<Rightarrow> (Inl (CtxErr e), s, cache)
      | None \<Rightarrow>
         (case pe_hb_ownership E of
            None \<Rightarrow> (case inspect_live E s (pp_path p) of (r, s') \<Rightarrow> (r, s', cache))
          | Some f \<Rightarrow>
             if hb_mutating C (pe_now E (pm_trace s) 30) p
             then (case inspect_live E s (pp_path p) of (r, s') \<Rightarrow> (r, s', cache))
             else
              (let (view, s1) = (case cache of
                     Some v \<Rightarrow> (v, s) | None \<Rightarrow> (f (pm_trace s), emit EvOwnership s)) in
               case view of
                 Inl e \<Rightarrow> (Inl e, s1, Some view)
               | Inr v \<Rightarrow> (case observe_hold E C s1 v p of (r, s2) \<Rightarrow> (r, s2, Some view)))))"

definition join_first :: "perr option \<Rightarrow> perr option \<Rightarrow> perr option" where
  "join_first first e = (if first = None then e else first)"

text \<open>Renewing a passport that is due.\<close>

definition renew_metadata :: "pconfig \<Rightarrow> gotime \<Rightarrow> passport \<Rightarrow> metadata" where
  "renew_metadata C now p =
     \<lparr>md_acquisition_id = '''', md_passport_id = pp_passport_id p, md_instance_uid = pp_instance_uid p,
      md_previous_token = pp_token p, md_realm_id = pp_realm_id p, md_issued_at = pp_issued_at p,
      md_expires_at = minTime (now + pc_ttl C) (pp_hard_expires_at p),
      md_hard_expires_at = pp_hard_expires_at p\<rparr>"

definition renew :: "penv \<Rightarrow> pconfig \<Rightarrow> pmgr \<Rightarrow> gotime \<Rightarrow> passport \<Rightarrow> perr option \<times> pmgr" where
  "renew E C s now p =
     (let meta = renew_metadata C now p in
      if pe_durable E then
        (case beginPending E s (pp_path p) meta ModeRenew (pp_close_after p) of
           (Inl e, s') \<Rightarrow> (Some e, s') | (Inr _, s') \<Rightarrow> (None, s'))
      else
        (let s1 = emit (EvLockForce (pp_path p) (pe_format E meta) True) s in
         case pe_lock E (pm_trace s) (pp_path p) (pe_format E meta) True of
           Inl e \<Rightarrow> (Some e, s1)
         | Inr None \<Rightarrow> (Some (PErr ''passport: heartbeat returned no fencing token''), s1)
         | Inr (Some l) \<Rightarrow>
            if lk_token l = '''' then (Some (PErr ''passport: heartbeat returned no fencing token''), s1)
            else (None, put (p\<lparr>pp_token := lk_token l, pp_heartbeat_at := now,
                               pp_expires_at := md_expires_at meta\<rparr>) s1)))"

text \<open>A passport the inspection confirmed: close, expire, leave alone or renew.\<close>

definition hb_owned :: "penv \<Rightarrow> pconfig \<Rightarrow> pmgr \<Rightarrow> gotime \<Rightarrow> passport \<Rightarrow> perr option \<times> pmgr" where
  "hb_owned E C s now p =
     (if pp_close_after p \<noteq> 0 \<and> \<not> now < pp_close_after p then
        (let s1 = emit (EvUnlockPath (pp_path p)) s in
         case pe_unlock E (pm_trace s) (pp_path p) of
           Some e \<Rightarrow> (Some e, s1) | None \<Rightarrow> (None, forget (pp_path p) s1))
      else if \<not> now < pp_hard_expires_at p then
        (let s1 = emit (EvUnlockPath (pp_path p)) s in
         case pe_unlock E (pm_trace s) (pp_path p) of
           Some e \<Rightarrow> (Some e, s1)
         | None \<Rightarrow> (None, put (p\<lparr>pp_state := PExpired, pp_close_after := 0\<rparr>) s1))
      else if now + pc_heartbeat_interval C < pp_expires_at p then (None, s)
      else renew E C s now p)"

definition hb_one ::
    "penv \<Rightarrow> pconfig \<Rightarrow> pmgr \<Rightarrow> hb_cache \<Rightarrow> gotime \<Rightarrow> passport \<Rightarrow> perr option \<times> pmgr \<times> hb_cache" where
  "hb_one E C s cache now p =
     (if pp_state p = PReleasing then
        (if pe_receipts E then (case releaseWithReceipt E s p of (e, s') \<Rightarrow> (e, s', cache))
         else (None, s, cache))
      else if pp_state p = PPending then
        (case resumePending E s p of
           (Inl e, s') \<Rightarrow> (Some e, s', cache) | (Inr _, s') \<Rightarrow> (None, s', cache))
      else if pp_state p \<noteq> PActive then (None, s, cache)
      else if pe_receipts E \<and> ((pp_close_after p \<noteq> 0 \<and> \<not> now < pp_close_after p) \<or> \<not> now < pp_hard_expires_at p)
        then (case releaseWithReceipt E s p of (e, s') \<Rightarrow> (e, s', cache))
      else (case heartbeatInspector E C s cache p of
          (Inl e, s1, cache') \<Rightarrow> (Some e, s1, cache')
        | (Inr info, s1, cache') \<Rightarrow>
           if \<not> owns E p info then (Some (PassportLost (pp_path p)), put (lost p) s1, cache')
           else (case hb_owned E C s1 now p of (e, s2) \<Rightarrow> (e, s2, cache'))))"

text \<open>
  The loop of \<open>Heartbeat\<close> over the passports in some order. Handling a passport changes no
  other entry of the map, so the entries are those present when the loop starts.
\<close>

fun hb_loop ::
    "penv \<Rightarrow> pconfig \<Rightarrow> pmgr \<Rightarrow> hb_cache \<Rightarrow> gotime \<Rightarrow> perr option \<Rightarrow> passport list \<Rightarrow> perr option \<times> pmgr" where
  "hb_loop E C s cache now first [] =
     (case saveLocked_pp E s of (e, s') \<Rightarrow> (join_first first e, s'))"
| "hb_loop E C s cache now first (p # ps) =
     (case hb_one E C s cache now p of
        (e, s', cache') \<Rightarrow> hb_loop E C s' cache' now (join_first first e) ps)"

definition Heartbeat :: "penv \<Rightarrow> pconfig \<Rightarrow> pmgr \<Rightarrow> perr option \<times> pmgr" where
  "Heartbeat E C s = hb_loop E C s None (pe_now E (pm_trace s) 29) None (map snd (pm_passports s))"

section \<open>Release of everything\<close>

definition relall_one :: "penv \<Rightarrow> pmgr \<Rightarrow> passport \<Rightarrow> perr option \<times> pmgr" where
  "relall_one E s p =
     (if pp_state p = PPending then (Some PassportUncertain, s)
      else if pp_state p \<noteq> PActive \<and> pp_state p \<noteq> PReleasing then (None, s)
      else if pe_receipts E then releaseWithReceipt E s p
      else
        (let s1 = emit (EvInspectLock (pp_path p)) s in
         case pe_inspect E (pm_trace s) (pp_path p) of
           Inl e \<Rightarrow> (Some e, s1)
         | Inr info \<Rightarrow>
            if \<not> owns E p info then (None, put (p\<lparr>pp_state := PLost\<rparr>) s1)
            else (let s2 = emit (EvUnlockPath (pp_path p)) s1 in
                  case pe_unlock E (pm_trace s1) (pp_path p) of
                    Some e \<Rightarrow> (Some e, s2) | None \<Rightarrow> (None, forget (pp_path p) s2))))"

fun relall_loop :: "penv \<Rightarrow> pmgr \<Rightarrow> perr option \<Rightarrow> passport list \<Rightarrow> perr option \<times> pmgr" where
  "relall_loop E s first [] = (case saveLocked_pp E s of (e, s') \<Rightarrow> (join_first first e, s'))"
| "relall_loop E s first (p # ps) =
     (case relall_one E s p of (e, s') \<Rightarrow> relall_loop E s' (join_first first e) ps)"

definition ReleaseAll :: "penv \<Rightarrow> pmgr \<Rightarrow> perr option \<times> pmgr" where
  "ReleaseAll E s = relall_loop E s None (map snd (pm_passports s))"

section \<open>The check before publication\<close>

fun authorize_loop :: "penv \<Rightarrow> pmgr \<Rightarrow> gotime \<Rightarrow> string list \<Rightarrow> perr option \<times> pmgr" where
  "authorize_loop E s now [] = (None, s)"
| "authorize_loop E s now (path # paths) =
     (case map_of (pm_passports s) path of
        None \<Rightarrow> (Some (NoPassport path), s)
      | Some p \<Rightarrow>
         if pp_state p = PPending then (Some PassportUncertain, s)
         else if pp_state p \<noteq> PActive \<or> \<not> now < pp_expires_at p then (Some (NoPassport path), s)
         else (let s1 = emit (EvInspectLock path) s in
               case pe_inspect E (pm_trace s) path of
                 Inl e \<Rightarrow> (Some e, s1)
               | Inr info \<Rightarrow>
                  if \<not> owns E p info
                  then (Some (PassportLost path), snd (saveLocked_pp E (put (lost p) s1)))
                  else authorize_loop E s1 now paths))"

definition authorize :: "penv \<Rightarrow> pmgr \<Rightarrow> string list \<Rightarrow> perr option \<times> pmgr" where
  "authorize E s paths = authorize_loop E s (pe_now E (pm_trace s) 40) (cleanPaths paths)"

section \<open>Local events\<close>

definition ForgetRemoved :: "penv \<Rightarrow> pmgr \<Rightarrow> string list \<Rightarrow> pmgr" where
  "ForgetRemoved E s paths =
     (let gone = filter (\<lambda>path. case map_of (pm_passports s) path of
                           None \<Rightarrow> False | Some p \<Rightarrow> pp_state p \<noteq> PPending) (cleanPaths paths) in
      if gone = [] then s else snd (saveLocked_pp E (fold forget gone s)))"

definition Touch :: "penv \<Rightarrow> pmgr \<Rightarrow> string \<Rightarrow> pmgr" where
  "Touch E s path =
     (case map_of (pm_passports s) (go_clean path) of
        None \<Rightarrow> s
      | Some p \<Rightarrow>
         if pp_state p = PActive \<and> pp_close_after p \<noteq> 0
         then snd (saveLocked_pp E (put (p\<lparr>pp_close_after := 0\<rparr>) s)) else s)"

fun mark_loop :: "gotime \<Rightarrow> pmgr \<Rightarrow> bool \<Rightarrow> string list \<Rightarrow> pmgr \<times> bool" where
  "mark_loop deadline s changed [] = (s, changed)"
| "mark_loop deadline s changed (path # paths) =
     (case map_of (pm_passports s) path of
        Some p \<Rightarrow>
          if pp_state p = PActive
          then mark_loop deadline (put (p\<lparr>pp_close_after := deadline\<rparr>) s) True paths
          else mark_loop deadline s changed paths
      | None \<Rightarrow> mark_loop deadline s changed paths)"

definition MarkPublished :: "penv \<Rightarrow> pconfig \<Rightarrow> pmgr \<Rightarrow> string list \<Rightarrow> pmgr" where
  "MarkPublished E C s paths =
     (case mark_loop (pe_now E (pm_trace s) 41 + pc_close_grace C) s False (cleanPaths paths) of
        (s', changed) \<Rightarrow> if changed then snd (saveLocked_pp E s') else s')"

section \<open>Opening the store\<close>

definition load_check :: "penv \<Rightarrow> pconfig \<Rightarrow> passport \<Rightarrow> perr option" where
  "load_check E C p =
     (if pp_state p = PReleasing \<and>
         (\<not> pe_receipts E \<or> pp_instance_uid p \<noteq> pc_instance_uid C \<or> pp_pending p \<noteq> None)
        then Some (PErr ''passport release binding or backend unavailable'')
      else if pp_pending p \<noteq> None \<or> pp_state p = PPending then
        (case pp_pending p of
           None \<Rightarrow> Some (PErr ''passport pending record requires its durable backend'')
         | Some i \<Rightarrow>
            (let meta = li_metadata i in
             if \<not> pe_durable E \<or> pp_state p \<noteq> PPending \<or> pp_token p \<noteq> ''''
               then Some (PErr ''passport pending record requires its durable backend'')
             else if pp_passport_id p \<noteq> md_passport_id meta \<or> pp_instance_uid p \<noteq> md_instance_uid meta
                \<or> pp_instance_uid p \<noteq> pc_instance_uid C \<or> pp_realm_id p \<noteq> md_realm_id meta
                \<or> pp_issued_at p \<noteq> md_issued_at meta \<or> pp_expires_at p \<noteq> md_expires_at meta
                \<or> pp_hard_expires_at p \<noteq> md_hard_expires_at meta
               then Some (PErr ''passport pending metadata mismatch'')
             else pe_validate E (pp_path p) i))
      else if pp_path p = '''' \<or> pp_passport_id p = '''' \<or> pp_token p = ''''
        then Some (PErr ''passport store contains invalid entry'')
      else None)"

fun load_pp :: "penv \<Rightarrow> pconfig \<Rightarrow> (string, passport) assoc \<Rightarrow> passport list
     \<Rightarrow> (perr, (string, passport) assoc) result" where
  "load_pp E C m [] = Inr m"
| "load_pp E C m (p # ps) =
     (case load_check E C p of
        Some e \<Rightarrow> Inl e
      | None \<Rightarrow>
         if map_of m (go_clean (pp_path p)) \<noteq> None then Inl (PErr ''duplicate passport path'')
         else load_pp E C (AList.update (go_clean (pp_path p)) p m) ps)"

text \<open>The limits \<open>Open\<close> requires, after its defaults.\<close>

definition config_ok :: "pconfig \<Rightarrow> bool" where
  "config_ok C = (\<not> pc_heartbeat_interval C \<ge> pc_ttl C \<and> \<not> pc_max_session C < pc_ttl C)"

definition Open :: "penv \<Rightarrow> pconfig \<Rightarrow> passport list \<Rightarrow> ptrace \<Rightarrow> (perr, pmgr) result" where
  "Open E C disk tr =
     (if trim_space (pc_instance_uid C) = ''''
        then Inl (PErr ''passport: store path, instance UID and backend are required'')
      else if \<not> config_ok C then Inl (PErr ''passport: limits'')
      else (case load_pp E C [] disk of
          Inl e \<Rightarrow> Inl e
        | Inr m \<Rightarrow> Inr \<lparr>pm_passports = m, pm_disk = disk, pm_trace = tr\<rparr>))"

definition CheckSettledStore :: "passport list \<Rightarrow> perr option" where
  "CheckSettledStore disk =
     (if list_ex (\<lambda>p. pp_state p = PPending \<or> pp_state p = PReleasing \<or> pp_pending p \<noteq> None) disk
      then Some PassportUncertain else None)"

section \<open>Ownership\<close>

fun acquire_owned_loop ::
    "penv \<Rightarrow> pconfig \<Rightarrow> ownership_view \<Rightarrow> (string, passport) assoc \<Rightarrow> string \<Rightarrow> pmgr \<Rightarrow> string list
     \<Rightarrow> perr option \<times> pmgr" where
  "acquire_owned_loop E C view local realm s [] = (None, s)"
| "acquire_owned_loop E C view local realm s (p # ps) =
     (if (case map_of local p of None \<Rightarrow> False | Some q \<Rightarrow> pp_state q = PActive)
      then acquire_owned_loop E C view local realm s ps
      else (case go_rel (pc_working_copy C) p of
          None \<Rightarrow> (Some (PErr ''passport path outside working copy''), s)
        | Some rel \<Rightarrow>
           if rel = ''..'' \<or> has_prefix rel ''../'' then (Some (PErr ''passport path outside working copy''), s)
           else (case map_of (ov_owners view) rel of
               None \<Rightarrow> (Some PathOwnerUnavailable, s)
             | Some owner \<Rightarrow>
                if owner = '''' then (Some PathOwnerUnavailable, s)
                else if owner \<noteq> realm then (Some (NoPassport ''''), s)
                else (case Acquire E C s [p] realm of
                    (Inl e, s') \<Rightarrow> (Some e, s')
                  | (Inr _, s') \<Rightarrow> acquire_owned_loop E C view local realm s' ps))))"

definition AcquireOwned :: "penv \<Rightarrow> pconfig \<Rightarrow> pmgr \<Rightarrow> string list \<Rightarrow> string \<Rightarrow> perr option \<times> pmgr" where
  "AcquireOwned E C s paths realm =
     (case pe_ownership E of
        None \<Rightarrow> (Some PathOwnerUnavailable, s)
      | Some f \<Rightarrow>
         if realm = '''' then (Some PathOwnerUnavailable, s)
         else (case f (pm_trace s) of
             Inl e \<Rightarrow> (Some e, emit EvOwnership s)
           | Inr view \<Rightarrow>
              acquire_owned_loop E C view (pm_passports s) realm (emit EvOwnership s) (cleanPaths paths)))"

text \<open>
  The write access \<open>reconcilePathAccess\<close> decides for a needs-lock file: \<open>None\<close> leaves it as
  it is. \<open>view\<close> is the observation, \<open>None\<close> when it failed; \<open>pass\<close> the local passport.
\<close>

definition access_rw ::
    "gotime \<Rightarrow> string \<Rightarrow> ownership_view option \<Rightarrow> passport option \<Rightarrow> string \<Rightarrow> bool option" where
  "access_rw now realm view pass rel =
     (if (case pass of None \<Rightarrow> False
          | Some p \<Rightarrow> pp_state p = PPending \<and>
              (case pp_pending p of None \<Rightarrow> False | Some i \<Rightarrow> li_mode i = ModeRenew))
      then None
      else
       (let hold = (case view of None \<Rightarrow> None | Some v \<Rightarrow> map_of (ov_holds v) rel);
            by_pass = (case pass of None \<Rightarrow> False
              | Some p \<Rightarrow> pp_state p = PActive \<and> now < pp_expires_at p \<and>
                  \<not> (case hold of None \<Rightarrow> False
                     | Some h \<Rightarrow> oh_token h \<noteq> pp_token p \<and> oh_realm_id h \<noteq> pp_realm_id p \<and> oh_realm_id h \<noteq> realm));
            by_owner = (case view of None \<Rightarrow> False
              | Some v \<Rightarrow> (case pass of None \<Rightarrow> True
                            | Some p \<Rightarrow> pp_state p \<noteq> PPending \<and> pp_state p \<noteq> PReleasing)
                  \<and> realm \<noteq> '''' \<and> map_of (ov_owners v) rel = Some realm
                  \<and> (case hold of None \<Rightarrow> True | Some h \<Rightarrow> oh_realm_id h = realm)) in
        Some (by_pass \<or> by_owner)))"

end
