(* ===== verification/Passport_Backend.thy ===== *)
theory Passport_Backend
  imports Passport_Manager
begin

text \<open>
  The durable lock backend (\<open>pkg/passport/control_backend.go\<close>, \<open>acquisition_receipt.go\<close>,
  \<open>execution_recovery.go\<close>) and the control exchanges behind it
  (\<open>pkg/controlclient/passport*.go\<close>). The Subversion client, the control transport and UUID
  generation are parameters. It provides the interface the manager relies on.
\<close>

section \<open>Validation of payloads\<close>

record wire =
  wr_uuid_ok :: "string \<Rightarrow> bool"

text \<open>
  \<open>uuid.Parse\<close>: which strings are UUIDs is a parameter; the empty string is none, every
  accepted form having at least 32 characters.
\<close>

definition uuid_parses :: "wire \<Rightarrow> string \<Rightarrow> bool" where
  "uuid_parses W s = (s \<noteq> '''' \<and> wr_uuid_ok W s)"

definition validatePublicSharePath :: "string \<Rightarrow> bool" where
  "validatePublicSharePath v =
     (\<not> (v = '''' \<or> v \<noteq> trim_space v \<or> has_prefix v ''/'' \<or> contains_any v [CHR 0x5C, CHR 0x00]
         \<or> contains_sub v ''//'')
      \<and> list_all (\<lambda>seg. \<not> (seg = '''' \<or> seg = ''.'' \<or> seg = ''..'')) (split_on CHR ''/'' v))"

definition validateLockReleasePath :: "string \<Rightarrow> bool" where
  "validateLockReleasePath p =
     (validatePublicSharePath p \<and> length p \<le> 4096 \<and> \<not> contains_any p [CHR 0x0D, CHR 0x0A])"

definition validateObservedLockID :: "string \<Rightarrow> bool" where
  "validateObservedLockID v =
     (\<not> (v = '''' \<or> length v > 2048 \<or> v \<noteq> trim_space v \<or> contains_any v [CHR 0x00, CHR 0x0D, CHR 0x0A]))"

definition execution_ok :: "wire \<Rightarrow> bool \<Rightarrow> string \<Rightarrow> string \<Rightarrow> string \<Rightarrow> bool" where
  "execution_ok W expire repo path comment =
     (uuid_parses W repo \<and> validateLockReleasePath path \<and>
      (if expire then comment = ''''
       else \<not> (comment = '''' \<or> length comment > 4096 \<or> contains_any comment [CHR 0x00, CHR 0x0D, CHR 0x0A])))"

definition replacement_ok :: "wire \<Rightarrow> string \<Rightarrow> string \<Rightarrow> string \<Rightarrow> string \<Rightarrow> string \<Rightarrow> mode \<Rightarrow> bool" where
  "replacement_ok W repo path lockid pid inst md =
     (uuid_parses W repo \<and> uuid_parses W pid \<and> uuid_parses W inst \<and> validateLockReleasePath path
      \<and> validateObservedLockID lockid \<and> (md = ModeRenew \<or> md = ModeMigrate))"

definition ctl_ticket_ok :: "wire \<Rightarrow> ctl_ticket \<Rightarrow> bool" where
  "ctl_ticket_ok W t =
     (uuid_parses W (ct_operation_id t) \<and> uuid_parses W (ct_request_id t) \<and> trim_space (ct_client_id t) \<noteq> ''''
      \<and> (case ct_payload t of
           ExecutionPayload repo path comment \<Rightarrow>
             (ct_type t = TArmAcquisition \<or> ct_type t = TSettleAcquisition \<or> ct_type t = TExpirePath)
             \<and> execution_ok W (ct_type t = TExpirePath) repo path comment
         | ReplacementPayload repo path lockid pid inst md \<Rightarrow>
             ct_type t = TPrepareReplacement \<and> replacement_ok W repo path lockid pid inst md))"

section \<open>Control exchanges\<close>

datatype ctl_proof =
    ExecutionProof string string string
  | ReplacementProof string string string
  | CancellationProof string string

text \<open>An answer: its identifiers, and either its proof or the pair of error code and key.\<close>

record ctl_answer =
  ca_operation_id :: string
  ca_request_id :: string
  ca_type :: ctl_type
  ca_body :: "(string \<times> string, ctl_proof) result"

record transport =
  tr_exchange :: "ptrace \<Rightarrow> nat \<Rightarrow> ctl_ticket \<Rightarrow> (perr, ctl_answer) result"
  tr_answer_ok :: "ctl_answer \<Rightarrow> bool"
  tr_fault :: "string \<Rightarrow> string \<Rightarrow> perr option"
  tr_aborted :: "string \<Rightarrow> string \<Rightarrow> bool"
  tr_cancellation :: "ctl_ticket \<Rightarrow> (string \<times> string)"

definition answer_matches :: "ctl_ticket \<Rightarrow> ctl_answer \<Rightarrow> bool" where
  "answer_matches t r =
     (ca_operation_id r = ct_operation_id t \<and> ca_request_id r = ct_request_id t \<and> ca_type r = ct_type t)"

definition fault_of :: "transport \<Rightarrow> string \<times> string \<Rightarrow> perr" where
  "fault_of T e = (case tr_fault T (fst e) (snd e) of Some f \<Rightarrow> f | None \<Rightarrow> PErr (fst e @ '': '' @ snd e))"

definition PreparePassportReplacement ::
    "wire \<Rightarrow> transport \<Rightarrow> ptrace \<Rightarrow> ctl_ticket \<Rightarrow> perr option" where
  "PreparePassportReplacement W T tr t =
     (if \<not> ctl_ticket_ok W t then Some (PErr ''ticket'')
      else (case ct_payload t of
          ExecutionPayload _ _ _ \<Rightarrow> Some (PErr ''not a passport preparation ticket'')
        | ReplacementPayload repo path lockid _ _ _ \<Rightarrow>
           (case tr_exchange T tr 1 t of
              Inl e \<Rightarrow> Some e
            | Inr r \<Rightarrow>
               if \<not> tr_answer_ok T r then Some (PErr ''result'')
               else if \<not> answer_matches t r then Some (PErr ''passport preparation response mismatch'')
               else (case ca_body r of
                   Inl e \<Rightarrow> if tr_aborted T (fst e) (snd e) then Some (AbortedPreparation t)
                            else Some (fault_of T e)
                 | Inr (ReplacementProof repo' path' lockid') \<Rightarrow>
                    if repo' \<noteq> repo \<or> path' \<noteq> path \<or> lockid' \<noteq> lockid
                    then Some (PErr ''passport preparation receipt does not match requested token/path'')
                    else None
                 | Inr _ \<Rightarrow> Some (PErr ''decode'')))))"

definition PassportExecution :: "wire \<Rightarrow> transport \<Rightarrow> ptrace \<Rightarrow> ctl_ticket \<Rightarrow> perr option" where
  "PassportExecution W T tr t =
     (if ct_type t \<noteq> TArmAcquisition \<and> ct_type t \<noteq> TSettleAcquisition \<and> ct_type t \<noteq> TExpirePath
        then Some (PErr ''not an acquisition ticket'')
      else if \<not> ctl_ticket_ok W t then Some (PErr ''ticket'')
      else (case ct_payload t of
          ReplacementPayload _ _ _ _ _ _ \<Rightarrow> Some (PErr ''decode'')
        | ExecutionPayload repo path comment \<Rightarrow>
           (case tr_exchange T tr 2 t of
              Inl e \<Rightarrow> Some e
            | Inr r \<Rightarrow>
               if \<not> tr_answer_ok T r then Some (PErr ''result'')
               else if \<not> answer_matches t r then Some (PErr ''acquisition response mismatch'')
               else (case ca_body r of
                   Inl e \<Rightarrow> Some (fault_of T e)
                 | Inr (ExecutionProof repo' path' comment') \<Rightarrow>
                    if repo' \<noteq> repo \<or> path' \<noteq> path \<or> comment' \<noteq> comment
                    then Some (PErr ''acquisition receipt mismatch'') else None
                 | Inr _ \<Rightarrow> Some (PErr ''decode'')))))"

text \<open>
  The cancellation ticket derives its identifiers from the original's
  (\<open>tr_cancellation\<close>, SHA-1 name-based UUIDs) and carries it as its payload.
\<close>

definition CancelPassportPreparation ::
    "wire \<Rightarrow> transport \<Rightarrow> ptrace \<Rightarrow> ctl_ticket \<Rightarrow> perr option" where
  "CancelPassportPreparation W T tr t =
     (if ct_type t \<noteq> TPrepareReplacement then Some (PErr ''cancellation requires an original preparation'')
      else if \<not> ctl_ticket_ok W t then Some (PErr ''ticket'')
      else
       (let (op, req) = tr_cancellation T t;
            c = t\<lparr>ct_operation_id := op, ct_request_id := req, ct_type := TOtherType ''CANCEL_PASSPORT_PREPARATION''\<rparr> in
        case tr_exchange T tr 3 c of
          Inl e \<Rightarrow> Some e
        | Inr r \<Rightarrow>
           if \<not> tr_answer_ok T r then Some (PErr ''result'')
           else if \<not> answer_matches c r then Some (PErr ''cancellation response mismatch'')
           else (case ca_body r of
               Inl e \<Rightarrow> Some (fault_of T e)
             | Inr (CancellationProof op' req') \<Rightarrow>
                if op' \<noteq> ct_operation_id t \<or> req' \<noteq> ct_request_id t
                then Some (PErr ''cancellation receipt does not match preparation'') else None
             | Inr _ \<Rightarrow> Some (PErr ''decode''))))"

section \<open>The backend\<close>

text \<open>
  \<open>sc_receipts\<close>, \<open>sc_observer\<close> and \<open>sc_acquirer\<close> say which optional interfaces the Subversion
  client implements; a proof is a token, an owner and a comment.
\<close>

record svn_lock_client =
  sc_receipts :: bool
  sc_observer :: bool
  sc_acquirer :: bool
  sc_lock_info :: "ptrace \<Rightarrow> string \<Rightarrow> (perr, lock option) result"
  sc_unlock :: "ptrace \<Rightarrow> string \<Rightarrow> perr option"
  sc_lock :: "ptrace \<Rightarrow> string \<Rightarrow> string \<Rightarrow> perr option"
  sc_acquire :: "ptrace \<Rightarrow> string \<Rightarrow> string \<Rightarrow> (perr, lock option) result"
  sc_confirm :: "ptrace \<Rightarrow> string \<Rightarrow> string \<Rightarrow> (perr, lock option) result"
  sc_observe :: "ptrace \<Rightarrow> string \<Rightarrow> (perr, lock option \<times> lock option) result"

record control_backend =
  cb_fence :: bool
  cb_wc :: string
  cb_repo_id :: string
  cb_client_id :: string
  cb_uuid :: "ptrace \<Rightarrow> nat \<Rightarrow> string"
  cb_ctx :: "ptrace \<Rightarrow> nat \<Rightarrow> string option"
  cb_format :: "metadata \<Rightarrow> string"
  cb_wire :: wire
  cb_transport :: transport
  cb_svn :: svn_lock_client

definition relative :: "control_backend \<Rightarrow> string \<Rightarrow> string option" where
  "relative B path = (if \<not> is_abs (cb_wc B) \<or> \<not> is_abs path then None else go_rel (cb_wc B) path)"

definition acquisition_valid :: "control_backend \<Rightarrow> lock_intent \<Rightarrow> bool" where
  "acquisition_valid B i =
     (case li_acquisition i of
        Some t \<Rightarrow>
          cb_fence B \<and> ct_type t = TArmAcquisition \<and> ct_client_id t = li_client_id i
          \<and> ctl_ticket_ok (cb_wire B) t \<and> uuid_parses (cb_wire B) (md_acquisition_id (li_metadata i))
          \<and> ct_payload t = ExecutionPayload (li_repo_id i) (li_path i) (cb_format B (li_metadata i))
      | None \<Rightarrow> md_acquisition_id (li_metadata i) = '''' \<and> li_stage i \<noteq> StSettling)"

definition replacement_valid :: "control_backend \<Rightarrow> lock_intent \<Rightarrow> string \<Rightarrow> bool" where
  "replacement_valid B i rel =
     (let m = li_metadata i in
      if li_mode i = ModeAcquire then
        li_ticket i = None \<and> md_previous_token m = ''''
        \<and> replacement_ok (cb_wire B) (li_repo_id i) rel ''validation-only'' (md_passport_id m) (md_instance_uid m) ModeRenew
      else
        replacement_ok (cb_wire B) (li_repo_id i) rel (md_previous_token m) (md_passport_id m) (md_instance_uid m) (li_mode i)
        \<and> (case li_ticket i of
             None \<Rightarrow> False
           | Some t \<Rightarrow> ctl_ticket_ok (cb_wire B) t \<and> ct_type t = TPrepareReplacement \<and> ct_client_id t = li_client_id i
               \<and> ct_payload t = ReplacementPayload (li_repo_id i) rel (md_previous_token m)
                   (md_passport_id m) (md_instance_uid m) (li_mode i)))"

definition ValidateLockIntent :: "control_backend \<Rightarrow> string \<Rightarrow> lock_intent \<Rightarrow> perr option" where
  "ValidateLockIntent B path i =
     (case relative B path of
        None \<Rightarrow> Some (PErr ''control passport requires absolute WC and target'')
      | Some rel \<Rightarrow>
         (let m = li_metadata i in
          if li_repo_id i \<noteq> cb_repo_id B \<or> li_client_id i \<noteq> cb_client_id B \<or> li_path i \<noteq> rel
             \<or> li_stage i \<notin> {StPrepare, StLocking, StChecking, StCanceling, StSettling}
            then Some (PErr ''passport intent binding mismatch'')
          else if \<not> sc_receipts (cb_svn B) then Some (PErr ''SVN client cannot confirm local lock possession'')
          else if \<not> acquisition_valid B i then Some (PErr ''acquisition binding mismatch'')
          else if \<not> list_all (uuid_parses (cb_wire B))
                    [li_client_id i, li_repo_id i, md_passport_id m, md_instance_uid m]
            then Some (PErr ''uuid'')
          else if md_issued_at m = 0 \<or> \<not> md_expires_at m > md_issued_at m \<or> md_hard_expires_at m < md_expires_at m
            then Some (PErr ''invalid passport intent lifetime'')
          else if \<not> replacement_valid B i rel then Some (PErr ''passport ticket does not match intent'')
          else None))"

definition new_ctl_ticket ::
    "control_backend \<Rightarrow> ptrace \<Rightarrow> nat \<Rightarrow> ctl_type \<Rightarrow> ctl_payload \<Rightarrow> gotime \<Rightarrow> (perr, ctl_ticket) result" where
  "new_ctl_ticket B tr k ty pl now =
     (let t = \<lparr>ct_operation_id = cb_uuid B tr k, ct_request_id = cb_uuid B tr (k + 1), ct_type = ty,
               ct_client_id = trim_space (cb_client_id B), ct_created_at = now, ct_payload = pl\<rparr> in
      if ctl_ticket_ok (cb_wire B) t then Inr t else Inl (PErr ''ticket''))"

definition NewLockIntent ::
    "control_backend \<Rightarrow> ptrace \<Rightarrow> string \<Rightarrow> metadata \<Rightarrow> mode \<Rightarrow> gotime \<Rightarrow> (perr, lock_intent) result" where
  "NewLockIntent B tr path meta md now =
     (case relative B path of
        None \<Rightarrow> Inl (PErr ''control passport requires absolute WC and target'')
      | Some rel \<Rightarrow>
         (let m = (if cb_fence B then meta\<lparr>md_acquisition_id := cb_uuid B tr 0\<rparr> else meta) in
          case (if cb_fence B
                then map_sum id Some (new_ctl_ticket B tr 1 TArmAcquisition
                       (ExecutionPayload (cb_repo_id B) rel (cb_format B m)) now)
                else Inr None) of
            Inl e \<Rightarrow> Inl e
          | Inr acq \<Rightarrow>
             (case (if md \<noteq> ModeAcquire
                    then map_sum id Some (new_ctl_ticket B tr 3 TPrepareReplacement
                           (ReplacementPayload (cb_repo_id B) rel (md_previous_token m) (md_passport_id m)
                              (md_instance_uid m) md) now)
                    else Inr None) of
                Inl e \<Rightarrow> Inl e
              | Inr tk \<Rightarrow>
                 (let i = \<lparr>li_acquisition = acq, li_stage = StPrepare, li_repo_id = cb_repo_id B,
                           li_client_id = cb_client_id B, li_path = rel, li_mode = md,
                           li_metadata = m, li_ticket = tk\<rparr> in
                  case ValidateLockIntent B path i of Some e \<Rightarrow> Inl e | None \<Rightarrow> Inr i))))"

definition PrepareLockIntent :: "control_backend \<Rightarrow> ptrace \<Rightarrow> string \<Rightarrow> lock_intent \<Rightarrow> perr option" where
  "PrepareLockIntent B tr path i =
     (case ValidateLockIntent B path i of
        Some e \<Rightarrow> Some e
      | None \<Rightarrow>
         if li_stage i \<noteq> StPrepare then Some (PErr ''passport intent is not preparing'')
         else (case (case li_ticket i of None \<Rightarrow> None
                     | Some t \<Rightarrow> PreparePassportReplacement (cb_wire B) (cb_transport B) tr t) of
             Some e \<Rightarrow> Some e
           | None \<Rightarrow>
              (case li_acquisition i of
                 Some t \<Rightarrow> PassportExecution (cb_wire B) (cb_transport B) tr t
               | None \<Rightarrow> map_option CtxErr (cb_ctx B tr 1))))"

definition CancelLockIntent :: "control_backend \<Rightarrow> ptrace \<Rightarrow> string \<Rightarrow> lock_intent \<Rightarrow> perr option" where
  "CancelLockIntent B tr path i =
     (case ValidateLockIntent B path i of
        Some e \<Rightarrow> Some e
      | None \<Rightarrow>
         if li_stage i \<noteq> StCanceling then Some (PErr ''passport cancellation is not durable'')
         else (case cb_ctx B tr 2 of
             Some e \<Rightarrow> Some (CtxErr e)
           | None \<Rightarrow>
              (case li_ticket i of
                 None \<Rightarrow> None
               | Some t \<Rightarrow> CancelPassportPreparation (cb_wire B) (cb_transport B) tr t)))"

definition AcquireLockIntent :: "control_backend \<Rightarrow> ptrace \<Rightarrow> string \<Rightarrow> lock_intent \<Rightarrow> perr option" where
  "AcquireLockIntent B tr path i =
     (case ValidateLockIntent B path i of
        Some e \<Rightarrow> Some e
      | None \<Rightarrow>
         if li_stage i \<noteq> StLocking then Some (PErr ''passport lock intent is not durable'')
         else sc_lock (cb_svn B) tr path (cb_format B (li_metadata i)))"

definition receipt_bound :: "control_backend \<Rightarrow> lock_intent \<Rightarrow> lock \<Rightarrow> bool" where
  "receipt_bound B i l =
     (lk_token l \<noteq> '''' \<and> lk_owner l = li_client_id i \<and> lk_comment l = cb_format B (li_metadata i))"

definition AcquireLockIntentReceipt ::
    "control_backend \<Rightarrow> ptrace \<Rightarrow> string \<Rightarrow> lock_intent \<Rightarrow> (perr, lock option) result" where
  "AcquireLockIntentReceipt B tr path i =
     (case ValidateLockIntent B path i of
        Some e \<Rightarrow> Inl e
      | None \<Rightarrow>
         if li_stage i \<noteq> StLocking then Inl (PErr ''passport lock intent is not durable'')
         else if \<not> sc_acquirer (cb_svn B) then
           (case AcquireLockIntent B tr path i of Some e \<Rightarrow> Inl e | None \<Rightarrow> Inr None)
         else (case sc_acquire (cb_svn B) tr path (cb_format B (li_metadata i)) of
             Inl e \<Rightarrow> Inl e
           | Inr lproof \<Rightarrow>
              (case cb_ctx B tr 3 of
                 Some e \<Rightarrow> Inl (CtxErr e)
               | None \<Rightarrow>
                  (case lproof of
                     None \<Rightarrow> Inr None
                   | Some l \<Rightarrow>
                      if \<not> receipt_bound B i l then Inl (PErr ''passport acquisition receipt binding mismatch'')
                      else Inr (Some l)))))"

definition ConfirmLockIntent ::
    "control_backend \<Rightarrow> ptrace \<Rightarrow> string \<Rightarrow> lock_intent \<Rightarrow> (perr, lock option) result" where
  "ConfirmLockIntent B tr path i =
     (case ValidateLockIntent B path i of
        Some e \<Rightarrow> Inl e
      | None \<Rightarrow>
         (case sc_confirm (cb_svn B) tr path (cb_format B (li_metadata i)) of
            Inl e \<Rightarrow> Inl e
          | Inr None \<Rightarrow> Inl PassportUncertain
          | Inr (Some l) \<Rightarrow> if \<not> receipt_bound B i l then Inl PassportUncertain else Inr (Some l)))"

text \<open>The observation is the remote and the local lock of the path.\<close>

definition ReconcileCompletedLockIntent ::
    "control_backend \<Rightarrow> ptrace \<Rightarrow> string \<Rightarrow> lock_intent \<Rightarrow> (perr, lock option \<times> bool) result" where
  "ReconcileCompletedLockIntent B tr path i =
     (case ValidateLockIntent B path i of
        Some e \<Rightarrow> Inl e
      | None \<Rightarrow>
         if li_stage i \<noteq> StChecking then Inl (PErr ''lock command completion is not durable'')
         else if \<not> sc_observer (cb_svn B) then
           (case ConfirmLockIntent B tr path i of Inl e \<Rightarrow> Inl e | Inr l \<Rightarrow> Inr (l, False))
         else (case sc_observe (cb_svn B) tr path of
             Inl e \<Rightarrow> Inl e
           | Inr (remote, here) \<Rightarrow>
              (let comment = cb_format B (li_metadata i) in
               case remote of
                 None \<Rightarrow> Inr (None, True)
               | Some r \<Rightarrow>
                  if lk_owner r \<noteq> li_client_id i \<or> lk_comment r \<noteq> comment then Inr (None, True)
                  else (case here of
                      None \<Rightarrow> Inl PassportUncertain
                    | Some l \<Rightarrow>
                       if lk_token r = '''' \<or> lk_token l \<noteq> lk_token r \<or> lk_owner l \<noteq> lk_owner r
                          \<or> lk_comment l \<noteq> comment
                       then Inl PassportUncertain else Inr (Some r, False)))))"

definition SettleLockIntent :: "control_backend \<Rightarrow> ptrace \<Rightarrow> string \<Rightarrow> lock_intent \<Rightarrow> perr option" where
  "SettleLockIntent B tr path i =
     (case ValidateLockIntent B path i of
        Some e \<Rightarrow> Some e
      | None \<Rightarrow>
         (case li_acquisition i of
            None \<Rightarrow> Some (PErr ''acquisition settlement is not durable'')
          | Some t \<Rightarrow>
             if li_stage i \<noteq> StSettling \<and> li_stage i \<noteq> StCanceling
             then Some (PErr ''acquisition settlement is not durable'')
             else PassportExecution (cb_wire B) (cb_transport B) tr (t\<lparr>ct_type := TSettleAcquisition\<rparr>)))"

text \<open>Inspection first lets the server reap an expired passport of the path.\<close>

definition Inspect_ctl ::
    "control_backend \<Rightarrow> (string \<Rightarrow> metadata option) \<Rightarrow> gotime \<Rightarrow> ptrace \<Rightarrow> string \<Rightarrow> (perr, lock option) result" where
  "Inspect_ctl B parse now tr path =
     (case sc_lock_info (cb_svn B) tr path of
        Inl e \<Rightarrow> Inl e
      | Inr None \<Rightarrow> Inr None
      | Inr (Some l) \<Rightarrow>
         if \<not> cb_fence B \<or> parse (lk_comment l) = None then Inr (Some l)
         else (case relative B path of
             None \<Rightarrow> Inl (PErr ''control passport requires absolute WC and target'')
           | Some rel \<Rightarrow>
              (case new_ctl_ticket B tr 5 TExpirePath (ExecutionPayload (cb_repo_id B) rel '''') now of
                 Inl e \<Rightarrow> Inl e
               | Inr t \<Rightarrow>
                  (case PassportExecution (cb_wire B) (cb_transport B) tr t of
                     Some e \<Rightarrow> Inl e
                   | None \<Rightarrow> sc_lock_info (cb_svn B) (tr @ [(EvInspectLock path, [])]) path))))"

text \<open>The environment of a manager that runs on this backend; the other answers come from \<open>E\<close>.\<close>

definition control_env :: "control_backend \<Rightarrow> penv \<Rightarrow> penv" where
  "control_env B E = E\<lparr>
     pe_durable := True, pe_settler := True,
     pe_inspect := (\<lambda>tr path. Inspect_ctl B (pe_parse E) (pe_now E tr 50) tr path),
     pe_lock := (\<lambda>_ _ _ _. Inl (PErr ''control passport backend requires a durable lock intent'')),
     pe_unlock := sc_unlock (cb_svn B),
     pe_new_intent := NewLockIntent B, pe_validate := ValidateLockIntent B,
     pe_prepare := PrepareLockIntent B, pe_aborted := (\<lambda>e t. e = AbortedPreparation t),
     pe_acquire := AcquireLockIntentReceipt B, pe_confirm := ConfirmLockIntent B,
     pe_reconcile := ReconcileCompletedLockIntent B, pe_cancel := CancelLockIntent B,
     pe_settle := SettleLockIntent B, pe_format := cb_format B\<rparr>"

section \<open>The interface the manager relies on\<close>

text \<open>
  A durable intent backend: a new intent is validated, starts at \<open>prepare\<close> and keeps the
  lifetime and identity it was given; a confirmation returns a token that carries the
  intent's own comment.
\<close>

locale intent_backend =
  fixes new_intent :: "ptrace \<Rightarrow> string \<Rightarrow> metadata \<Rightarrow> mode \<Rightarrow> gotime \<Rightarrow> (perr, lock_intent) result"
    and validate :: "string \<Rightarrow> lock_intent \<Rightarrow> perr option"
    and confirm :: "ptrace \<Rightarrow> string \<Rightarrow> lock_intent \<Rightarrow> (perr, lock option) result"
    and format :: "metadata \<Rightarrow> string"
  assumes new_prepared: "new_intent tr path m md now = Inr i \<Longrightarrow> li_stage i = StPrepare"
    and new_validated: "new_intent tr path m md now = Inr i \<Longrightarrow> validate path i = None"
    and new_metadata: "new_intent tr path m md now = Inr i \<Longrightarrow>
      \<exists>a. li_metadata i = m\<lparr>md_acquisition_id := a\<rparr>"
    and validated_lifetime: "validate path i = None \<Longrightarrow>
      md_issued_at (li_metadata i) < md_expires_at (li_metadata i)
      \<and> md_expires_at (li_metadata i) \<le> md_hard_expires_at (li_metadata i)"
    and confirmed_bound: "confirm tr path i = Inr (Some l) \<Longrightarrow>
      lk_token l \<noteq> '''' \<and> lk_comment l = format (li_metadata i)"
begin

lemma new_lifetime:
  assumes "new_intent tr path m md now = Inr i"
  shows "md_issued_at m < md_expires_at m \<and> md_expires_at m \<le> md_hard_expires_at m"
  using new_metadata [OF assms] validated_lifetime [OF new_validated [OF assms]] by auto

end

lemma some_acquisition_id: "\<exists>a. m = m\<lparr>md_acquisition_id := a\<rparr>" for m :: metadata
  by (rule exI [of _ "md_acquisition_id m"]) (cases m, simp)

interpretation control: intent_backend "NewLockIntent B" "ValidateLockIntent B" "ConfirmLockIntent B" "cb_format B" for B
proof
  fix tr path m md now i
  assume n: "NewLockIntent B tr path m md now = Inr i"
  then show "li_stage i = StPrepare" "ValidateLockIntent B path i = None"
    "\<exists>a. li_metadata i = m\<lparr>md_acquisition_id := a\<rparr>"
    by (auto simp: NewLockIntent_def Let_def some_acquisition_id split: option.splits sum.splits if_splits)
next
  fix path i assume "ValidateLockIntent B path i = None"
  then show "md_issued_at (li_metadata i) < md_expires_at (li_metadata i)
      \<and> md_expires_at (li_metadata i) \<le> md_hard_expires_at (li_metadata i)"
    by (auto simp: ValidateLockIntent_def Let_def split: option.splits if_splits)
next
  fix tr path i l assume "ConfirmLockIntent B tr path i = Inr (Some l)"
  then show "lk_token l \<noteq> '''' \<and> lk_comment l = cb_format B (li_metadata i)"
    by (auto simp: ConfirmLockIntent_def receipt_bound_def split: option.splits sum.splits if_splits)
qed

end
