(* ===== verification/Passport_Inv.thy ===== *)
theory Passport_Inv
  imports Passport_Backend
begin

text \<open>
  The invariant of the passport manager. Whatever sequence of operations ran, whatever the
  backend, the clock and the disk answered, every record in memory is one the next start
  accepts, and so is every version of the store that was ever on disk.
\<close>

section \<open>Well-formed records and states\<close>

definition entry_ok :: "penv \<Rightarrow> pconfig \<Rightarrow> string \<Rightarrow> passport \<Rightarrow> bool" where
  "entry_ok E C k p \<longleftrightarrow>
     pp_path p = k \<and> go_clean k = k \<and> pp_instance_uid p = pc_instance_uid C \<and> pp_passport_id p \<noteq> ''''
     \<and> pp_expires_at p \<le> pp_hard_expires_at p \<and> pp_hard_expires_at p = pp_issued_at p + pc_max_session C
     \<and> (pp_state p = PReleasing \<longrightarrow> pe_receipts E)
     \<and> (case pp_pending p of
          None \<Rightarrow> pp_state p \<noteq> PPending \<and> pp_token p \<noteq> ''''
        | Some i \<Rightarrow> pp_state p = PPending \<and> pp_token p = '''' \<and> pe_validate E (pp_path p) i = None
            \<and> pp_passport_id p = md_passport_id (li_metadata i)
            \<and> pp_instance_uid p = md_instance_uid (li_metadata i)
            \<and> pp_realm_id p = md_realm_id (li_metadata i) \<and> pp_issued_at p = md_issued_at (li_metadata i)
            \<and> pp_expires_at p = md_expires_at (li_metadata i)
            \<and> pp_hard_expires_at p = md_hard_expires_at (li_metadata i))"

definition passports_ok :: "penv \<Rightarrow> pconfig \<Rightarrow> (string, passport) assoc \<Rightarrow> bool" where
  "passports_ok E C m \<longleftrightarrow> wf_assoc m \<and> (\<forall>k p. map_of m k = Some p \<longrightarrow> entry_ok E C k p)"

definition disk_ok :: "penv \<Rightarrow> pconfig \<Rightarrow> passport list \<Rightarrow> bool" where
  "disk_ok E C d \<longleftrightarrow> distinct (map pp_path d) \<and> (\<forall>p \<in> set d. entry_ok E C (pp_path p) p)"

definition sound :: "penv \<Rightarrow> pconfig \<Rightarrow> pmgr \<Rightarrow> bool" where
  "sound E C s \<longleftrightarrow> passports_ok E C (pm_passports s) \<and> disk_ok E C (pm_disk s)
     \<and> (\<forall>(e, d) \<in> set (pm_trace s). disk_ok E C d)"

lemma passports_lookup: "passports_ok E C m \<Longrightarrow> map_of m k = Some p \<Longrightarrow> entry_ok E C k p"
  by (simp add: passports_ok_def)

lemma passports_elem: "passports_ok E C m \<Longrightarrow> (k, p) \<in> set m \<Longrightarrow> entry_ok E C k p"
  by (simp add: passports_ok_def wf_assoc_in_map_of)

lemma entry_path: "entry_ok E C k p \<Longrightarrow> pp_path p = k"
  by (simp add: entry_ok_def)

lemma sound_lookup: "sound E C s \<Longrightarrow> map_of (pm_passports s) k = Some p \<Longrightarrow> entry_ok E C k p"
  by (auto simp: sound_def passports_lookup)

lemma sound_held: "sound E C s \<Longrightarrow> map_of (pm_passports s) k = Some p \<Longrightarrow> entry_ok E C (pp_path p) p"
  using sound_lookup [of E C s k p] entry_path [of E C k p] by simp

lemma sound_entries: "sound E C s \<Longrightarrow> p \<in> snd ` set (pm_passports s) \<Longrightarrow> entry_ok E C (pp_path p) p"
  by (auto simp: sound_def dest!: passports_elem) (simp add: entry_path)

lemma passports_update:
  "passports_ok E C m \<Longrightarrow> entry_ok E C k p \<Longrightarrow> passports_ok E C (AList.update k p m)"
  by (auto simp: passports_ok_def)

lemma passports_delete: "passports_ok E C m \<Longrightarrow> passports_ok E C (AList.delete k m)"
  by (auto simp: passports_ok_def)

lemma distinct_map_sort_key: "distinct (map f xs) \<Longrightarrow> distinct (map f (sort_key g xs))"
  by (simp add: distinct_map)

lemma saved_list_ok:
  assumes "passports_ok E C (pm_passports s)"
  shows "disk_ok E C (saved_list s)"
proof -
  have paths: "pp_path (snd x) = fst x" if "x \<in> set (pm_passports s)" for x
    using passports_elem [OF assms, of "fst x" "snd x"] that by (simp add: entry_path)
  then have "map (pp_path \<circ> snd) (pm_passports s) = map fst (pm_passports s)" by simp
  moreover have "distinct (map fst (pm_passports s))" using assms by (simp add: passports_ok_def wf_assoc_def)
  ultimately have "distinct (map pp_path (map snd (pm_passports s)))" unfolding map_map by (simp only:)
  then have "distinct (map pp_path (saved_list s))"
    unfolding saved_list_def by (rule distinct_map_sort_key)
  moreover have "entry_ok E C (pp_path p) p" if "p \<in> set (saved_list s)" for p
    using that passports_elem [OF assms] entry_path by (fastforce simp: saved_list_def)
  ultimately show ?thesis by (simp add: disk_ok_def)
qed

section \<open>The steps every operation is made of\<close>

lemma sound_emit [simp]: "sound E C s \<Longrightarrow> sound E C (emit e s)"
  by (auto simp: sound_def emit_def)

lemma sound_put [simp]: "sound E C s \<Longrightarrow> entry_ok E C (pp_path p) p \<Longrightarrow> sound E C (put p s)"
  by (simp add: sound_def passports_update)

lemma sound_forget [simp]: "sound E C s \<Longrightarrow> sound E C (forget k s)"
  by (simp add: sound_def passports_delete)

lemma sound_save [simp]: "sound E C s \<Longrightarrow> sound E C (snd (saveLocked_pp F s))"
  by (auto simp: saveLocked_pp_def sound_def emit_def saved_list_ok split: save_outcome.split)

text \<open>Records that stay well formed.\<close>

lemma entry_cases_None:
  "entry_ok E C k p \<Longrightarrow> pp_state p \<noteq> PPending \<Longrightarrow> pp_pending p = None \<and> pp_token p \<noteq> ''''"
  by (auto simp: entry_ok_def split: option.splits)

lemma entry_settled_update:
  assumes "entry_ok E C (pp_path p) p" "pp_state p \<noteq> PPending"
    and "st \<noteq> PPending" "st = PReleasing \<Longrightarrow> pe_receipts E"
  shows "entry_ok E C (pp_path p) (p\<lparr>pp_state := st, pp_close_after := c\<rparr>)"
    and "entry_ok E C (pp_path p) (p\<lparr>pp_state := st\<rparr>)"
    and "entry_ok E C (pp_path p) (p\<lparr>pp_close_after := c\<rparr>)"
  using assms by (auto simp: entry_ok_def split: option.splits)

lemma entry_lost:
  "entry_ok E C (pp_path p) p \<Longrightarrow> pp_state p \<noteq> PPending \<Longrightarrow> entry_ok E C (pp_path p) (lost p)"
  unfolding lost_def by (rule entry_settled_update) simp_all

lemma entry_releasing:
  assumes "entry_ok E C (pp_path p) p" "pp_state p \<noteq> PPending" "pe_receipts E"
  shows "entry_ok E C (pp_path p) (releasing p)"
  using assms entry_settled_update(1) [OF assms(1,2), of PReleasing] by (simp add: releasing_def)

lemma lost_path [simp]: "pp_path (lost p) = pp_path p"
  by (simp add: lost_def)

section \<open>Operations on a pending reservation\<close>

text \<open>
  The manager on a durable intent backend: besides what every intent backend promises, the
  validation depends on the stage only as the manager's stage changes allow, and a valid
  intent names its passport.
\<close>

locale manager_env =
  intent_backend "pe_new_intent E" "pe_validate E" "pe_confirm E" "pe_format E" for E :: penv +
  fixes C :: pconfig
  assumes durable_env: "pe_durable E"
    and validate_stage: "pe_validate E path i = None \<Longrightarrow>
      st = StLocking \<or> st = StChecking \<or> st = StCanceling \<or> st = StSettling \<and> li_acquisition i \<noteq> None \<Longrightarrow>
      pe_validate E path (i\<lparr>li_stage := st\<rparr>) = None"
    and validated_id: "pe_validate E path i = None \<Longrightarrow> md_passport_id (li_metadata i) \<noteq> ''''"
begin

abbreviation ok :: "passport \<Rightarrow> bool" where
  "ok p \<equiv> entry_ok E C (pp_path p) p"

lemma with_stage_ok:
  assumes "ok p" "pp_pending p = Some i"
    and "st = StLocking \<or> st = StChecking \<or> st = StCanceling \<or> st = StSettling \<and> li_acquisition i \<noteq> None"
  shows "entry_ok E C (pp_path p) (with_stage st p i)"
proof -
  have "pe_validate E (pp_path p) i = None" using assms(1,2) by (simp add: entry_ok_def)
  then have "pe_validate E (pp_path p) (i\<lparr>li_stage := st\<rparr>) = None" using assms(3) by (rule validate_stage)
  with assms(1,2) show ?thesis by (auto simp: entry_ok_def with_stage_def)
qed

lemma sound_retire: "sound E C s \<Longrightarrow> ok p \<Longrightarrow> sound E C (snd (retirePending E s p c))"
  by (simp add: retirePending_def case_prod_unfold split: option.split)

lemma sound_settle:
  assumes "sound E C s" "ok p"
  shows "sound E C (snd (settlePending E s p))"
proof (cases "pp_pending p")
  case (Some i)
  have "entry_ok E C (pp_path p) (with_stage StSettling p i)" if "li_acquisition i \<noteq> None"
    using with_stage_ok [OF assms(2) Some] that by blast
  with assms Some show ?thesis
    by (simp add: settlePending_def Let_def failing_def case_prod_unfold sound_retire split: option.split)
qed (use assms in \<open>simp add: settlePending_def\<close>)

lemma sound_cancel:
  assumes "sound E C s" "ok p"
  shows "sound E C (snd (cancelPending E s p))"
proof (cases "pp_pending p")
  case (Some i)
  have "entry_ok E C (pp_path p) (with_stage StCanceling p i)"
    using with_stage_ok [OF assms(2) Some] by blast
  with assms Some show ?thesis
    by (simp add: cancelPending_def Let_def failing_def case_prod_unfold sound_retire split: option.split)
qed (use assms in \<open>simp add: cancelPending_def\<close>)

lemma confirmed_ok:
  assumes "ok p" "pp_pending p = Some i" "tok \<noteq> ''''"
  shows "entry_ok E C (pp_path p) (p\<lparr>pp_pending := None, pp_state := PActive, pp_token := tok, pp_heartbeat_at := h\<rparr>)"
  using assms by (auto simp: entry_ok_def)

lemma sound_resolve:
  assumes "sound E C s" "ok p" "pp_pending p = Some i"
  shows "sound E C (snd (resolve E s p i r))"
  using assms sound_settle [OF assms(1,2)] confirmed_ok [OF assms(2,3)]
  by (simp add: resolve_def unresolved_def activate_def Let_def case_prod_unfold split: sum.split option.split)

lemma sound_finish:
  assumes "sound E C s" "ok p" "pp_pending p = Some i"
  shows "sound E C (snd (resume_finish E s p i acq st))"
  using assms
  by (simp add: resume_finish_def Let_def failing_def case_prod_unfold sound_resolve sound_retire
      split: sum.split option.split)

lemma sound_prepare:
  assumes "sound E C s" "ok p" "pp_pending p = Some i"
  shows "sound E C (snd (resume_prepare E s p i))"
proof -
  have 1: "entry_ok E C (pp_path p) (with_stage StLocking p i)"
    using with_stage_ok [OF assms(2,3)] by blast
  have 2: "entry_ok E C (pp_path p) (with_stage StChecking (with_stage StLocking p i) (i\<lparr>li_stage := StLocking\<rparr>))"
    using with_stage_ok [of "with_stage StLocking p i" _ StChecking] 1 by simp
  show ?thesis using assms 1 2
    by (simp add: resume_prepare_def Let_def failing_def case_prod_unfold sound_cancel sound_retire sound_finish
        split: sum.split option.split)
qed

lemma sound_resume: "sound E C s \<Longrightarrow> ok p \<Longrightarrow> sound E C (snd (resumePending E s p))"
  by (simp add: resumePending_def Let_def sound_settle sound_cancel sound_prepare sound_finish split: option.split)

lemma sound_begin:
  assumes "sound E C s" "go_clean path = path" "md_instance_uid m = pc_instance_uid C"
    and "md_hard_expires_at m = md_issued_at m + pc_max_session C"
  shows "sound E C (snd (beginPending E s path m md c))"
proof (cases "pe_new_intent E (pm_trace s) path m md (pe_now E (pm_trace s) 0)")
  case (Inr i)
  note v = new_validated [OF Inr]
  show ?thesis using assms Inr v validated_id [OF v] validated_lifetime [OF v] new_metadata [OF Inr]
    by (auto simp: beginPending_def Let_def entry_ok_def intro!: sound_resume sound_put)
qed (use assms in \<open>simp add: beginPending_def\<close>)

end

section \<open>Operations of the manager\<close>

lemma cleanPaths_clean: "path \<in> set (cleanPaths ps) \<Longrightarrow> go_clean path = path"
  by (auto simp: cleanPaths_def go_clean_idem)

lemma sound_release_finish:
  "sound E C s \<Longrightarrow> entry_ok E C (pp_path p) p \<Longrightarrow> sound E C (snd (release_finish F p s))"
  by (simp add: release_finish_def case_prod_unfold split: option.split)

lemma sound_release_live:
  assumes "sound E C s" "entry_ok E C (pp_path p) p" "pp_state p \<noteq> PPending"
  shows "sound E C (snd (release_live F p s))"
  using assms entry_settled_update(2) [OF assms(2,3), of PLost]
  by (simp add: release_live_def Let_def case_prod_unfold sound_release_finish split: option.split sum.split)

lemma sound_releaseWithReceipt:
  assumes "sound E C s" "entry_ok E C (pp_path p) p" "pp_state p \<noteq> PPending" "pe_receipts E"
  shows "sound E C (snd (releaseWithReceipt F s p))"
  using assms entry_releasing [OF assms(2-4)]
  by (simp add: releaseWithReceipt_def Let_def case_prod_unfold sound_release_finish sound_release_live
      split: option.split sum.split)

lemma sound_forgets: "sound E C s \<Longrightarrow> sound E C (fold forget ks s)"
  by (induction ks arbitrary: s) simp_all

lemma sound_same_realm: "sound E C s \<Longrightarrow> sound E C (snd (same_realm F C s realm path info meta))"
  by (simp add: same_realm_def Let_def split: option.split sum.split)

lemma sound_observe_hold: "sound E C s \<Longrightarrow> sound E C (snd (observe_hold F C s view p))"
  by (simp add: observe_hold_def inspect_live_def Let_def split: option.split)

lemma sound_inspector: "sound E C s \<Longrightarrow> sound E C (fst (snd (heartbeatInspector F C s cache p)))"
  by (simp add: heartbeatInspector_def inspect_live_def Let_def case_prod_unfold sound_observe_hold
      split: option.split sum.split)

lemma sound_release_fail: "sound E C s \<Longrightarrow> sound E C (snd (release_fail F s ch cause))"
  by (simp add: release_fail_def case_prod_unfold split: option.split)

lemma sound_release_loop: "sound E C s \<Longrightarrow> sound E C (snd (release_loop E s ch paths))"
proof (induction paths arbitrary: s ch)
  case (Cons path paths)
  show ?case
  proof (cases "map_of (pm_passports s) path")
    case (Some p)
    then have e: "entry_ok E C (pp_path p) p" using Cons.prems by (rule sound_held [rotated])
    show ?thesis using Cons e Some entry_lost [OF e]
      by (simp add: Let_def case_prod_unfold sound_release_fail sound_releaseWithReceipt
          split: option.split sum.split)
  qed (use Cons.prems in \<open>simp add: sound_release_fail\<close>)
qed simp

lemma sound_relall_one:
  assumes "sound E C s" "entry_ok E C (pp_path p) p"
  shows "sound E C (snd (relall_one E s p))"
  using assms entry_settled_update(2) [OF assms(2), of PLost]
  by (simp add: relall_one_def Let_def sound_releaseWithReceipt split: option.split sum.split)

lemma sound_relall_loop:
  "sound E C s \<Longrightarrow> \<forall>p \<in> set ps. entry_ok E C (pp_path p) p \<Longrightarrow> sound E C (snd (relall_loop E s first ps))"
  by (induction ps arbitrary: s first) (simp_all add: case_prod_unfold sound_relall_one)

lemma sound_authorize_loop: "sound E C s \<Longrightarrow> sound E C (snd (authorize_loop F s now paths))"
proof (induction paths arbitrary: s)
  case (Cons path paths)
  show ?case
  proof (cases "map_of (pm_passports s) path")
    case (Some p)
    then have e: "entry_ok E C (pp_path p) p" using Cons.prems by (rule sound_held [rotated])
    show ?thesis using Cons e Some entry_lost [OF e]
      by (simp add: Let_def split: option.split sum.split)
  qed (use Cons.prems in simp)
qed simp

lemma sound_mark_loop: "sound E C s \<Longrightarrow> sound E C (fst (mark_loop d s ch paths))"
proof (induction paths arbitrary: s ch)
  case (Cons path paths)
  show ?case
  proof (cases "map_of (pm_passports s) path")
    case (Some p)
    then have e: "entry_ok E C (pp_path p) p" using Cons.prems by (rule sound_held [rotated])
    show ?thesis using Cons e Some entry_settled_update(3) [OF e, of PActive] by simp
  qed (use Cons in simp)
qed simp

lemma sound_touch: "sound E C s \<Longrightarrow> sound E C (Touch F s path)"
proof (cases "map_of (pm_passports s) (go_clean path)")
  case (Some p)
  assume s: "sound E C s"
  then have e: "entry_ok E C (pp_path p) p" using Some by (rule sound_held)
  show ?thesis using s Some e entry_settled_update(3) [OF e, of PActive] by (simp add: Touch_def)
qed (simp add: Touch_def)

context manager_env
begin

lemma new_metadata_instance:
  "md_instance_uid (new_metadata E C s now realm info) = pc_instance_uid C"
  "md_hard_expires_at (new_metadata E C s now realm info)
   = md_issued_at (new_metadata E C s now realm info) + pc_max_session C"
  by (simp_all add: new_metadata_def Let_def)

lemma sound_acquire_new:
  "sound E C s \<Longrightarrow> go_clean path = path \<Longrightarrow> sound E C (snd (acquire_new E C s now realm path info))"
  using sound_begin [of s path "new_metadata E C s now realm info" _ 0]
  by (cases info) (simp_all add: acquire_new_def durable_env Let_def case_prod_unfold new_metadata_instance split: sum.split)

lemma sound_acquire_held:
  "sound E C s \<Longrightarrow> go_clean path = path \<Longrightarrow> sound E C (snd (acquire_held E C s now realm path info))"
  using sound_same_realm [of E C s E realm path info]
  by (simp add: acquire_held_def acquire_foreign_def case_prod_unfold sound_acquire_new split: sum.split option.split)

lemma sound_acquire_one:
  assumes "sound E C s" "go_clean path = path"
  shows "sound E C (snd (acquire_one E C s now realm path))"
proof (cases "map_of (pm_passports s) path")
  case (Some p)
  then have "ok p" using assms(1) by (rule sound_held [rotated])
  with assms Some show ?thesis
    by (simp add: acquire_one_def acquire_inspect_def Let_def case_prod_unfold sound_acquire_new
        sound_acquire_held sound_resume split: sum.split option.split)
qed (use assms in \<open>simp add: acquire_one_def acquire_inspect_def Let_def sound_acquire_new
        sound_acquire_held split: sum.split option.split\<close>)

text \<open>On a durable backend no lock of a call is ever rolled back.\<close>

lemma acquire_one_not_new: "acquire_one E C s now realm path = (AcqOk p new, t) \<Longrightarrow> \<not> new"
  by (auto simp: acquire_one_def acquire_inspect_def acquire_held_def acquire_foreign_def acquire_new_def
      durable_env Let_def split: option.splits sum.splits prod.splits if_splits)

lemma sound_acquire_loop:
  "sound E C s \<Longrightarrow> \<forall>path \<in> set paths. go_clean path = path \<Longrightarrow>
   sound E C (snd (acquire_loop E C s now realm acq [] paths))
   \<and> (\<forall>a n. fst (acquire_loop E C s now realm acq [] paths) = Inr (a, n) \<longrightarrow> n = [])"
proof (induction paths arbitrary: s acq)
  case (Cons path paths)
  obtain r t where one: "acquire_one E C s now realm path = (r, t)" by force
  have t: "sound E C t"
    using sound_acquire_one [of s path now realm] Cons.prems one by simp
  show ?case
  proof (cases r)
    case (AcqOk p new)
    then have "\<not> new" using acquire_one_not_new one by blast
    with Cons t one AcqOk show ?thesis by simp
  qed (use t one in \<open>simp add: rollback_def\<close>)
qed simp

lemma sound_acquire: "sound E C s \<Longrightarrow> sound E C (snd (Acquire E C s paths realm))"
  using sound_acquire_loop [of s "cleanPaths paths" "pe_now E (pm_trace s) 20" realm "[]"]
  by (auto simp: Acquire_def Let_def cleanPaths_clean case_prod_unfold rollback_def split: sum.split option.split)

lemma sound_acquire_owned_loop:
  "sound E C s \<Longrightarrow> sound E C (snd (acquire_owned_loop E C view local realm s ps))"
proof (induction ps arbitrary: s)
  case (Cons p ps)
  then show ?case using sound_acquire [of s "[p]" realm]
    by (simp add: case_prod_unfold split: option.split sum.split)
qed simp

lemma sound_hb_owned:
  assumes "sound E C s" "ok p" "pp_state p = PActive"
  shows "sound E C (snd (hb_owned E C s now p))"
proof -
  have "go_clean (pp_path p) = pp_path p" "pp_instance_uid p = pc_instance_uid C"
    "pp_hard_expires_at p = pp_issued_at p + pc_max_session C"
    using assms(2) by (simp_all add: entry_ok_def)
  then have "sound E C (snd (renew E C s now p))"
    using sound_begin [OF assms(1), of "pp_path p" "renew_metadata C now p" ModeRenew "pp_close_after p"]
    by (simp add: renew_def durable_env case_prod_unfold renew_metadata_def Let_def split: sum.split)
  then show ?thesis using assms entry_settled_update(1) [OF assms(2), of PExpired 0]
    by (simp add: hb_owned_def Let_def split: option.split)
qed

lemma sound_hb_one:
  assumes "sound E C s" "ok p"
  shows "sound E C (fst (snd (hb_one E C s cache now p)))"
  using assms entry_lost [OF assms(2)] sound_inspector [OF assms(1), of E cache p]
  by (simp add: hb_one_def case_prod_unfold sound_releaseWithReceipt sound_resume sound_hb_owned
      split: option.split sum.split)

lemma sound_hb_loop:
  "sound E C s \<Longrightarrow> \<forall>p \<in> set ps. ok p \<Longrightarrow> sound E C (snd (hb_loop E C s cache now first ps))"
  by (induction ps arbitrary: s cache first) (simp_all add: case_prod_unfold sound_hb_one)

end

section \<open>The manager on the control backend\<close>

lemma stage_irrelevant:
  "acquisition_valid B (i\<lparr>li_stage := st\<rparr>)
   = (case li_acquisition i of None \<Rightarrow> md_acquisition_id (li_metadata i) = '''' \<and> st \<noteq> StSettling
      | Some _ \<Rightarrow> acquisition_valid B i)"
  "replacement_valid B (i\<lparr>li_stage := st\<rparr>) rel = replacement_valid B i rel"
  by (simp_all add: acquisition_valid_def replacement_valid_def Let_def split: option.split)

lemma ValidateLockIntent_stage:
  assumes "ValidateLockIntent B path i = None"
    and "st = StLocking \<or> st = StChecking \<or> st = StCanceling \<or> st = StSettling \<and> li_acquisition i \<noteq> None"
  shows "ValidateLockIntent B path (i\<lparr>li_stage := st\<rparr>) = None"
proof -
  have "acquisition_valid B i"
    using assms(1) by (auto simp: ValidateLockIntent_def Let_def split: option.splits if_splits)
  then have "acquisition_valid B (i\<lparr>li_stage := st\<rparr>)"
    using assms(2) by (auto simp: stage_irrelevant(1) acquisition_valid_def [of B i] split: option.split)
  with assms show ?thesis
    by (auto simp: ValidateLockIntent_def Let_def stage_irrelevant(2) split: option.splits if_splits)
qed

lemma ValidateLockIntent_id: "ValidateLockIntent B path i = None \<Longrightarrow> md_passport_id (li_metadata i) \<noteq> ''''"
  by (auto simp: ValidateLockIntent_def Let_def uuid_parses_def split: option.splits if_splits)

lemma control_env_simps [simp]:
  "pe_new_intent (control_env B E) = NewLockIntent B" "pe_validate (control_env B E) = ValidateLockIntent B"
  "pe_confirm (control_env B E) = ConfirmLockIntent B" "pe_format (control_env B E) = cb_format B"
  "pe_durable (control_env B E)" "pe_receipts (control_env B E) = pe_receipts E"
  by (simp_all add: control_env_def)

interpretation managed: manager_env "control_env B E" C for B E C
  by unfold_locales (auto simp: control.new_prepared control.new_validated control.new_metadata
      control.validated_lifetime control.confirmed_bound ValidateLockIntent_stage ValidateLockIntent_id)

section \<open>Opening the store\<close>

lemma entry_loads: "entry_ok E C (pp_path p) p \<Longrightarrow> pe_durable E \<Longrightarrow> load_check E C p = None"
  by (auto simp: entry_ok_def load_check_def Let_def split: option.splits)

abbreviation by_path :: "passport list \<Rightarrow> (string, passport) assoc" where
  "by_path d \<equiv> map (\<lambda>p. (pp_path p, p)) d"

lemma load_disk:
  assumes "disk_ok E C d" "pe_durable E" "wf_assoc m" "\<forall>p \<in> set d. map_of m (pp_path p) = None"
  shows "\<exists>m'. load_pp E C m d = Inr m' \<and> wf_assoc m' \<and> map_of m' = map_of m ++ map_of (by_path d)"
  using assms
proof (induction d arbitrary: m)
  case (Cons p d)
  have e: "entry_ok E C (pp_path p) p" and d: "disk_ok E C d" "pp_path p \<notin> pp_path ` set d"
    using Cons.prems(1) by (auto simp: disk_ok_def)
  have c: "go_clean (pp_path p) = pp_path p" using e by (simp add: entry_ok_def)
  obtain m' where m': "load_pp E C (AList.update (pp_path p) p m) d = Inr m'" "wf_assoc m'"
      "map_of m' = map_of (AList.update (pp_path p) p m) ++ map_of (by_path d)"
    using d Cons.prems by (atomize_elim, intro Cons.IH) (auto simp: image_iff)
  have "pp_path p \<notin> dom (map_of (by_path d))"    using d(2) by (simp add: dom_map_of_conv_image_fst image_image)
  then have "(map_of m)(pp_path p \<mapsto> p) ++ map_of (by_path d) = map_of m ++ map_of (by_path (p # d))"
    by (simp only: map_add_upd_left not_False_eq_True list.map map_of.simps fst_conv snd_conv map_add_upd)
  with m' have "map_of m' = map_of m ++ map_of (by_path (p # d))" by (simp only: map_of_update')
  moreover have "load_pp E C m (p # d) = Inr m'" using m' c Cons.prems entry_loads [OF e] by simp
  ultimately show ?case using m'(2) by blast
qed simp

lemma map_of_saved:
  assumes "passports_ok E C (pm_passports s)"
  shows "map_of (by_path (saved_list s)) = map_of (pm_passports s)"
proof -
  have "distinct (map fst (by_path (saved_list s)))"
    using saved_list_ok [OF assms] by (simp add: disk_ok_def comp_def)
  moreover have "distinct (map fst (pm_passports s))" using assms by (simp add: passports_ok_def wf_assoc_def)
  moreover have "set (by_path (saved_list s)) = set (pm_passports s)"
  proof -
    have "pp_path (snd x) = fst x" if "x \<in> set (pm_passports s)" for x
      using passports_elem [OF assms, of "fst x" "snd x"] that by (simp add: entry_path)
    then show ?thesis by (simp add: saved_list_def image_image)
  qed
  ultimately show ?thesis by (simp add: map_of_inject_set)
qed

lemma by_path_Some: "map_of (by_path d) k = Some p \<Longrightarrow> p \<in> set d \<and> pp_path p = k"
  by (auto dest: map_of_SomeD)

text \<open>The settings \<open>Open\<close> accepts.\<close>

definition settings_ok :: "pconfig \<Rightarrow> bool" where
  "settings_ok C \<longleftrightarrow> config_ok C \<and> trim_space (pc_instance_uid C) \<noteq> ''''"

lemma open_disk:
  assumes "disk_ok E C d" "pe_durable E" "settings_ok C"
  shows "\<exists>t. Open E C d tr = Inr t \<and> wf_assoc (pm_passports t) \<and> map_of (pm_passports t) = map_of (by_path d)
    \<and> pm_disk t = d \<and> pm_trace t = tr"
  using load_disk [OF assms(1,2), of "[]"] assms(3) by (auto simp: Open_def settings_ok_def)

section \<open>Runs\<close>

datatype pop =
    OpAcquire "string list" string | OpAcquireOwned "string list" string | OpRelease "string list"
  | OpHeartbeat | OpReleaseAll | OpAuthorize "string list" | OpForget "string list"
  | OpTouch string | OpMark "string list" | OpRestart

fun apply_op :: "penv \<Rightarrow> pconfig \<Rightarrow> pop \<Rightarrow> pmgr \<Rightarrow> pmgr" where
  "apply_op E C (OpAcquire paths realm) s = snd (Acquire E C s paths realm)"
| "apply_op E C (OpAcquireOwned paths realm) s = snd (AcquireOwned E C s paths realm)"
| "apply_op E C (OpRelease paths) s = snd (Release_pp E s paths)"
| "apply_op E C OpHeartbeat s = snd (Heartbeat E C s)"
| "apply_op E C OpReleaseAll s = snd (ReleaseAll E s)"
| "apply_op E C (OpAuthorize paths) s = snd (authorize E s paths)"
| "apply_op E C (OpForget paths) s = ForgetRemoved E s paths"
| "apply_op E C (OpTouch path) s = Touch E s path"
| "apply_op E C (OpMark paths) s = MarkPublished E C s paths"
| "apply_op E C OpRestart s = (case Open E C (pm_disk s) (pm_trace s) of Inl _ \<Rightarrow> s | Inr t \<Rightarrow> t)"

definition first_start :: pmgr where
  "first_start = \<lparr>pm_passports = [], pm_disk = [], pm_trace = []\<rparr>"

definition run_ops :: "penv \<Rightarrow> pconfig \<Rightarrow> pop list \<Rightarrow> pmgr" where
  "run_ops E C ops = fold (apply_op E C) ops first_start"

context manager_env
begin

lemma sound_restart: "sound E C s \<Longrightarrow> sound E C (apply_op E C OpRestart s)"
proof (cases "settings_ok C")
  case True
  assume s: "sound E C s"
  then have d: "disk_ok E C (pm_disk s)" by (simp add: sound_def)
  obtain t where t: "Open E C (pm_disk s) (pm_trace s) = Inr t" "wf_assoc (pm_passports t)"
      "map_of (pm_passports t) = map_of (by_path (pm_disk s))" "pm_disk t = pm_disk s" "pm_trace t = pm_trace s"
    using open_disk [OF d durable_env True] by blast
  have "passports_ok E C (pm_passports t)"
    using t(2,3) d by (auto simp: passports_ok_def disk_ok_def dest: by_path_Some)
  with s t show ?thesis by (simp add: sound_def)
next
  case False
  assume "sound E C s"
  with False show ?thesis by (auto simp: Open_def settings_ok_def)
qed

lemma sound_op: "sound E C s \<Longrightarrow> sound E C (apply_op E C op s)"
proof (cases op)
  case OpRestart
  assume "sound E C s"
  then show ?thesis unfolding OpRestart by (rule sound_restart)
next
  case (OpAcquireOwned paths realm)
  assume "sound E C s"
  then show ?thesis unfolding OpAcquireOwned
    by (simp add: AcquireOwned_def sound_acquire_owned_loop split: option.split sum.split)
next
  case (OpForget paths)
  assume "sound E C s"
  then show ?thesis unfolding OpForget by (simp add: ForgetRemoved_def Let_def sound_forgets)
qed (simp_all add: sound_acquire Release_pp_def sound_release_loop sound_touch
    Heartbeat_def sound_hb_loop ReleaseAll_def sound_relall_loop sound_entries authorize_def sound_authorize_loop
    MarkPublished_def case_prod_unfold sound_mark_loop)

lemma sound_run: "sound E C (run_ops E C ops)"
proof -
  have "sound E C s \<Longrightarrow> sound E C (fold (apply_op E C) ops s)" for s
    by (induction ops arbitrary: s) (simp_all add: sound_op)
  moreover have "sound E C first_start"
    by (simp add: first_start_def sound_def passports_ok_def disk_ok_def)
  ultimately show ?thesis unfolding run_ops_def by blast
qed

end

end
