(* ===== verification/Passport_Props.thy ===== *)
theory Passport_Props
  imports Passport_Inv
begin

text \<open>
  The properties of the passport manager: what is on disk always opens again and loses
  nothing, what the check before a publication guarantees, that nothing drops a reservation
  whose outcome is unknown, and when a lock may be taken over.
\<close>

section \<open>A sample backend\<close>

text \<open>A backend that grants every request, for evaluating the definitions on concrete inputs.\<close>

definition sample_wire :: wire where
  "sample_wire = \<lparr>wr_uuid_ok = (\<lambda>_. True)\<rparr>"

definition sample_transport :: transport where
  "sample_transport = \<lparr>
     tr_exchange = (\<lambda>_ _ t. Inr \<lparr>ca_operation_id = ct_operation_id t, ca_request_id = ct_request_id t,
        ca_type = ct_type t, ca_body = Inr (case ct_payload t of
           ExecutionPayload r p c \<Rightarrow> ExecutionProof r p c
         | ReplacementPayload r p l _ _ _ \<Rightarrow> ReplacementProof r p l)\<rparr>),
     tr_answer_ok = (\<lambda>_. True), tr_fault = (\<lambda>_ _. None), tr_aborted = (\<lambda>_ _. False),
     tr_cancellation = (\<lambda>_. (''c'', ''c''))\<rparr>"

definition sample_svn_locks :: svn_lock_client where
  "sample_svn_locks = \<lparr>sc_receipts = True, sc_observer = True, sc_acquirer = True,
     sc_lock_info = (\<lambda>tr _. Inr (if EvNewIntent ''/wc/a'' \<in> fst ` set tr
        then Some \<lparr>lk_token = ''t'', lk_owner = ''cl'', lk_comment = ''u''\<rparr> else None)),
     sc_unlock = (\<lambda>_ _. None), sc_lock = (\<lambda>_ _ _. None),
     sc_acquire = (\<lambda>_ _ c. Inr (Some \<lparr>lk_token = ''t'', lk_owner = ''cl'', lk_comment = c\<rparr>)),
     sc_confirm = (\<lambda>_ _ c. Inr (Some \<lparr>lk_token = ''t'', lk_owner = ''cl'', lk_comment = c\<rparr>)),
     sc_observe = (\<lambda>_ _. Inr (None, None))\<rparr>"

definition sample_backend :: control_backend where
  "sample_backend = \<lparr>cb_fence = True, cb_wc = ''/wc'', cb_repo_id = ''rp'', cb_client_id = ''cl'',
     cb_uuid = (\<lambda>_ _. ''u''), cb_ctx = (\<lambda>_ _. None), cb_format = md_passport_id,
     cb_wire = sample_wire, cb_transport = sample_transport, cb_svn = sample_svn_locks\<rparr>"

definition sample_pconfig :: pconfig where
  "sample_pconfig = \<lparr>pc_instance_uid = ''in'', pc_working_copy = ''/wc'', pc_ttl = 100,
     pc_heartbeat_interval = 10, pc_max_session = 1000, pc_close_grace = 5\<rparr>"

abbreviation sample_manager :: penv where
  "sample_manager \<equiv> control_env sample_backend sample_penv"

lemma sample_settings: "settings_ok sample_pconfig"
  by code_simp

lemma sample_acquired:
  "map_of (pm_passports (run_ops sample_manager sample_pconfig [OpAcquire [''/wc/a''] ''r''])) ''/wc/a''
   = Some sample_passport"
  by code_simp

section \<open>The store survives\<close>

lemma disk_ok_trace: "sound E C s \<Longrightarrow> d \<in> insert (pm_disk s) (snd ` set (pm_trace s)) \<Longrightarrow> disk_ok E C d"
  by (auto simp: sound_def)

text \<open>
  C6. The store always opens again. Whatever operations ran on the control backend, whatever
  it, the clock and the disk answered, and wherever the process died: each version of the
  passport store that was ever on disk is one \<open>Open\<close> accepts with the same settings.
\<close>

theorem store_always_opens:
  assumes "settings_ok C"
  shows "\<forall>d \<in> insert (pm_disk (run_ops (control_env B E) C ops))
                     (snd ` set (pm_trace (run_ops (control_env B E) C ops))).
           \<exists>t. Open (control_env B E) C d tr = Inr t"
proof
  fix d
  assume "d \<in> insert (pm_disk (run_ops (control_env B E) C ops))
                     (snd ` set (pm_trace (run_ops (control_env B E) C ops)))"
  then have "disk_ok (control_env B E) C d" by (rule disk_ok_trace [OF managed.sound_run])
  then show "\<exists>t. Open (control_env B E) C d tr = Inr t"
    using open_disk [OF _ managed.durable_env assms] by blast
qed

theorem store_always_opens_witness:
  "\<exists>t. Open sample_manager sample_pconfig
         (pm_disk (run_ops sample_manager sample_pconfig [OpAcquire [''/wc/a''] ''r'', OpRestart, OpHeartbeat])) [] = Inr t"
  using store_always_opens [OF sample_settings, of sample_backend sample_penv _ "[]"] by blast

text \<open>
  C31. A restart loses nothing: opening the list that a save writes gives back exactly the
  passports in memory, each under its own path.
\<close>

theorem restart_lossless:
  assumes "settings_ok C"
  shows "\<exists>t. Open (control_env B E) C (saved_list (run_ops (control_env B E) C ops)) tr = Inr t
    \<and> map_of (pm_passports t) = map_of (pm_passports (run_ops (control_env B E) C ops))"
proof -
  have ok: "passports_ok (control_env B E) C (pm_passports (run_ops (control_env B E) C ops))"
    using managed.sound_run by (simp add: sound_def)
  show ?thesis
    using open_disk [OF saved_list_ok [OF ok] managed.durable_env assms] map_of_saved [OF ok] by auto
qed

theorem restart_lossless_witness:
  "\<exists>t. Open sample_manager sample_pconfig
         (saved_list (run_ops sample_manager sample_pconfig [OpAcquire [''/wc/a''] ''r''])) [] = Inr t
     \<and> map_of (pm_passports t) ''/wc/a'' = Some sample_passport"
  using restart_lossless [OF sample_settings, of sample_backend sample_penv "[OpAcquire [''/wc/a''] ''r'']" "[]"]
  by (auto simp: sample_acquired)

text \<open>
  C33. Every passport the manager ever holds is filed under its own cleaned path, belongs to
  this instance, and expires no later than its hard limit, which is the maximal session after
  its issue, however often it is renewed. It has a fencing token exactly when it is not
  pending, and a pending one carries a valid intent for its path with the same lifetime.
\<close>

theorem reachable_records:
  assumes "map_of (pm_passports (run_ops (control_env B E) C ops)) k = Some p"
  shows "pp_path p = k \<and> go_clean k = k \<and> pp_instance_uid p = pc_instance_uid C
    \<and> pp_expires_at p \<le> pp_hard_expires_at p \<and> pp_hard_expires_at p = pp_issued_at p + pc_max_session C
    \<and> (pp_token p = '''' \<longleftrightarrow> pp_state p = PPending) \<and> (pp_state p = PPending \<longleftrightarrow> pp_pending p \<noteq> None)
    \<and> (\<forall>i. pp_pending p = Some i \<longrightarrow> ValidateLockIntent B k i = None
         \<and> pp_expires_at p = md_expires_at (li_metadata i) \<and> pp_issued_at p = md_issued_at (li_metadata i))"
  using sound_lookup [OF managed.sound_run assms] by (auto simp: entry_ok_def split: option.splits)

theorem reachable_records_witness:
  "pp_hard_expires_at sample_passport = pp_issued_at sample_passport + pc_max_session sample_pconfig
   \<and> pp_token sample_passport \<noteq> ''''"
  using reachable_records [OF sample_acquired] by (simp add: sample_passport_def)

section \<open>The check before publication\<close>

lemma authorize_loop_sound:
  assumes "authorize_loop E s now paths = (None, t)"
  shows "pm_passports t = pm_passports s \<and>
    (\<forall>qs path rs. paths = qs @ path # rs \<longrightarrow>
      (\<exists>p info. map_of (pm_passports s) path = Some p \<and> pp_state p = PActive \<and> now < pp_expires_at p
        \<and> pe_inspect E (pm_trace s @ map (\<lambda>q. (EvInspectLock q, pm_disk s)) qs) path = Inr info \<and> owns E p info))"
  using assms
proof (induction paths arbitrary: s)
  case (Cons path paths)
  let ?s = "emit (EvInspectLock path) s"
  obtain p info where p: "map_of (pm_passports s) path = Some p" "pp_state p = PActive" "now < pp_expires_at p"
      "pe_inspect E (pm_trace s) path = Inr info" "owns E p info" and rest: "authorize_loop E ?s now paths = (None, t)"
    using Cons.prems by (auto simp: Let_def split: option.splits sum.splits if_splits)
  have tr: "pm_trace ?s = pm_trace s @ [(EvInspectLock path, pm_disk s)]" by (simp add: emit_def)
  show ?case
  proof (intro conjI allI impI)
    show "pm_passports t = pm_passports s" using Cons.IH [OF rest] by simp
    fix qs q rs assume split: "path # paths = qs @ q # rs"
    show "\<exists>p info. map_of (pm_passports s) q = Some p \<and> pp_state p = PActive \<and> now < pp_expires_at p
        \<and> pe_inspect E (pm_trace s @ map (\<lambda>q. (EvInspectLock q, pm_disk s)) qs) q = Inr info \<and> owns E p info"
    proof (cases qs)
      case (Cons q0 qs')
      with split have "paths = qs' @ q # rs" "q0 = path" by auto
      with Cons.IH [OF rest] Cons tr show ?thesis by simp
    qed (use p split in auto)
  qed
qed simp

text \<open>
  C38. When \<open>authorize\<close> lets a publication pass, then for each path, at the moment of the
  check, the manager held an active passport that had not expired, and a live inspection of
  that very path, made during the check and after those of the paths before it, showed the
  lock with the passport's own token, identifier and instance. No record was changed.
\<close>

theorem authorize_sound:
  assumes "authorize E s paths = (None, t)" "cleanPaths paths = qs @ path # rs"
  shows "pm_passports t = pm_passports s \<and>
    (\<exists>p info. map_of (pm_passports s) path = Some p \<and> pp_state p = PActive
      \<and> pe_now E (pm_trace s) 40 < pp_expires_at p
      \<and> pe_inspect E (pm_trace s @ map (\<lambda>q. (EvInspectLock q, pm_disk s)) qs) path = Inr info \<and> owns E p info)"
  using authorize_loop_sound [OF assms(1) [unfolded authorize_def]] assms(2) by blast

lemma sample_authorized: "fst (authorize sample_manager sample_held [''/wc/a'']) = None"
  by code_simp

lemma sample_clean: "cleanPaths [''/wc/a''] = [] @ ''/wc/a'' # []"
  by code_simp

theorem authorize_sound_witness:
  "\<exists>p info. map_of (pm_passports sample_held) ''/wc/a'' = Some p \<and> owns sample_manager p info"
  using authorize_sound [OF surjective_pairing [of "authorize sample_manager sample_held [''/wc/a'']",
      unfolded sample_authorized] sample_clean] by blast

end
