(* ===== verification/Passport_Safety.thy ===== *)
theory Passport_Safety
  imports Passport_Props
begin

text \<open>
  Safety of the passport manager: no operation but a resumption touches a reservation whose
  outcome is unknown, a lock seen on the server is taken over only for its owner, and a path
  that passes validation cannot leave the working copy.
\<close>

section \<open>Pending reservations are kept\<close>

lemma save_passports [simp]: "pm_passports (snd (saveLocked_pp E s)) = pm_passports s"
  using save_effect(1) [of E s "fst (saveLocked_pp E s)" "snd (saveLocked_pp E s)"] by simp

lemma release_finish_keeps:
  "pp_path p \<noteq> k \<Longrightarrow> map_of (pm_passports (snd (release_finish E p s))) k = map_of (pm_passports s) k"
  by (simp add: release_finish_def case_prod_unfold split: option.split)

lemma release_live_keeps:
  "pp_path p \<noteq> k \<Longrightarrow> map_of (pm_passports (snd (release_live E p s))) k = map_of (pm_passports s) k"
  by (simp add: release_live_def Let_def case_prod_unfold release_finish_keeps split: option.split sum.split)

lemma release_keeps:
  assumes "pp_path p \<noteq> k"
  shows "map_of (pm_passports (snd (releaseWithReceipt E s p))) k = map_of (pm_passports s) k"
proof -
  have "pp_path (releasing p) \<noteq> k" using assms by simp
  note keeps = release_finish_keeps [OF this] release_live_keeps [OF this]
  show ?thesis using assms
    by (simp add: releaseWithReceipt_def Let_def case_prod_unfold keeps split: option.split sum.split)
qed

lemma release_fail_keeps: "pm_passports (snd (release_fail E s ch c)) = pm_passports s"
  by (simp add: release_fail_def case_prod_unfold split: option.split)

lemma other_path:
  assumes "sound E C s" "map_of (pm_passports s) k = Some p" "pp_state p = PPending"
    and "map_of (pm_passports s) q = Some r" "pp_state r \<noteq> PPending"
  shows "pp_path r = q \<and> q \<noteq> k \<and> k \<noteq> q"
  using assms sound_lookup [OF assms(1) assms(4)] entry_path by (metis option.inject)

lemma release_loop_pending:
  assumes "sound E C s" "map_of (pm_passports s) k = Some p" "pp_state p = PPending"
  shows "map_of (pm_passports (snd (release_loop E s ch paths))) k = Some p"
  using assms
proof (induction paths arbitrary: s ch)
  case (Cons q paths)
  show ?case
  proof (cases "map_of (pm_passports s) q")
    case None
    with Cons.prems show ?thesis by (simp add: release_fail_keeps)
  next
    case (Some r)
    note e = sound_held [OF Cons.prems(1) Some]
    have sr: "sound E C (snd (releaseWithReceipt E s r))" if "pp_state r \<noteq> PPending" "pe_receipts E"
      using Cons.prems(1) e that by (rule sound_releaseWithReceipt)
    show ?thesis using Cons Some other_path [OF Cons.prems Some] sr
      by (cases "pp_state r = PPending")
        (simp_all add: Let_def case_prod_unfold release_fail_keeps release_keeps split: option.split sum.split)
  qed
qed simp

lemma relall_one_pending:
  assumes "pp_path r \<noteq> k \<or> pp_state r = PPending"
  shows "map_of (pm_passports (snd (relall_one E s r))) k = map_of (pm_passports s) k"
  using assms by (auto simp: relall_one_def Let_def release_keeps split: option.split sum.split)

lemma relall_loop_pending:
  "\<forall>r \<in> set ps. pp_path r \<noteq> k \<or> pp_state r = PPending \<Longrightarrow>
   map_of (pm_passports (snd (relall_loop E s first ps))) k = map_of (pm_passports s) k"
  by (induction ps arbitrary: s first) (simp_all add: case_prod_unfold relall_one_pending)

lemma authorize_loop_pending:
  assumes "sound E C s" "map_of (pm_passports s) k = Some p" "pp_state p = PPending"
  shows "map_of (pm_passports (snd (authorize_loop F s now paths))) k = Some p"
  using assms
proof (induction paths arbitrary: s)
  case (Cons q paths)
  show ?case
  proof (cases "map_of (pm_passports s) q")
    case (Some r)
    show ?thesis using Cons Some other_path [OF Cons.prems Some]
      by (cases "pp_state r = PPending") (simp_all add: Let_def split: option.split sum.split)
  qed (use Cons.prems in simp)
qed simp

lemma mark_loop_pending:
  assumes "sound E C s" "map_of (pm_passports s) k = Some p" "pp_state p = PPending"
  shows "map_of (pm_passports (fst (mark_loop d s ch paths))) k = Some p"
  using assms
proof (induction paths arbitrary: s ch)
  case (Cons q paths)
  show ?case
  proof (cases "map_of (pm_passports s) q")
    case (Some r)
    note e = sound_held [OF Cons.prems(1) Some]
    show ?thesis
    proof (cases "pp_state r = PActive")
      case True
      then have "pp_path r \<noteq> k" using other_path [OF Cons.prems Some] by simp
      moreover have "sound E C (put (r\<lparr>pp_close_after := d\<rparr>) s)"
        using Cons.prems(1) entry_settled_update(3) [OF e, of PActive] True by simp
      ultimately show ?thesis using Cons.IH Cons.prems Some True by simp
    qed (use Cons Some in simp)
  qed (use Cons in simp)
qed simp

lemma fold_forget_lookup: "k \<notin> set ks \<Longrightarrow> map_of (pm_passports (fold forget ks s)) k = map_of (pm_passports s) k"
  by (induction ks arbitrary: s) simp_all

lemma pending_entries:
  assumes "sound E C s" "map_of (pm_passports s) k = Some p" "pp_state p = PPending" "r \<in> snd ` set (pm_passports s)"
  shows "pp_path r \<noteq> k \<or> pp_state r = PPending"
proof -
  obtain q where "(q, r) \<in> set (pm_passports s)" using assms(4) by auto
  then have "map_of (pm_passports s) q = Some r"
    using assms(1) by (simp add: sound_def passports_ok_def wf_assoc_in_map_of)
  with assms other_path [OF assms(1-3)] show ?thesis by blast
qed

text \<open>The operations that do not resume reservations.\<close>

definition resumes :: "pop \<Rightarrow> bool" where
  "resumes op = (case op of OpAcquire _ _ \<Rightarrow> True | OpAcquireOwned _ _ \<Rightarrow> True | OpHeartbeat \<Rightarrow> True
     | OpRestart \<Rightarrow> True | _ \<Rightarrow> False)"

lemma op_pending_kept:
  assumes "sound E C s" "map_of (pm_passports s) k = Some p" "pp_state p = PPending" "\<not> resumes op"
  shows "map_of (pm_passports (apply_op E C op s)) k = Some p"
proof (cases op)
  case (OpForget paths)
  then show ?thesis using assms(2,3) by (simp add: ForgetRemoved_def Let_def fold_forget_lookup)
next
  case (OpTouch path)
  then show ?thesis using assms other_path [OF assms(1-3)] by (auto simp: Touch_def split: option.splits)
next
  case OpReleaseAll
  then show ?thesis using pending_entries [OF assms(1-3)] assms(2)
    by (simp add: ReleaseAll_def relall_loop_pending)
qed (use assms in \<open>simp_all add: resumes_def Release_pp_def release_loop_pending authorize_def authorize_loop_pending
    MarkPublished_def case_prod_unfold mark_loop_pending\<close>)


text \<open>A disk on which no save succeeds leaves the reservation of an acquisition pending.\<close>

lemma sample_unsaved:
  "map_option pp_state (map_of (pm_passports (run_ops (control_env sample_backend (sample_penv\<lparr>pe_save := \<lambda>_. SaveFail\<rparr>))
     sample_pconfig [OpAcquire [''/wc/a''] ''r''])) ''/wc/a'') = Some PPending"
  by code_simp


section \<open>Taking over a lock\<close>

text \<open>
  C27. Where the server's ownership observation is in use, a path that carries a lock is
  granted only if that lock is the one this manager already holds, with its token, or if the
  observation names the requesting realm both as the owner of the path and as the holder of
  that very lock. An expired or unreadable lock of anyone else is never taken over.
\<close>

theorem takeover_needs_owner:
  assumes "pe_ownership E = Some f" and "pe_inspect E (pm_trace s) path = Inr (Some info)"
    and "acquire_inspect E C s now realm path = (AcqOk p new, t)"
  shows "(map_of (pm_passports s) path = Some p \<and> pp_state p = PActive \<and> pp_token p = lk_token info)
    \<or> (realm \<noteq> '''' \<and> (\<exists>view rel hold. f (pm_trace s @ [(EvInspectLock path, pm_disk s)]) = Inr view
         \<and> go_rel (pc_working_copy C) path = Some rel \<and> map_of (ov_owners view) rel = Some realm
         \<and> map_of (ov_holds view) rel = Some hold \<and> oh_realm_id hold = realm \<and> oh_token hold = lk_token info))"
proof -
  let ?s = "emit (EvInspectLock path) s"
  have held: "acquire_held E C ?s now realm path info = (AcqOk p new, t)"
    using assms(2,3) by (simp add: acquire_inspect_def Let_def)
  then obtain meta where meta: "pe_parse E (lk_comment info) = Some meta"
    by (auto simp: acquire_held_def split: option.splits)
  show ?thesis
  proof (cases "acquire_foreign E C ?s now realm path info meta = (AcqOk p new, t)")
    case True
    then have "fst (same_realm E C ?s realm path info meta) = Inr True"
      using assms(1) by (auto simp: acquire_foreign_def case_prod_unfold split: sum.splits if_splits)
    then show ?thesis using assms(1)
      by (auto simp: same_realm_def Let_def emit_def split: if_splits sum.splits option.splits)
  next
    case False
    with held meta show ?thesis by (auto simp: acquire_held_def split: option.splits if_splits)
  qed
qed

definition sample_observed :: penv where
  "sample_observed = sample_penv\<lparr>
     pe_inspect := \<lambda>_ _. Inr (Some \<lparr>lk_token = ''t'', lk_owner = ''cl'', lk_comment = ''u''\<rparr>),
     pe_ownership := Some (\<lambda>_. Inr \<lparr>ov_owners = [(''a'', ''r'')], ov_holds = [], ov_observed_at = 1000\<rparr>)\<rparr>"

theorem takeover_needs_owner_witness:
  "\<exists>p t. acquire_inspect sample_observed sample_pconfig sample_held 1000 ''r'' ''/wc/a'' = (AcqOk p False, t)
     \<and> pp_token p = ''t''"
proof -
  obtain p t where ok: "acquire_inspect sample_observed sample_pconfig sample_held 1000 ''r'' ''/wc/a'' = (AcqOk p False, t)"
    by (simp add: acquire_inspect_def acquire_held_def sample_observed_def sample_penv_def sample_held_def
        sample_passport_def sample_parse_def Let_def)
  have own: "pe_ownership sample_observed
      = Some (\<lambda>_. Inr \<lparr>ov_owners = [(''a'', ''r'')], ov_holds = [], ov_observed_at = 1000\<rparr>)"
    and ins: "pe_inspect sample_observed (pm_trace sample_held) ''/wc/a''
      = Inr (Some \<lparr>lk_token = ''t'', lk_owner = ''cl'', lk_comment = ''u''\<rparr>)"
    by (simp_all add: sample_observed_def)
  show ?thesis using takeover_needs_owner [OF own ins ok] ok by auto
qed

section \<open>Paths on the wire\<close>

lemma clean_acc_plain:
  "\<forall>x \<in> set xs. x \<noteq> [] \<and> x \<noteq> ''.'' \<and> x \<noteq> ''..'' \<and> CHR ''/'' \<notin> set x \<Longrightarrow> clean_acc r xs"
  by (induction xs) auto

text \<open>
  A repository path that passes validation is relative, its own cleaned form and none of
  its segments is a parent reference, so joining it to the working copy cannot leave it.
\<close>

theorem validated_share_path:
  assumes "validatePublicSharePath v"
  shows "\<not> is_abs v \<and> go_clean v = v \<and> ''..'' \<notin> set (split_on CHR ''/'' v)"
proof -
  let ?segs = "split_on CHR ''/'' v"
  have "\<forall>x \<in> set ?segs. x \<noteq> [] \<and> x \<noteq> ''.'' \<and> x \<noteq> ''..'' \<and> CHR ''/'' \<notin> set x"
    using assms split_on_no_sep by (auto simp: validatePublicSharePath_def list_all_iff)
  moreover from this have "clean_acc False (rev ?segs)" by (intro clean_acc_plain) simp
  moreover have rel: "\<not> is_abs v" "v \<noteq> []" using assms by (auto simp: validatePublicSharePath_def is_abs_def)
  ultimately show ?thesis
    using clean_segs_fixed [of False "rev ?segs"] join_split_on [of "CHR ''/''" v] by (auto simp: go_clean_def)
qed

lemma sample_share_path: "validatePublicSharePath ''docs/a.txt''"
  by code_simp

theorem validated_share_path_witness: "go_clean ''docs/a.txt'' = ''docs/a.txt''"
  using validated_share_path [OF sample_share_path] by simp

end
