(* ===== verification/Anchor_Queue.thy ===== *)
theory Anchor_Queue
  imports Go_Lib
begin

text \<open>
  The queue of confirmed release intentions (\<open>pkg/anchorqueue/store.go\<close>): validation,
  admission, outcomes, and recovery when the queue is opened again. Canonical UUIDs, the
  Unicode upper-casing behind \<open>portablepath.CollisionKey\<close> and the size of the JSON encoding
  are the parameter \<open>aq_env\<close>; the outcome of each save and each reading of the clock are
  arguments. The text of an RFC 3339 time is represented by the instant it denotes, \<open>None\<close>
  standing for text that does not parse.
\<close>

section \<open>Records\<close>

record aq_payload =
  qp_server_id :: string
  qp_repo_id :: string
  qp_path :: string
  qp_action :: string
  qp_fingerprint :: string
  qp_intent_id :: string
  qp_files :: int

record aq_batch =
  qb_local_path :: string
  qb_path :: string
  qb_state :: string
  qb_completed :: int
  qb_total :: int
  qb_failure_code :: string
  qb_failure_key :: string
  qb_failure_detail :: string
  qb_failure_path :: string

record aq_result =
  qr_batch :: aq_batch
  qr_intent_id :: string
  qr_server_id :: string
  qr_repo_id :: string
  qr_updated_at :: "gotime option"
  qr_superseded :: bool

record aq_snapshot =
  sn_root_id :: string
  sn_paths :: "string list"

record aq_intent =
  qi_payload :: aq_payload
  qi_operation_id :: string
  qi_repo_url :: string
  qi_root :: string
  qi_snapshot :: "aq_snapshot option"
  qi_created_at :: gotime
  qi_result :: aq_result

record aq_env =
  ae_canonical_uuid :: "string \<Rightarrow> bool"
  ae_upper :: "string \<Rightarrow> string"
  ae_size :: "aq_intent list \<Rightarrow> nat option"

datatype aq_err = QFull | QConflict | QPoisoned | QInvalid string | QIo | QNotExist

datatype aq_file = NoFile | Unreadable | Document string "aq_intent list"

record aq_store =
  as_intents :: "aq_intent list"
  as_poisoned :: bool
  as_disk :: aq_file

abbreviation aq_schema :: string where
  "aq_schema \<equiv> ''filees.anchor-release-queue/v1''"

definition maxRecords :: nat where "maxRecords = 128"
definition maxPending :: nat where "maxPending = 32"

abbreviation intent_id :: "aq_intent \<Rightarrow> string" where
  "intent_id x \<equiv> qp_intent_id (qi_payload x)"

abbreviation state_of :: "aq_intent \<Rightarrow> string" where
  "state_of x \<equiv> qb_state (qr_batch (qi_result x))"

section \<open>Validation\<close>

definition hex_digit :: "char \<Rightarrow> bool" where
  "hex_digit c = (c \<in> set ''0123456789abcdefABCDEF'')"

text \<open>
  \<open>strings.EqualFold\<close> against a word of lower-case ASCII: each letter matches in either case,
  and \<open>s\<close> also matches the long s (U+017F), the one other character that folds to it.
\<close>

fun fold_matches :: "string \<Rightarrow> string \<Rightarrow> bool" where
  "fold_matches [] w = (w = [])"
| "fold_matches (c # cs) [] = False"
| "fold_matches (c # cs) (d # w) =
     (if c = d \<or> (d \<in> set ''abcdefghijklmnopqrstuvwxyz'' \<and> of_char c + (32 :: nat) = of_char d)
      then fold_matches cs w
      else (case cs of
          [] \<Rightarrow> False
        | c2 # cs2 \<Rightarrow> d = CHR ''s'' \<and> c = CHR 0xC5 \<and> c2 = CHR 0xBF \<and> fold_matches cs2 w))"

definition bad_part :: "string \<Rightarrow> bool" where
  "bad_part part =
     (part = ''..'' \<or> part = ''.'' \<or> part = '''' \<or> fold_matches part ''.svn'' \<or> fold_matches part ''.filees''
      \<or> (part \<noteq> '''' \<and> last part \<in> {CHR '' '', CHR ''.''}))"

abbreviation unsafe_chars :: string where
  "unsafe_chars \<equiv> [CHR 0x5C, CHR '':'', CHR 0x00, CHR 0x0D, CHR 0x0A, CHR 0x09]"

definition payload_ok :: "aq_env \<Rightarrow> aq_intent \<Rightarrow> bool" where
  "payload_ok E x =
     (let p = qi_payload x in
      ae_canonical_uuid E (qp_intent_id p)
      \<and> list_all hex_digit (qp_fingerprint p) \<and> length (qp_fingerprint p) = 64
      \<and> qp_action p = ''release'' \<and> qp_server_id p \<noteq> '''' \<and> qp_repo_id p \<noteq> ''''
      \<and> 0 < qp_files p \<and> qp_files p \<le> 20000 \<and> qp_path p \<noteq> '''' \<and> length (qp_path p) \<le> 32768
      \<and> qi_operation_id x \<noteq> '''' \<and> qi_repo_url x \<noteq> '''' \<and> is_abs (qi_root x) \<and> qi_created_at x \<noteq> 0
      \<and> (qp_path p = ''.'' \<or>
          \<not> contains_any (qp_path p) unsafe_chars \<and> go_clean (qp_path p) = qp_path p \<and> \<not> is_abs (qp_path p)
          \<and> \<not> list_ex bad_part (split_on CHR ''/'' (qp_path p))))"

definition member_ok :: "string \<Rightarrow> string \<Rightarrow> bool" where
  "member_ok root path =
     (path \<noteq> '''' \<and> \<not> is_abs path \<and> go_clean path = path \<and> \<not> contains_any path unsafe_chars
      \<and> (root = ''.'' \<or> has_prefix path (root @ ''/'')) \<and> \<not> list_ex bad_part (split_on CHR ''/'' path))"

definition snapshot_ok :: "aq_env \<Rightarrow> aq_intent \<Rightarrow> bool" where
  "snapshot_ok E x =
     (case qi_snapshot x of
        None \<Rightarrow> True
      | Some sn \<Rightarrow>
          sn_root_id sn \<noteq> '''' \<and> length (sn_root_id sn) \<le> 128
          \<and> int (length (sn_paths sn)) = qp_files (qi_payload x)
          \<and> list_all (member_ok (qp_path (qi_payload x))) (sn_paths sn)
          \<and> distinct (map (ae_upper E) (sn_paths sn))
          \<and> sum_list (map length (sn_paths sn)) \<le> 8 * 2 ^ 20)"

definition result_ok :: "aq_intent \<Rightarrow> bool" where
  "result_ok x =
     (let p = qi_payload x; r = qi_result x; b = qr_batch r; st = qb_state b;
          no_failure = (qb_failure_code b = '''' \<and> qb_failure_key b = '''') in
      qr_intent_id r = qp_intent_id p \<and> qr_server_id r = qp_server_id p \<and> qr_repo_id r = qp_repo_id p
      \<and> qb_local_path b = qi_root x \<and> qb_path b = qp_path p \<and> qb_total b = qp_files p
      \<and> 0 \<le> qb_completed b \<and> qb_completed b \<le> qb_total b \<and> qr_updated_at r \<noteq> None
      \<and> (st = ''attached'' \<longrightarrow> qb_completed b = qb_total b \<and> no_failure)
      \<and> (st = ''queued'' \<or> st = ''running'' \<longrightarrow> qb_completed b = 0 \<and> no_failure)
      \<and> (st = ''failed'' \<longrightarrow> qb_failure_code b \<noteq> '''' \<and> qb_failure_key b \<noteq> '''')
      \<and> (st = ''queued'' \<or> st = ''running'' \<or> st = ''attached'' \<or> st = ''failed''))"

definition valid_intent :: "aq_env \<Rightarrow> aq_intent \<Rightarrow> bool" where
  "valid_intent E x = (payload_ok E x \<and> snapshot_ok E x \<and> result_ok x)"

definition pending_intent :: "aq_intent \<Rightarrow> bool" where
  "pending_intent x = (state_of x = ''queued'' \<or> state_of x = ''running'')"

section \<open>Saving\<close>

definition save_queue :: "aq_env \<Rightarrow> save_outcome \<Rightarrow> aq_intent list \<Rightarrow> aq_store \<Rightarrow> aq_err option \<times> aq_store" where
  "save_queue E out next s =
     (case ae_size E next of
        None \<Rightarrow> (Some QIo, s\<lparr>as_poisoned := True\<rparr>)
      | Some n \<Rightarrow>
         if n \<ge> 2 ^ 20 then (Some QFull, s\<lparr>as_poisoned := True\<rparr>)
         else (case out of
             SaveOk \<Rightarrow> (None, s\<lparr>as_disk := Document aq_schema next\<rparr>)
           | SaveUnsynced \<Rightarrow> (Some QIo, s\<lparr>as_poisoned := True, as_disk := Document aq_schema next\<rparr>)
           | SaveFail \<Rightarrow> (Some QIo, s\<lparr>as_poisoned := True\<rparr>)))"

section \<open>Admission\<close>

definition same_snapshot :: "aq_snapshot option \<Rightarrow> aq_snapshot option \<Rightarrow> bool" where
  "same_snapshot given stored =
     (case given of
        None \<Rightarrow> True
      | Some g \<Rightarrow> (case stored of
            None \<Rightarrow> False
          | Some t \<Rightarrow> sn_root_id g = sn_root_id t \<and> sn_paths g = sn_paths t))"

definition new_intent_of ::
    "gotime \<Rightarrow> aq_payload \<Rightarrow> string \<Rightarrow> string \<Rightarrow> string \<Rightarrow> aq_snapshot option \<Rightarrow> aq_intent" where
  "new_intent_of now p operation url root snap =
     \<lparr>qi_payload = p, qi_operation_id = operation, qi_repo_url = url, qi_root = root, qi_snapshot = snap,
      qi_created_at = now,
      qi_result = \<lparr>qr_batch = \<lparr>qb_local_path = root, qb_path = qp_path p, qb_state = ''queued'', qb_completed = 0,
                     qb_total = qp_files p, qb_failure_code = '''', qb_failure_key = '''',
                     qb_failure_detail = '''', qb_failure_path = ''''\<rparr>,
                   qr_intent_id = qp_intent_id p, qr_server_id = qp_server_id p, qr_repo_id = qp_repo_id p,
                   qr_updated_at = Some now, qr_superseded = False\<rparr>\<rparr>"

definition supersede :: "aq_payload \<Rightarrow> aq_intent \<Rightarrow> aq_intent" where
  "supersede p x =
     (if pending_intent x then x
      else if qp_server_id (qi_payload x) = qp_server_id p \<and> qp_repo_id (qi_payload x) = qp_repo_id p
              \<and> qp_path (qi_payload x) = qp_path p
      then x\<lparr>qi_result := (qi_result x)\<lparr>qr_superseded := True\<rparr>\<rparr> else x)"

definition evictable :: "gotime \<Rightarrow> aq_intent \<Rightarrow> bool" where
  "evictable now x =
     (qr_superseded (qi_result x) \<and> \<not> pending_intent x \<and> time_sub now (qi_created_at x) > 24 * hour)"

fun evict :: "gotime \<Rightarrow> aq_intent list \<Rightarrow> aq_intent list option" where
  "evict now [] = None"
| "evict now (x # xs) = (if evictable now x then Some xs else map_option (Cons x) (evict now xs))"

definition admit ::
    "aq_env \<Rightarrow> save_outcome \<Rightarrow> aq_intent \<Rightarrow> aq_intent list \<Rightarrow> aq_store \<Rightarrow> (aq_err, aq_intent) result \<times> aq_store" where
  "admit E out x next s =
     (case ae_size E next of
        None \<Rightarrow> (Inl QIo, s)
      | Some n \<Rightarrow>
         if n \<ge> 2 ^ 20 then (Inl QFull, s)
         else (case save_queue E out next s of
             (Some e, s') \<Rightarrow> (Inl e, s')
           | (None, s') \<Rightarrow> (Inr x, s'\<lparr>as_intents := next\<rparr>)))"

definition EnqueueSnapshot ::
    "aq_env \<Rightarrow> save_outcome \<Rightarrow> gotime \<Rightarrow> aq_payload \<Rightarrow> string \<Rightarrow> string \<Rightarrow> string \<Rightarrow> aq_snapshot option
     \<Rightarrow> aq_store \<Rightarrow> (aq_err, aq_intent) result \<times> aq_store" where
  "EnqueueSnapshot E out now p operation url root snap s =
     (if as_poisoned s then (Inl QPoisoned, s)
      else (case find (\<lambda>x. intent_id x = qp_intent_id p) (as_intents s) of
          Some x \<Rightarrow>
            if qi_payload x \<noteq> p \<or> qi_operation_id x \<noteq> operation \<or> qi_repo_url x \<noteq> url \<or> qi_root x \<noteq> root
              then (Inl QConflict, s)
            else if \<not> same_snapshot snap (qi_snapshot x) then (Inl QConflict, s)
            else (Inr x, s)
        | None \<Rightarrow>
           (let x = new_intent_of now p operation url root snap;
                next = map (supersede p) (as_intents s) in
            if \<not> valid_intent E x then (Inl (QInvalid ''invalid release confirmation''), s)
            else if length (filter pending_intent (as_intents s)) \<ge> maxPending then (Inl QFull, s)
            else if length next \<ge> maxRecords then
              (case evict now next of
                 None \<Rightarrow> (Inl QFull, s)
               | Some kept \<Rightarrow> admit E out x (kept @ [x]) s)
            else admit E out x (next @ [x]) s)))"

definition Enqueue ::
    "aq_env \<Rightarrow> save_outcome \<Rightarrow> gotime \<Rightarrow> aq_payload \<Rightarrow> string \<Rightarrow> string \<Rightarrow> string
     \<Rightarrow> aq_store \<Rightarrow> (aq_err, aq_intent) result \<times> aq_store" where
  "Enqueue E out now p operation url root s = EnqueueSnapshot E out now p operation url root None s"

section \<open>Outcomes\<close>

definition outcome_of :: "gotime \<Rightarrow> aq_batch \<Rightarrow> aq_intent \<Rightarrow> aq_intent" where
  "outcome_of now b x =
     x\<lparr>qi_result := (qi_result x)\<lparr>
         qr_batch := b\<lparr>qb_local_path := (if qb_local_path b = '''' then qi_root x else qb_local_path b),
                       qb_path := (if qb_path b = '''' then qp_path (qi_payload x) else qb_path b),
                       qb_total := qp_files (qi_payload x)\<rparr>,
         qr_updated_at := Some now\<rparr>\<rparr>"

fun replace_first :: "string \<Rightarrow> aq_intent \<Rightarrow> aq_intent list \<Rightarrow> aq_intent list" where
  "replace_first i y [] = []"
| "replace_first i y (x # xs) = (if intent_id x = i then y # xs else x # replace_first i y xs)"

definition SetResult ::
    "aq_env \<Rightarrow> save_outcome \<Rightarrow> gotime \<Rightarrow> string \<Rightarrow> string \<Rightarrow> aq_batch \<Rightarrow> aq_store \<Rightarrow> aq_err option \<times> aq_store" where
  "SetResult E out now i expected b s =
     (if as_poisoned s then (Some QPoisoned, s)
      else (case find (\<lambda>x. intent_id x = i) (as_intents s) of
          None \<Rightarrow> (Some QNotExist, s)
        | Some x \<Rightarrow>
           if state_of x \<noteq> expected \<or> (expected \<noteq> ''queued'' \<and> expected \<noteq> ''running'') then (Some QConflict, s)
           else (let y = outcome_of now b x; next = replace_first i y (as_intents s) in
                 if \<not> valid_intent E y then (Some (QInvalid ''invalid release outcome''), s)
                 else (case save_queue E out next s of
                     (Some e, s') \<Rightarrow> (Some e, s')
                   | (None, s') \<Rightarrow> (None, s'\<lparr>as_intents := next\<rparr>)))))"

section \<open>Opening\<close>

text \<open>What was running when the process stopped becomes a failure; it is never replayed.\<close>

definition interrupted :: "gotime \<Rightarrow> aq_intent \<Rightarrow> aq_intent" where
  "interrupted now x =
     (if state_of x = ''running''
      then x\<lparr>qi_result := (qi_result x)\<lparr>
               qr_batch := (qr_batch (qi_result x))\<lparr>qb_state := ''failed'', qb_failure_code := ''HEAD-2025'',
                              qb_failure_key := ''head.release_queue_interrupted''\<rparr>,
               qr_updated_at := Some now\<rparr>\<rparr>
      else x)"

definition open_queue :: "aq_env \<Rightarrow> save_outcome \<Rightarrow> gotime \<Rightarrow> aq_file \<Rightarrow> (aq_err, aq_store) result \<times> aq_file" where
  "open_queue E out now disk =
     (case disk of
        NoFile \<Rightarrow> (Inr \<lparr>as_intents = [], as_poisoned = False, as_disk = NoFile\<rparr>, disk)
      | Unreadable \<Rightarrow> (Inl QIo, disk)
      | Document schema xs \<Rightarrow>
         if schema \<noteq> aq_schema \<or> length xs > maxRecords then (Inl (QInvalid ''invalid release queue''), disk)
         else if \<not> list_all (valid_intent E) xs \<or> \<not> distinct (map intent_id xs)
           then (Inl (QInvalid ''invalid release intent''), disk)
         else
           (let ys = map (interrupted now) xs;
                s = \<lparr>as_intents = ys, as_poisoned = False, as_disk = disk\<rparr> in
            if list_ex (\<lambda>x. state_of x = ''running'') xs then
              (case save_queue E out ys s of
                 (Some e, s') \<Rightarrow> (Inl e, as_disk s')
               | (None, s') \<Rightarrow> (Inr s', as_disk s'))
            else (Inr s, disk)))"

end
