(* ===== verification/Anchor_Queue_Inv.thy ===== *)
theory Anchor_Queue_Inv
  imports Anchor_Queue
begin

text \<open>
  What the release queue guarantees over any sequence of admissions, outcomes and restarts,
  with any outcome of every save: its bounds, that confirmed work is neither lost nor run
  again after it ended, and that a confirmation can be repeated safely.
\<close>

section \<open>The system\<close>

text \<open>The open store, if any, and the file. A restart opens whatever is on disk.\<close>

type_synonym aq_sys = "aq_store option \<times> aq_file"

datatype aq_op =
    QEnqueue save_outcome gotime aq_payload string string string "aq_snapshot option"
  | QSet save_outcome gotime string string aq_batch
  | QRestart save_outcome gotime

fun q_apply :: "aq_env \<Rightarrow> aq_op \<Rightarrow> aq_sys \<Rightarrow> aq_sys" where
  "q_apply E (QRestart out now) (_, d) =
     (case open_queue E out now d of (Inl _, d') \<Rightarrow> (None, d') | (Inr s, d') \<Rightarrow> (Some s, d'))"
| "q_apply E (QEnqueue out now p operation url root snap) (Some s, d) =
     (let t = snd (EnqueueSnapshot E out now p operation url root snap s) in (Some t, as_disk t))"
| "q_apply E (QSet out now i expected b) (Some s, d) =
     (let t = snd (SetResult E out now i expected b s) in (Some t, as_disk t))"
| "q_apply E _ (None, d) = (None, d)"

definition q_step :: "aq_env \<Rightarrow> aq_sys \<Rightarrow> aq_sys \<Rightarrow> bool" where
  "q_step E a b \<longleftrightarrow> (\<exists>op. b = q_apply E op a)"

definition q_init :: "aq_sys \<Rightarrow> bool" where
  "q_init a \<longleftrightarrow> a = (None, NoFile)"

section \<open>The invariant\<close>

definition queue_ok :: "aq_env \<Rightarrow> aq_intent list \<Rightarrow> bool" where
  "queue_ok E xs \<longleftrightarrow> list_all (valid_intent E) xs \<and> distinct (map intent_id xs)
     \<and> length xs \<le> maxRecords \<and> length (filter pending_intent xs) \<le> maxPending"

definition file_ok :: "aq_env \<Rightarrow> aq_file \<Rightarrow> bool" where
  "file_ok E d \<longleftrightarrow> d = NoFile \<or> (\<exists>xs. d = Document aq_schema xs \<and> queue_ok E xs)"

definition holds_file :: "aq_store \<Rightarrow> bool" where
  "holds_file s \<longleftrightarrow> as_poisoned s \<or> as_disk s = Document aq_schema (as_intents s)
     \<or> as_disk s = NoFile \<and> as_intents s = []"

definition store_ok :: "aq_env \<Rightarrow> aq_store \<Rightarrow> bool" where
  "store_ok E s \<longleftrightarrow> queue_ok E (as_intents s) \<and> file_ok E (as_disk s) \<and> holds_file s"

definition sys_ok :: "aq_env \<Rightarrow> aq_sys \<Rightarrow> bool" where
  "sys_ok E a \<longleftrightarrow> file_ok E (snd a) \<and> (\<forall>s. fst a = Some s \<longrightarrow> store_ok E s \<and> as_disk s = snd a)"

lemma pending_simps [simp]:
  "pending_intent (supersede p x) = pending_intent x" "intent_id (supersede p x) = intent_id x"
  "intent_id (interrupted now x) = intent_id x" "intent_id (outcome_of now b x) = intent_id x"
  by (auto simp: supersede_def pending_intent_def interrupted_def outcome_of_def)

lemma payload_snapshot_simps [simp]:
  "payload_ok E (x\<lparr>qi_result := r\<rparr>) = payload_ok E x" "snapshot_ok E (x\<lparr>qi_result := r\<rparr>) = snapshot_ok E x"
  by (simp_all add: payload_ok_def snapshot_ok_def Let_def split: option.split)

lemma valid_supersede [simp]: "valid_intent E x \<Longrightarrow> valid_intent E (supersede p x)"
  by (simp add: supersede_def valid_intent_def result_ok_def Let_def)

lemma valid_interrupted [simp]: "valid_intent E x \<Longrightarrow> valid_intent E (interrupted now x)"
  by (auto simp: interrupted_def valid_intent_def result_ok_def Let_def)

lemma evict_cases:
  "evict now xs = Some ys \<Longrightarrow> \<exists>as x bs. xs = as @ x # bs \<and> ys = as @ bs \<and> evictable now x"
proof (induction now xs arbitrary: ys rule: evict.induct)
  case (2 now x xs)
  show ?case
  proof (cases "evictable now x")
    case True
    with "2.prems" have "x # xs = [] @ x # xs \<and> ys = [] @ xs \<and> evictable now x" by simp
    then show ?thesis by blast
  next
    case False
    with "2.prems" obtain zs where "evict now xs = Some zs" "ys = x # zs" by auto
    moreover from this obtain as y bs where "xs = as @ y # bs" "zs = as @ bs" "evictable now y"
      using "2.IH" [OF False] by blast
    ultimately have "x # xs = (x # as) @ y # bs \<and> ys = (x # as) @ bs \<and> evictable now y" by simp
    then show ?thesis by blast
  qed
qed simp

lemma evict_subset: "evict now xs = Some ys \<Longrightarrow> set ys \<subseteq> set xs"
  by (auto dest!: evict_cases)

lemma queue_ok_append:
  assumes "queue_ok E xs" "valid_intent E x" "intent_id x \<notin> intent_id ` set xs"
    and "length xs < maxRecords" "length (filter pending_intent xs) < maxPending"
  shows "queue_ok E (xs @ [x])"
  using assms by (simp add: queue_ok_def)

lemma queue_ok_supersede: "queue_ok E xs \<Longrightarrow> queue_ok E (map (supersede p) xs)"
proof -
  assume q: "queue_ok E xs"
  have "filter pending_intent (map (supersede p) xs) = map (supersede p) (filter pending_intent xs)"
    by (simp add: filter_map comp_def)
  with q show ?thesis by (auto simp: queue_ok_def list_all_iff comp_def)
qed

lemma queue_ok_drop: "queue_ok E (as @ x # bs) \<Longrightarrow> queue_ok E (as @ bs)"
  by (auto simp: queue_ok_def split: if_splits)

lemma pending_drop: "evictable now x \<Longrightarrow> filter pending_intent (as @ x # bs) = filter pending_intent (as @ bs)"
  by (simp add: evictable_def)

lemma replace_first_props:
  assumes "intent_id y = i"
  shows "map intent_id (replace_first i y xs) = map intent_id xs"
    and "set (replace_first i y xs) \<subseteq> insert y (set xs)"
    and "length (replace_first i y xs) = length xs"
  using assms by (induction xs) auto

lemma replace_first_pending:
  assumes "find (\<lambda>x. intent_id x = i) xs = Some x" "pending_intent x"
  shows "length (filter pending_intent (replace_first i y xs)) \<le> length (filter pending_intent xs)"
  using assms by (induction xs) (auto split: if_splits)

lemma queue_ok_replace:
  assumes "queue_ok E xs" "find (\<lambda>x. intent_id x = i) xs = Some x" "pending_intent x" "intent_id y = i" "valid_intent E y"
  shows "queue_ok E (replace_first i y xs)"
  using assms replace_first_props [OF assms(4), of xs] replace_first_pending [OF assms(2,3), of y]
  by (auto simp: queue_ok_def list_all_iff subset_iff)

lemma interrupted_pending: "pending_intent (interrupted now x) \<Longrightarrow> pending_intent x"
  by (auto simp: interrupted_def pending_intent_def split: if_splits)

lemma queue_ok_interrupted: "queue_ok E xs \<Longrightarrow> queue_ok E (map (interrupted now) xs)"
proof -
  assume q: "queue_ok E xs"
  have "length (filter pending_intent (map (interrupted now) xs)) \<le> length (filter pending_intent xs)"
    by (induction xs) (auto dest: interrupted_pending)
  with q show ?thesis by (auto simp: queue_ok_def list_all_iff comp_def)
qed

text \<open>A save keeps the store sound when what it writes is sound.\<close>

lemma save_queue_ok:
  assumes "store_ok E s" "queue_ok E next"
  shows "fst (save_queue E out next s) = None \<Longrightarrow> store_ok E ((snd (save_queue E out next s))\<lparr>as_intents := next\<rparr>)"
    and "fst (save_queue E out next s) = Some e \<Longrightarrow> store_ok E (snd (save_queue E out next s))"
  using assms
  by (auto simp: save_queue_def store_ok_def file_ok_def holds_file_def split: option.splits save_outcome.splits if_splits)

lemma admit_ok: "store_ok E s \<Longrightarrow> queue_ok E next \<Longrightarrow> store_ok E (snd (admit E out x next s))"
  by (auto simp: admit_def case_prod_unfold save_queue_ok split: option.split)

lemma enqueue_ok:
  assumes "store_ok E s"
  shows "store_ok E (snd (EnqueueSnapshot E out now p operation url root snap s))"
proof (cases "find (\<lambda>x. intent_id x = qp_intent_id p) (as_intents s)")
  case None
  let ?x = "new_intent_of now p operation url root snap" and ?next = "map (supersede p) (as_intents s)"
  have fresh: "qp_intent_id p \<notin> intent_id ` set (as_intents s)" using None by (auto simp: find_None_iff)
  have q: "queue_ok E ?next" using assms by (simp add: store_ok_def queue_ok_supersede)
  have id: "intent_id ?x = qp_intent_id p" by (simp add: new_intent_of_def)
  have ids: "intent_id ` set ?next = intent_id ` set (as_intents s)" by (simp add: image_image)
  have pend: "filter pending_intent ?next = map (supersede p) (filter pending_intent (as_intents s))"
    by (simp add: filter_map comp_def)
  have "queue_ok E (kept @ [?x])"
    if ev: "evict now ?next = Some kept" and va: "valid_intent E ?x"
      and pe: "length (filter pending_intent (as_intents s)) < maxPending" for kept
  proof -
    obtain as y bs where e: "?next = as @ y # bs" "kept = as @ bs" "evictable now y"
      using evict_cases [OF ev] by blast
    have "intent_id ` set kept \<subseteq> intent_id ` set ?next" unfolding e by auto
    then have "intent_id ?x \<notin> intent_id ` set kept" using fresh id ids by auto
    moreover have "length (filter pending_intent kept) < maxPending"
      using pending_drop [OF e(3), of as bs] e pend pe by simp
    moreover have "length ?next \<le> maxRecords" using q by (simp only: queue_ok_def)
    then have "length kept < maxRecords" unfolding e by simp
    ultimately show ?thesis
      using queue_ok_append [of E kept ?x] queue_ok_drop [of E as y bs] q va e by simp
  qed
  moreover have "queue_ok E (?next @ [?x])"
    if "valid_intent E ?x" "length (filter pending_intent (as_intents s)) < maxPending" "length ?next < maxRecords"
    using queue_ok_append [OF q that(1)] that fresh id ids pend by simp
  ultimately show ?thesis using assms None
    by (auto simp: EnqueueSnapshot_def Let_def intro!: admit_ok split: option.split)
qed (use assms in \<open>simp add: EnqueueSnapshot_def\<close>)

lemma set_ok:
  assumes "store_ok E s"
  shows "store_ok E (snd (SetResult E out now i expected b s))"
proof (cases "find (\<lambda>x. intent_id x = i) (as_intents s)")
  case (Some x)
  let ?y = "outcome_of now b x" and ?next = "replace_first i (outcome_of now b x) (as_intents s)"
  have id: "intent_id ?y = i" using Some by (auto simp: find_Some_iff)
  have "queue_ok E ?next" if "pending_intent x" "valid_intent E ?y"
    using queue_ok_replace [OF _ Some that(1) id that(2)] assms by (simp add: store_ok_def)
  then show ?thesis
    using assms Some by (auto simp: SetResult_def Let_def case_prod_unfold pending_intent_def save_queue_ok split: option.split)
qed (use assms in \<open>simp add: SetResult_def\<close>)

lemma open_ok:
  assumes "file_ok E d" "open_queue E out now d = (r, d')"
  shows "file_ok E d' \<and> (\<forall>s. r = Inr s \<longrightarrow> store_ok E s \<and> as_disk s = d')"
proof (cases d)
  case (Document schema xs)
  then have q: "queue_ok E xs" and sc: "schema = aq_schema" using assms(1) by (auto simp: file_ok_def)
  note qi = queue_ok_interrupted [OF q, of now]
  show ?thesis
  proof (cases "list_ex (\<lambda>x. state_of x = ''running'') xs")
    case True
    then show ?thesis using assms q qi Document sc
      by (auto simp: open_queue_def queue_ok_def [of E xs] file_ok_def Let_def save_queue_def store_ok_def holds_file_def
          split: option.splits save_outcome.splits if_splits)
  next
    case False
    then have "map (interrupted now) xs = xs" by (induction xs) (auto simp: interrupted_def)
    with False show ?thesis using assms q Document sc
      by (auto simp: open_queue_def queue_ok_def [of E xs] file_ok_def Let_def store_ok_def holds_file_def)
  qed
qed (use assms in \<open>auto simp: open_queue_def file_ok_def store_ok_def queue_ok_def holds_file_def\<close>)

lemma sys_ok_store: "store_ok E t \<Longrightarrow> sys_ok E (Some t, as_disk t)"
  by (simp add: sys_ok_def store_ok_def)

lemma q_apply_ok: "sys_ok E a \<Longrightarrow> sys_ok E (q_apply E op a)"
proof (induction E op a rule: q_apply.induct)
  case (1 E out now st d)
  then show ?case using open_ok [of E d out now "fst (open_queue E out now d)" "snd (open_queue E out now d)"]
    by (auto simp: sys_ok_def case_prod_unfold split: sum.split)
next
  case (2 E out now p operation url root snap s d)
  then show ?case by (simp add: Let_def, intro sys_ok_store enqueue_ok) (simp add: sys_ok_def)
next
  case (3 E out now i expected b s d)
  then show ?case by (simp add: Let_def, intro sys_ok_store set_ok) (simp add: sys_ok_def)
qed simp_all

interpretation queue: invariant_system q_init "q_step E" "sys_ok E" for E
proof
  show "sys_ok E a" if "q_init a" for a using that by (simp add: q_init_def sys_ok_def file_ok_def)
  show "sys_ok E b" if "sys_ok E a" "q_step E a b" for a b
    using that(2) q_apply_ok [OF that(1)] unfolding q_step_def by blast
qed

section \<open>Properties\<close>

text \<open>
  C8. Over any admissions, outcomes and restarts, with any outcome of every save, the queue
  stays within its bounds: at most 128 records, at most 32 of them unfinished, all valid and
  with distinct identifiers. What is on disk opens again, unless the document in which the
  interrupted work is marked as failed no longer fits the size limit; an open store that has
  not failed to save holds exactly what is on disk.
\<close>

theorem queue_reachable:
  assumes "reach q_init (q_step E) (st, d)"
  shows "(\<forall>s. st = Some s \<longrightarrow>
            length (as_intents s) \<le> 128 \<and> length (filter pending_intent (as_intents s)) \<le> 32
            \<and> list_all (valid_intent E) (as_intents s) \<and> distinct (map intent_id (as_intents s))
            \<and> (\<not> as_poisoned s \<longrightarrow> d = Document aq_schema (as_intents s) \<or> d = NoFile \<and> as_intents s = []))
    \<and> ((\<exists>s d'. open_queue E SaveOk now d = (Inr s, d'))
       \<or> (\<exists>xs. d = Document aq_schema xs
            \<and> (case ae_size E (map (interrupted now) xs) of None \<Rightarrow> True | Some n \<Rightarrow> n \<ge> 2 ^ 20)))"
proof -
  have ok: "sys_ok E (st, d)" using assms by (rule queue.reach_inv)
  have "(\<exists>s d'. open_queue E SaveOk now d = (Inr s, d'))
       \<or> (\<exists>xs. d = Document aq_schema xs
            \<and> (case ae_size E (map (interrupted now) xs) of None \<Rightarrow> True | Some n \<Rightarrow> n \<ge> 2 ^ 20))"
  proof (cases d)
    case (Document schema xs)
    then have "queue_ok E xs" "schema = aq_schema" using ok by (auto simp: sys_ok_def file_ok_def)
    with Document show ?thesis
      by (auto simp: open_queue_def queue_ok_def Let_def save_queue_def split: option.splits)
  qed (use ok in \<open>auto simp: open_queue_def sys_ok_def file_ok_def\<close>)
  with ok show ?thesis
    by (auto simp: sys_ok_def store_ok_def queue_ok_def holds_file_def maxRecords_def maxPending_def)
qed

definition same_confirmation :: "aq_intent \<Rightarrow> aq_intent \<Rightarrow> bool" where
  "same_confirmation x y \<longleftrightarrow> qi_payload y = qi_payload x \<and> qi_operation_id y = qi_operation_id x
     \<and> qi_repo_url y = qi_repo_url x \<and> qi_root y = qi_root x \<and> qi_snapshot y = qi_snapshot x
     \<and> qi_created_at y = qi_created_at x"

text \<open>How one step may change a record.\<close>

definition advances :: "aq_op \<Rightarrow> aq_intent \<Rightarrow> aq_intent \<Rightarrow> bool" where
  "advances op x y \<longleftrightarrow> same_confirmation x y
     \<and> (\<not> pending_intent x \<longrightarrow> qr_batch (qi_result y) = qr_batch (qi_result x))
     \<and> (pending_intent x \<and> y \<noteq> x \<longrightarrow>
          (\<exists>out now b. op = QSet out now (intent_id x) (state_of x) b)
          \<or> (\<exists>out now. op = QRestart out now \<and> state_of x = ''running'' \<and> state_of y = ''failed''))"

lemma advances_refl [simp]: "advances op x x"
  by (simp add: advances_def same_confirmation_def)

lemma advances_supersede: "advances op x (supersede p x)"
  by (simp add: supersede_def advances_def same_confirmation_def)

lemma advances_interrupted: "advances (QRestart out now) x (interrupted now' x)"
  by (simp add: interrupted_def advances_def same_confirmation_def pending_intent_def)

lemma save_intents [simp]: "as_intents (snd (save_queue E out next s)) = as_intents s"
  by (simp add: save_queue_def split: option.split save_outcome.split)

lemma admit_intents:
  "as_intents (snd (admit E out x next s)) = as_intents s \<or> as_intents (snd (admit E out x next s)) = next"
  by (simp add: admit_def case_prod_unfold split: option.split)

lemma enqueue_intents:
  fixes p now s
  defines "next \<equiv> map (supersede p) (as_intents s)"
  shows "as_intents (snd (EnqueueSnapshot E out now p operation url root snap s)) = as_intents s
    \<or> as_intents (snd (EnqueueSnapshot E out now p operation url root snap s))
       = next @ [new_intent_of now p operation url root snap]
    \<or> (\<exists>kept. evict now next = Some kept \<and>
         as_intents (snd (EnqueueSnapshot E out now p operation url root snap s))
           = kept @ [new_intent_of now p operation url root snap])"
proof (cases "evict now next")
  case None
  then show ?thesis using admit_intents [of E out _ "next @ [new_intent_of now p operation url root snap]" s]
    by (auto simp: EnqueueSnapshot_def Let_def next_def [symmetric] split: option.split)
next
  case (Some kept)
  then show ?thesis using admit_intents [of E out _ "next @ [new_intent_of now p operation url root snap]" s]
      admit_intents [of E out _ "kept @ [new_intent_of now p operation url root snap]" s]
    by (auto simp: EnqueueSnapshot_def Let_def next_def [symmetric] split: option.split)
qed

lemma enqueue_keeps:
  assumes "x \<in> set (as_intents s)"
  shows "(\<exists>y \<in> set (as_intents (snd (EnqueueSnapshot E out now p operation url root snap s))). advances op x y)
    \<or> \<not> pending_intent x \<and> time_sub now (qi_created_at x) > 24 * hour"
proof -
  let ?t = "snd (EnqueueSnapshot E out now p operation url root snap s)"
  let ?next = "map (supersede p) (as_intents s)" and ?new = "[new_intent_of now p operation url root snap]"
  consider "as_intents ?t = as_intents s" | "as_intents ?t = ?next @ ?new"
    | kept where "evict now ?next = Some kept" "as_intents ?t = kept @ ?new"
    using enqueue_intents [of E out now p operation url root snap s] by blast
  then show ?thesis
  proof cases
    case 1
    with assms show ?thesis by (intro disjI1 bexI [of _ x]) simp_all
  next
    case 2
    with assms show ?thesis by (intro disjI1 bexI [of _ "supersede p x"]) (simp_all add: advances_supersede)
  next
    case (3 kept)
    obtain as y bs where e: "?next = as @ y # bs" "kept = as @ bs" "evictable now y"
      using evict_cases [OF 3(1)] by blast
    have "supersede p x \<in> set ?next" using assms by simp
    then consider "supersede p x = y" | "supersede p x \<in> set kept" unfolding e by auto
    then show ?thesis
    proof cases
      case 1
      have "qi_created_at (supersede p x) = qi_created_at x" by (simp add: supersede_def)
      with 1 e(3) show ?thesis by (auto simp: evictable_def)
    next
      case 2
      with 3(2) show ?thesis by (intro disjI1 bexI [of _ "supersede p x"]) (simp_all add: advances_supersede)
    qed
  qed
qed

lemma replace_first_new: "find (\<lambda>z. intent_id z = i) xs = Some w \<Longrightarrow> y \<in> set (replace_first i y xs)"
  by (induction xs) (auto split: if_splits)

lemma replace_first_old:
  "find (\<lambda>z. intent_id z = i) xs = Some w \<Longrightarrow> x \<in> set xs \<Longrightarrow> x \<noteq> w \<Longrightarrow> x \<in> set (replace_first i y xs)"
  by (induction xs) (auto split: if_splits)

lemma set_intents:
  "as_intents (snd (SetResult E out now i expected b s)) = as_intents s
   \<or> (\<exists>w. find (\<lambda>z. intent_id z = i) (as_intents s) = Some w \<and> pending_intent w \<and> state_of w = expected
       \<and> as_intents (snd (SetResult E out now i expected b s)) = replace_first i (outcome_of now b w) (as_intents s))"
  by (auto simp: SetResult_def Let_def case_prod_unfold pending_intent_def split: option.split)

lemma set_keeps:
  assumes "x \<in> set (as_intents s)"
  shows "\<exists>y \<in> set (as_intents (snd (SetResult E out now i expected b s))). advances (QSet out now i expected b) x y"
proof -
  let ?t = "snd (SetResult E out now i expected b s)"
  consider "as_intents ?t = as_intents s"
    | w where "find (\<lambda>z. intent_id z = i) (as_intents s) = Some w" "pending_intent w" "state_of w = expected"
        "as_intents ?t = replace_first i (outcome_of now b w) (as_intents s)"
    using set_intents by blast
  then show ?thesis
  proof cases
    case (2 w)
    then have "intent_id w = i" by (auto simp: find_Some_iff)
    with 2 have "advances (QSet out now i expected b) w (outcome_of now b w)"
      by (simp add: advances_def same_confirmation_def outcome_of_def)
    then show ?thesis
      using replace_first_old [OF 2(1) assms] replace_first_new [OF 2(1)] 2(4) advances_refl by metis
  qed (use assms in \<open>auto intro!: bexI [of _ x]\<close>)
qed


text \<open>
  Admission is durable and idempotent. When a confirmation is accepted, the record is in
  the queue and on disk, and repeating the same confirmation returns the stored record and
  changes nothing, however the saves turn out; the same identifier with any other payload is
  refused and changes nothing.
\<close>

theorem enqueue_idempotent:
  assumes "reach q_init (q_step E) (Some s, d)"
    and "EnqueueSnapshot E out now p operation url root snap s = (Inr x, t)"
  shows "x \<in> set (as_intents t) \<and> as_disk t = Document aq_schema (as_intents t)
    \<and> EnqueueSnapshot E out' now' p operation url root snap t = (Inr x, t)
    \<and> (\<forall>p'. p' \<noteq> p \<and> qp_intent_id p' = qp_intent_id p \<longrightarrow>
         EnqueueSnapshot E out' now' p' operation url root snap t = (Inl QConflict, t))"
proof -
  have ok: "store_ok E s" using queue.reach_inv [OF assms(1)] by (auto simp: sys_ok_def)
  have np: "\<not> as_poisoned s" using assms(2) by (auto simp: EnqueueSnapshot_def split: if_splits)
  show ?thesis
  proof (cases "find (\<lambda>x. intent_id x = qp_intent_id p) (as_intents s)")
    case (Some y)
    then have "y = x" "t = s" "qi_payload x = p" using assms(2) np by (auto simp: EnqueueSnapshot_def split: if_splits)
    moreover have "y \<in> set (as_intents s)" using Some by (auto simp: find_Some_iff)
    ultimately show ?thesis using Some assms(2) np ok
      by (auto simp: EnqueueSnapshot_def store_ok_def holds_file_def)
  next
    case None
    let ?x = "new_intent_of now p operation url root snap"
    obtain xs where t: "admit E out ?x (xs @ [?x]) s = (Inr x, t)" and sub: "intent_id ` set xs \<subseteq> intent_id ` set (as_intents s)"
    proof (cases "length (map (supersede p) (as_intents s)) \<ge> maxRecords")
      case True
      then obtain kept where "evict now (map (supersede p) (as_intents s)) = Some kept"
          "admit E out ?x (kept @ [?x]) s = (Inr x, t)"
        using assms(2) np None by (auto simp: EnqueueSnapshot_def Let_def split: if_splits option.splits)
      moreover from this(1) have "intent_id ` set kept \<subseteq> intent_id ` set (map (supersede p) (as_intents s))"
        by (intro image_mono evict_subset)
      ultimately show ?thesis using that by (simp add: image_image)
    next
      case False
      then have "admit E out ?x (map (supersede p) (as_intents s) @ [?x]) s = (Inr x, t)"
        using assms(2) np None by (auto simp: EnqueueSnapshot_def Let_def split: if_splits)
      then show ?thesis using that by (simp add: image_image)
    qed
    have x: "x = ?x" "as_intents t = xs @ [?x]" "as_disk t = Document aq_schema (xs @ [?x])" "\<not> as_poisoned t"
      using t np by (auto simp: admit_def save_queue_def split: option.splits save_outcome.splits if_splits)
    have "find (\<lambda>z. intent_id z = qp_intent_id p) xs = None"
      using None sub by (auto simp: find_None_iff image_subset_iff)
    then have "find (\<lambda>z. intent_id z = qp_intent_id p) (as_intents t) = Some ?x"
      unfolding x by (induction xs) (auto simp: new_intent_of_def)
    with x show ?thesis
      by (auto simp: EnqueueSnapshot_def new_intent_of_def same_snapshot_def split: option.split)
  qed
qed

section \<open>A sample run\<close>

definition sample_aq_env :: aq_env where
  "sample_aq_env = \<lparr>ae_canonical_uuid = (\<lambda>_. True), ae_upper = (\<lambda>p. p), ae_size = (\<lambda>xs. Some (length xs))\<rparr>"

definition sample_release :: aq_payload where
  "sample_release = \<lparr>qp_server_id = ''sv'', qp_repo_id = ''rp'', qp_path = ''docs'', qp_action = ''release'',
     qp_fingerprint = replicate 64 CHR ''0'', qp_intent_id = ''i1'', qp_files = 1\<rparr>"

definition sample_queue :: "aq_op list \<Rightarrow> aq_sys" where
  "sample_queue ops = fold (q_apply sample_aq_env) ops (None, NoFile)"

lemma reach_run: "reach q_init (q_step E) (fold (q_apply E) ops (None, NoFile))"
proof (induction ops rule: rev_induct)
  case Nil
  show ?case by (simp add: reach_init q_init_def)
next
  case (snoc op ops)
  have "q_step E (fold (q_apply E) ops (None, NoFile)) (fold (q_apply E) (ops @ [op]) (None, NoFile))"
    by (auto simp: q_step_def)
  with snoc show ?case by (rule reach_step)
qed

lemma sample_reach_queue: "reach q_init (q_step sample_aq_env) (sample_queue ops)"
  unfolding sample_queue_def by (rule reach_run)

definition sample_admitted :: aq_store where
  "sample_admitted = \<lparr>as_intents = [new_intent_of 10 sample_release ''op'' ''url'' ''/wc'' None], as_poisoned = False,
     as_disk = Document aq_schema [new_intent_of 10 sample_release ''op'' ''url'' ''/wc'' None]\<rparr>"

lemma sample_path:
  "\<not> contains_any ''docs'' unsafe_chars \<and> go_clean ''docs'' = ''docs'' \<and> \<not> is_abs ''docs''
   \<and> \<not> list_ex bad_part (split_on CHR ''/'' ''docs'') \<and> is_abs ''/wc'' \<and> hex_digit CHR ''0''"
  by code_simp

lemma sample_valid: "valid_intent sample_aq_env (new_intent_of 10 sample_release ''op'' ''url'' ''/wc'' None)"
  using sample_path
  by (simp add: valid_intent_def payload_ok_def snapshot_ok_def result_ok_def new_intent_of_def sample_release_def
      sample_aq_env_def Let_def list_all_iff)

lemma sample_queue_run:
  "sample_queue [QRestart SaveOk 5] = (Some \<lparr>as_intents = [], as_poisoned = False, as_disk = NoFile\<rparr>, NoFile)"
  "EnqueueSnapshot sample_aq_env SaveOk 10 sample_release ''op'' ''url'' ''/wc'' None
     \<lparr>as_intents = [], as_poisoned = False, as_disk = NoFile\<rparr>
   = (Inr (new_intent_of 10 sample_release ''op'' ''url'' ''/wc'' None), sample_admitted)"
  by (simp_all add: sample_queue_def open_queue_def EnqueueSnapshot_def Let_def sample_valid admit_def save_queue_def
      sample_admitted_def maxPending_def maxRecords_def)
    (simp_all add: sample_aq_env_def save_queue_def)

lemma sample_queue_admitted:
  "sample_queue [QRestart SaveOk 5, QEnqueue SaveOk 10 sample_release ''op'' ''url'' ''/wc'' None]
   = (Some sample_admitted, as_disk sample_admitted)"
  using sample_queue_run by (simp add: sample_queue_def)

lemma sample_queue_reach: "reach q_init (q_step sample_aq_env) (Some sample_admitted, as_disk sample_admitted)"
  using sample_reach_queue [of "[QRestart SaveOk 5, QEnqueue SaveOk 10 sample_release ''op'' ''url'' ''/wc'' None]"]
  by (simp only: sample_queue_admitted)

theorem queue_reachable_witness:
  "length (as_intents sample_admitted) = 1 \<and> length (as_intents sample_admitted) \<le> 128
   \<and> distinct (map intent_id (as_intents sample_admitted))"
  using queue_reachable [OF sample_queue_reach] by (auto simp: sample_admitted_def)


theorem enqueue_idempotent_witness:
  "EnqueueSnapshot sample_aq_env SaveFail 99 sample_release ''op'' ''url'' ''/wc'' None sample_admitted
   = (Inr (new_intent_of 10 sample_release ''op'' ''url'' ''/wc'' None), sample_admitted)"
proof -
  have "reach q_init (q_step sample_aq_env) (Some \<lparr>as_intents = [], as_poisoned = False, as_disk = NoFile\<rparr>, NoFile)"
    using sample_reach_queue [of "[QRestart SaveOk 5]"] by (simp only: sample_queue_run)
  then show ?thesis using enqueue_idempotent [OF _ sample_queue_run(2)] by blast
qed

end
