(* ===== verification/Abuse_Guard.thy ===== *)
theory Abuse_Guard
  imports Go_Lib
begin

text \<open>
  The guard against password guessing (\<open>public-shares/abuse/guard.go\<close>). Entries are heap
  objects, because a completion compares the entry it reserved with the one now filed under
  its source: a late result must not debit a newer window. Every method runs under one mutex,
  so a run is a sequence of method calls with a clock that does not go back; the completions
  handed out and not yet called are part of the state.
\<close>

section \<open>The guard\<close>

record source =
  so_until :: gotime
  so_blocked :: gotime
  so_failures :: int
  so_active :: int

record guard =
  ag_sources :: "(string, nat) assoc"
  ag_heap :: "nat \<Rightarrow> source"
  ag_next :: nat

definition FailureLimit :: int where "FailureLimit = 12"
definition Window :: duration where "Window = 10 * minute"
definition BlockDuration :: duration where "BlockDuration = 10 * minute"
definition MaxSources :: nat where "MaxSources = 4096"

text \<open>\<open>sweepLocked\<close> deletes the expired entries nobody is verifying against.\<close>

definition sweepLocked :: "gotime \<Rightarrow> guard \<Rightarrow> guard" where
  "sweepLocked now g =
     g\<lparr>ag_sources := filter (\<lambda>(ip, a). \<not> (\<not> now < so_until (ag_heap g a) \<and> so_active (ag_heap g a) = 0)) (ag_sources g)\<rparr>"

definition enter :: "gotime \<Rightarrow> nat \<Rightarrow> guard \<Rightarrow> nat option \<times> guard" where
  "enter now a g =
     (let s = ag_heap g a in
      if now < so_blocked s \<or> so_active s \<ge> 2 then (None, g)
      else (Some a, g\<lparr>ag_heap := (ag_heap g)(a := s\<lparr>so_active := so_active s + 1\<rparr>)\<rparr>))"

definition begin_fresh :: "gotime \<Rightarrow> string \<Rightarrow> guard \<Rightarrow> nat option \<times> guard" where
  "begin_fresh now ip g =
     (let g1 = (if length (ag_sources g) \<ge> MaxSources then sweepLocked now g else g) in
      if length (ag_sources g1) \<ge> MaxSources then (None, g1)
      else enter now (ag_next g1)
        (g1\<lparr>ag_heap := (ag_heap g1)(ag_next g1 :=
               \<lparr>so_until = now + Window, so_blocked = 0, so_failures = 0, so_active = 0\<rparr>),
             ag_sources := AList.update ip (ag_next g1) (ag_sources g1), ag_next := Suc (ag_next g1)\<rparr>))"

text \<open>\<open>Begin\<close>; the result is the entry the completion owns.\<close>

definition Begin :: "gotime \<Rightarrow> string \<Rightarrow> guard \<Rightarrow> nat option \<times> guard" where
  "Begin now ip g =
     (case map_of (ag_sources g) ip of
        None \<Rightarrow> begin_fresh now ip g
      | Some a \<Rightarrow>
         (let s = ag_heap g a in
          if \<not> now < so_until s \<and> so_active s > 0 then (None, g)
          else if \<not> now < so_until s \<and> so_active s = 0
            then begin_fresh now ip (g\<lparr>ag_sources := AList.delete ip (ag_sources g)\<rparr>)
          else enter now a g))"

definition count_failure :: "gotime \<Rightarrow> bool \<Rightarrow> source \<Rightarrow> source" where
  "count_failure now failed s =
     (if failed \<and> so_blocked s = 0 then
        (let s1 = s\<lparr>so_failures := so_failures s + 1\<rparr> in
         if so_failures s1 \<ge> FailureLimit
         then s1\<lparr>so_blocked := now + BlockDuration, so_until := now + BlockDuration\<rparr> else s1)
      else s)"

definition finish :: "gotime \<Rightarrow> string \<Rightarrow> nat \<Rightarrow> bool \<Rightarrow> guard \<Rightarrow> guard" where
  "finish now ip a failed g =
     (let s = (ag_heap g a)\<lparr>so_active := so_active (ag_heap g a) - 1\<rparr>;
          g1 = g\<lparr>ag_heap := (ag_heap g)(a := s)\<rparr> in
      if map_of (ag_sources g) ip \<noteq> Some a \<or> \<not> now < so_until s then g1
      else
        (let s' = count_failure now failed s;
             g2 = g1\<lparr>ag_heap := (ag_heap g1)(a := s')\<rparr> in
         if so_active s' = 0 \<and> so_failures s' = 0
         then g2\<lparr>ag_sources := AList.delete ip (ag_sources g2)\<rparr> else g2))"

definition Blocked :: "gotime \<Rightarrow> string \<Rightarrow> guard \<Rightarrow> duration" where
  "Blocked now ip g =
     (case map_of (ag_sources g) ip of
        None \<Rightarrow> 0
      | Some a \<Rightarrow> if now < so_blocked (ag_heap g a) then time_sub (so_blocked (ag_heap g a)) now else 0)"

definition SnapshotBans :: "gotime \<Rightarrow> guard \<Rightarrow> string list \<times> guard" where
  "SnapshotBans now g =
     (let g1 = sweepLocked now g in
      (map fst (filter (\<lambda>(ip, a). now < so_blocked (ag_heap g1 a)) (ag_sources g1)), g1))"

section \<open>Runs\<close>

text \<open>
  The state of a run: the guard, the clock, the completions not yet called, and for each entry
  ever made the number of failed verifications reported for it, its source and when it was made.
\<close>

record ag_run =
  ar_guard :: guard
  ar_now :: gotime
  ar_open :: "(string \<times> nat) list"
  ar_failed :: "nat \<Rightarrow> nat"
  ar_born :: "nat \<Rightarrow> gotime"
  ar_owner :: "nat \<Rightarrow> string"

definition ag_init :: "ag_run \<Rightarrow> bool" where
  "ag_init r \<longleftrightarrow> ag_sources (ar_guard r) = [] \<and> ag_next (ar_guard r) = 0 \<and> ar_open r = []
     \<and> ar_failed r = (\<lambda>_. 0) \<and> 0 < ar_now r \<and> ag_heap (ar_guard r) = (\<lambda>_. \<lparr>so_until = 0, so_blocked = 0, so_failures = 0, so_active = 0\<rparr>)"

definition granted_run :: "string \<Rightarrow> nat \<Rightarrow> guard \<Rightarrow> ag_run \<Rightarrow> ag_run" where
  "granted_run ip a g r =
     r\<lparr>ar_guard := g, ar_open := (ip, a) # ar_open r,
       ar_born := (if a = ag_next (ar_guard r) then (ar_born r)(a := ar_now r) else ar_born r),
       ar_owner := (if a = ag_next (ar_guard r) then (ar_owner r)(a := ip) else ar_owner r)\<rparr>"

inductive ag_step :: "ag_run \<Rightarrow> ag_run \<Rightarrow> bool" where
  granted: "ar_now r \<le> now \<Longrightarrow> Begin now ip (ar_guard r) = (Some a, g) \<Longrightarrow>
    ag_step r (granted_run ip a g (r\<lparr>ar_now := now\<rparr>))"
| refused: "ar_now r \<le> now \<Longrightarrow> Begin now ip (ar_guard r) = (None, g) \<Longrightarrow>
    ag_step r (r\<lparr>ar_now := now, ar_guard := g\<rparr>)"
| finished: "ar_now r \<le> now \<Longrightarrow> (ip, a) \<in> set (ar_open r) \<Longrightarrow>
    ag_step r (r\<lparr>ar_guard := finish now ip a failed (ar_guard r), ar_now := now,
      ar_open := remove1 (ip, a) (ar_open r),
      ar_failed := (if failed then (ar_failed r)(a := Suc (ar_failed r a)) else ar_failed r)\<rparr>)"
| swept: "ar_now r \<le> now \<Longrightarrow> ag_step r (r\<lparr>ar_guard := sweepLocked now (ar_guard r), ar_now := now\<rparr>)"

inductive_cases ag_stepE: "ag_step r r'"

section \<open>The invariant\<close>

definition open_count :: "(string \<times> nat) list \<Rightarrow> nat \<Rightarrow> int" where
  "open_count os a = int (length (filter (\<lambda>(_, b). b = a) os))"

lemma open_count_Cons [simp]: "open_count ((ip, b) # os) a = (if b = a then open_count os a + 1 else open_count os a)"
  by (simp add: open_count_def)

lemma open_count_remove1:
  "(ip, b) \<in> set os \<Longrightarrow> open_count (remove1 (ip, b) os) a = (if b = a then open_count os a - 1 else open_count os a)"
  by (induction os) (auto simp: open_count_def)

lemma open_count_pos: "(ip, a) \<in> set os \<Longrightarrow> 0 < open_count os a"
  by (induction os) (auto simp: open_count_def)

text \<open>
  What holds of one entry: whether it is filed under its source, the verifications in
  progress, the failed ones so far, and when it was made.
\<close>

definition fine :: "gotime \<Rightarrow> bool \<Rightarrow> int \<Rightarrow> nat \<Rightarrow> gotime \<Rightarrow> source \<Rightarrow> bool" where
  "fine now filed running failed born s \<longleftrightarrow>
     so_active s = running \<and> so_active s \<le> 2 \<and> 0 \<le> so_failures s \<and> born + Window \<le> so_until s \<and> born \<le> now
     \<and> (so_blocked s = 0 \<longrightarrow> so_failures s < FailureLimit) \<and> (so_blocked s \<noteq> 0 \<longrightarrow> so_until s = so_blocked s \<and> 0 < so_failures s)
     \<and> int failed + so_active s \<le> FailureLimit + 1
     \<and> (filed \<and> now < so_until s \<and> so_blocked s = 0 \<longrightarrow> int failed = so_failures s)
     \<and> (\<not> filed \<longrightarrow> so_active s = 0 \<and> (0 < failed \<longrightarrow> so_until s \<le> now))"

abbreviation filed :: "ag_run \<Rightarrow> nat \<Rightarrow> bool" where
  "filed r a \<equiv> map_of (ag_sources (ar_guard r)) (ar_owner r a) = Some a"

definition entry_inv :: "ag_run \<Rightarrow> nat \<Rightarrow> bool" where
  "entry_inv r a \<longleftrightarrow>
     fine (ar_now r) (filed r a) (open_count (ar_open r) a) (ar_failed r a) (ar_born r a) (ag_heap (ar_guard r) a)"

definition owned :: "ag_run \<Rightarrow> (string \<times> nat) list \<Rightarrow> bool" where
  "owned r xs \<longleftrightarrow> (\<forall>(ip, a) \<in> set xs. a < ag_next (ar_guard r) \<and> ar_owner r a = ip)"

definition spaced :: "ag_run \<Rightarrow> bool" where
  "spaced r \<longleftrightarrow> (\<forall>a b. a < b \<and> b < ag_next (ar_guard r) \<and> ar_owner r a = ar_owner r b \<and> 0 < ar_failed r a \<longrightarrow>
     ar_born r a + Window \<le> ar_born r b)"

definition latest :: "ag_run \<Rightarrow> bool" where
  "latest r \<longleftrightarrow> (\<forall>a b. a < b \<and> b < ag_next (ar_guard r) \<and> ar_owner r a = ar_owner r b \<longrightarrow> \<not> filed r a)"

definition ag_inv :: "ag_run \<Rightarrow> bool" where
  "ag_inv r \<longleftrightarrow> 0 < ar_now r \<and> wf_assoc (ag_sources (ar_guard r)) \<and> length (ag_sources (ar_guard r)) \<le> MaxSources
     \<and> owned r (ag_sources (ar_guard r)) \<and> owned r (ar_open r) \<and> (\<forall>a < ag_next (ar_guard r). entry_inv r a)
     \<and> spaced r \<and> latest r \<and> (\<forall>a \<ge> ag_next (ar_guard r). ar_failed r a = 0)"

lemma ag_invD:
  assumes "ag_inv r"
  shows "0 < ar_now r" "wf_assoc (ag_sources (ar_guard r))" "length (ag_sources (ar_guard r)) \<le> MaxSources"
    "owned r (ag_sources (ar_guard r))" "owned r (ar_open r)" "a < ag_next (ar_guard r) \<Longrightarrow> entry_inv r a" "spaced r"
    "ag_next (ar_guard r) \<le> a \<Longrightarrow> ar_failed r a = 0" "latest r"
  using assms by (simp_all add: ag_inv_def)

lemma filed_owner: "ag_inv r \<Longrightarrow> map_of (ag_sources (ar_guard r)) ip = Some a \<Longrightarrow> a < ag_next (ar_guard r) \<and> ar_owner r a = ip"
  using ag_invD(4) [of r] by (auto simp: owned_def dest: map_of_SomeD)

subsection \<open>Time passes and unused expired entries are dropped\<close>

lemma map_of_sub:
  assumes "wf_assoc m" "wf_assoc m'" "set m' \<subseteq> set m"
  shows "map_of m' k = Some v \<longleftrightarrow> map_of m k = Some v \<and> (k, v) \<in> set m'"
  using assms by (auto simp flip: wf_assoc_in_map_of)

lemma fine_drop:
  assumes "fine now f n k b s" "now \<le> now'" "f' \<longrightarrow> f" "f \<and> \<not> f' \<longrightarrow> \<not> now' < so_until s \<and> so_active s = 0"
  shows "fine now' f' n k b s"
  using assms by (auto simp: fine_def)

lemma drop_inv:
  assumes inv: "ag_inv r" and now: "ar_now r \<le> now"
    and sub: "set src \<subseteq> set (ag_sources (ar_guard r))" "wf_assoc src" "length src \<le> length (ag_sources (ar_guard r))"
    and dropped: "\<And>ip a. (ip, a) \<in> set (ag_sources (ar_guard r)) \<Longrightarrow> (ip, a) \<notin> set src \<Longrightarrow>
      \<not> now < so_until (ag_heap (ar_guard r) a) \<and> so_active (ag_heap (ar_guard r) a) = 0"
  shows "ag_inv (r\<lparr>ar_guard := (ar_guard r)\<lparr>ag_sources := src\<rparr>, ar_now := now\<rparr>)" (is "ag_inv ?r")
proof -
  note inv' = ag_invD [OF inv]
  have lookup: "map_of src k = Some v \<longleftrightarrow> map_of (ag_sources (ar_guard r)) k = Some v \<and> (k, v) \<in> set src" for k v
    by (rule map_of_sub [OF inv'(2) sub(2,1)])
  have "entry_inv ?r a" if "a < ag_next (ar_guard r)" for a
    using inv'(6) [OF that] dropped [of "ar_owner r a" a] now lookup [of "ar_owner r a" a]
      wf_assoc_in_map_of [OF inv'(2)]
    by (auto simp: entry_inv_def intro: fine_drop)
  moreover have "owned ?r src" using inv'(4) sub(1) by (auto simp: owned_def)
  moreover have "latest ?r" using inv'(9) lookup by (simp add: latest_def)
  ultimately show ?thesis using inv' now sub by (simp add: ag_inv_def owned_def spaced_def)
qed

lemma sweep_inv: "ag_inv r \<Longrightarrow> ar_now r \<le> now \<Longrightarrow>
  ag_inv (r\<lparr>ar_guard := sweepLocked now (ar_guard r), ar_now := now\<rparr>)"
  unfolding sweepLocked_def
  by (rule drop_inv) (auto simp: ag_inv_def wf_assoc_def distinct_map_filter)

lemma tick_inv: "ag_inv r \<Longrightarrow> ar_now r \<le> now \<Longrightarrow> ag_inv (r\<lparr>ar_now := now\<rparr>)"
  using drop_inv [of r now "ag_sources (ar_guard r)"] by (simp add: ag_inv_def)

lemma delete_inv:
  assumes "ag_inv r" "ar_now r \<le> now" "map_of (ag_sources (ar_guard r)) ip = Some a"
    and "\<not> now < so_until (ag_heap (ar_guard r) a)" "so_active (ag_heap (ar_guard r) a) = 0"
  shows "ag_inv (r\<lparr>ar_guard := (ar_guard r)\<lparr>ag_sources := AList.delete ip (ag_sources (ar_guard r))\<rparr>, ar_now := now\<rparr>)"
proof (rule drop_inv [OF assms(1,2)])
  note wf = ag_invD(2) [OF assms(1)]
  show "wf_assoc (AList.delete ip (ag_sources (ar_guard r)))" using wf by simp
  show "set (AList.delete ip (ag_sources (ar_guard r))) \<subseteq> set (ag_sources (ar_guard r))"
    "length (AList.delete ip (ag_sources (ar_guard r))) \<le> length (ag_sources (ar_guard r))"
    by (auto simp: AList.delete_eq)
  fix ip' b assume e: "(ip', b) \<in> set (ag_sources (ar_guard r))" "(ip', b) \<notin> set (AList.delete ip (ag_sources (ar_guard r)))"
  then have "ip' = ip" by (auto simp: AList.delete_eq)
  then have "b = a" using e(1) assms(3) wf_assoc_in_map_of [OF wf] by auto
  then show "\<not> now < so_until (ag_heap (ar_guard r) b) \<and> so_active (ag_heap (ar_guard r) b) = 0"
    using assms(4,5) by simp
qed

subsection \<open>A further verification against an entry\<close>

definition entered :: "string \<Rightarrow> nat \<Rightarrow> ag_run \<Rightarrow> ag_run" where
  "entered ip a r =
     r\<lparr>ar_guard := (ar_guard r)\<lparr>ag_heap := (ag_heap (ar_guard r))(a :=
          (ag_heap (ar_guard r) a)\<lparr>so_active := so_active (ag_heap (ar_guard r) a) + 1\<rparr>)\<rparr>,
       ar_open := (ip, a) # ar_open r\<rparr>"

lemma fine_enter:
  assumes "fine now True n k b s" "now < so_until s" "\<not> now < so_blocked s" "so_active s < 2"
  shows "fine now True (n + 1) k b (s\<lparr>so_active := so_active s + 1\<rparr>)"
  using assms by (auto simp: fine_def)

lemma entered_inv:
  assumes inv: "ag_inv r" and a: "map_of (ag_sources (ar_guard r)) ip = Some a"
    and live: "ar_now r < so_until (ag_heap (ar_guard r) a)" "\<not> ar_now r < so_blocked (ag_heap (ar_guard r) a)"
      "so_active (ag_heap (ar_guard r) a) < 2"
  shows "ag_inv (entered ip a r)"
proof -
  note inv' = ag_invD [OF inv]
  have own: "a < ag_next (ar_guard r)" "ar_owner r a = ip" using filed_owner [OF inv a] by simp_all
  have "fine (ar_now r) True (open_count (ar_open r) a) (ar_failed r a) (ar_born r a) (ag_heap (ar_guard r) a)"
    using inv'(6) [OF own(1)] own(2) a by (simp add: entry_inv_def)
  then have "entry_inv (entered ip a r) a"
    using fine_enter [OF _ live] own a by (simp add: entry_inv_def entered_def)
  moreover have "entry_inv (entered ip a r) b" if "b < ag_next (ar_guard r)" "b \<noteq> a" for b
    using inv'(6) [OF that(1)] that(2) by (simp add: entry_inv_def entered_def)
  ultimately have "\<forall>b < ag_next (ar_guard r). entry_inv (entered ip a r) b" by blast
  then show ?thesis using inv' own by (simp add: ag_inv_def entered_def owned_def spaced_def latest_def)
qed

subsection \<open>A new entry for a source that has none\<close>

definition opened :: "string \<Rightarrow> ag_run \<Rightarrow> ag_run" where
  "opened ip r =
     (let g = ar_guard r; a = ag_next g in
      r\<lparr>ar_guard := g\<lparr>ag_heap := (ag_heap g)(a := \<lparr>so_until = ar_now r + Window, so_blocked = 0, so_failures = 0, so_active = 0\<rparr>),
             ag_sources := AList.update ip a (ag_sources g), ag_next := Suc a\<rparr>,
        ar_born := (ar_born r)(a := ar_now r), ar_owner := (ar_owner r)(a := ip)\<rparr>)"

lemma opened_simps [simp]:
  "ar_now (opened ip r) = ar_now r" "ar_open (opened ip r) = ar_open r" "ar_failed (opened ip r) = ar_failed r"
  "ar_born (opened ip r) = (ar_born r)(ag_next (ar_guard r) := ar_now r)"
  "ar_owner (opened ip r) = (ar_owner r)(ag_next (ar_guard r) := ip)"
  "ag_next (ar_guard (opened ip r)) = Suc (ag_next (ar_guard r))"
  "ag_sources (ar_guard (opened ip r)) = AList.update ip (ag_next (ar_guard r)) (ag_sources (ar_guard r))"
  "ag_heap (ar_guard (opened ip r)) = (ag_heap (ar_guard r))(ag_next (ar_guard r) :=
     \<lparr>so_until = ar_now r + Window, so_blocked = 0, so_failures = 0, so_active = 0\<rparr>)"
  by (simp_all add: opened_def Let_def)

lemma opened_inv:
  assumes inv: "ag_inv r" and absent: "map_of (ag_sources (ar_guard r)) ip = None"
    and room: "length (ag_sources (ar_guard r)) < MaxSources"
  shows "ag_inv (opened ip r)"
proof -
  let ?r = "opened ip r" and ?n = "ag_next (ar_guard r)"
  note inv' = ag_invD [OF inv]
  have "open_count (ar_open r) ?n = 0"
    using inv'(5) by (auto simp: open_count_def filter_empty_conv owned_def)
  then have new: "entry_inv ?r ?n"
    using inv'(8) [of ?n] by (simp add: entry_inv_def fine_def FailureLimit_def)
  have old: "entry_inv ?r b" if "b < ?n" for b
  proof -
    have "filed ?r b = filed r b" using absent that by auto
    then show ?thesis using inv'(6) [OF that] that unfolding entry_inv_def by simp
  qed
  have gap: "ar_born r b + Window \<le> ar_now r" if "b < ?n" "ar_owner r b = ip" "0 < ar_failed r b" for b
    using inv'(6) [OF that(1)] absent that(2,3) by (simp add: entry_inv_def fine_def)
  have "entry_inv ?r b" if "b < Suc ?n" for b using new old that by (cases "b = ?n") simp_all
  moreover have "owned ?r (AList.update ip ?n (ag_sources (ar_guard r)))"
    using inv'(4) by (auto simp: owned_def dest!: set_update_cases)
  moreover have "owned ?r (ar_open r)" using inv'(5) by (auto simp: owned_def)
  moreover have "spaced ?r" using inv'(7) gap by (auto simp: spaced_def less_Suc_eq)
  moreover have "latest ?r" using inv'(9) absent by (auto simp: latest_def less_Suc_eq)
  ultimately show ?thesis using inv' absent room by (simp add: ag_inv_def)
qed

subsection \<open>The end of a verification\<close>

lemma fine_finish:
  fixes failed :: bool
  assumes "fine now True n k b s" "now \<le> now'" "0 < now" "now' < so_until s" "0 < n"
  defines "k' \<equiv> if failed then Suc k else k" and "s' \<equiv> count_failure now' failed (s\<lparr>so_active := so_active s - 1\<rparr>)"
  shows "fine now' True (n - 1) k' b s'" and "so_active s' = 0 \<Longrightarrow> so_failures s' = 0 \<Longrightarrow> fine now' False (n - 1) k' b s'"
  using assms
  by (cases failed; cases "so_blocked s = 0"; cases "so_failures s + 1 \<ge> FailureLimit";
      auto simp: fine_def count_failure_def Let_def BlockDuration_def Window_def FailureLimit_def)+

lemma fine_late:
  assumes "fine now True n k b s" "now \<le> now'" "\<not> now' < so_until s" "0 < n"
  shows "fine now' True (n - 1) (if failed then Suc k else k) b (s\<lparr>so_active := so_active s - 1\<rparr>)"
  using assms by (auto simp: fine_def)

definition ended :: "gotime \<Rightarrow> string \<Rightarrow> nat \<Rightarrow> bool \<Rightarrow> source \<Rightarrow> (string, nat) assoc \<Rightarrow> ag_run \<Rightarrow> ag_run" where
  "ended now ip a failed s src r =
     r\<lparr>ar_guard := (ar_guard r)\<lparr>ag_heap := (ag_heap (ar_guard r))(a := s), ag_sources := src\<rparr>, ar_now := now,
       ar_open := remove1 (ip, a) (ar_open r),
       ar_failed := (if failed then (ar_failed r)(a := Suc (ar_failed r a)) else ar_failed r)\<rparr>"

lemma ended_simps [simp]:
  "ar_now (ended now ip a failed s src r) = now" "ar_open (ended now ip a failed s src r) = remove1 (ip, a) (ar_open r)"
  "ar_failed (ended now ip a failed s src r) b = (if failed \<and> b = a then Suc (ar_failed r a) else ar_failed r b)"
  "ar_born (ended now ip a failed s src r) = ar_born r" "ar_owner (ended now ip a failed s src r) = ar_owner r"
  "ag_next (ar_guard (ended now ip a failed s src r)) = ag_next (ar_guard r)"
  "ag_sources (ar_guard (ended now ip a failed s src r)) = src"
  "ag_heap (ar_guard (ended now ip a failed s src r)) = (ag_heap (ar_guard r))(a := s)"
  by (simp_all add: ended_def)

lemma length_delete_le: "length (AList.delete k m) \<le> length m"
  by (simp add: AList.delete_eq)

lemma set_delete_old: "x \<in> set (AList.delete k m) \<Longrightarrow> x \<in> set m"
  by (auto simp: AList.delete_eq)

lemma fine_tick: "fine now f n k b s \<Longrightarrow> now \<le> now' \<Longrightarrow> fine now' f n k b s"
  by (rule fine_drop) auto

lemma ended_inv:
  assumes inv: "ag_inv r" and now: "ar_now r \<le> now" and op: "(ip, a) \<in> set (ar_open r)"
    and src: "src = ag_sources (ar_guard r) \<or> src = AList.delete ip (ag_sources (ar_guard r))"
    and f: "fine now (map_of src ip = Some a) (open_count (ar_open r) a - 1) (if failed then Suc (ar_failed r a) else ar_failed r a)
      (ar_born r a) s"
    and fil: "filed r a"
  shows "ag_inv (ended now ip a failed s src r)" (is "ag_inv ?r")
proof -
  note inv' = ag_invD [OF inv]
  have own: "a < ag_next (ar_guard r)" "ar_owner r a = ip" using inv'(5) op by (auto simp: owned_def)
  have "entry_inv ?r a" using f own open_count_remove1 [OF op, of a] by (simp add: entry_inv_def)
  moreover have "entry_inv ?r b" if "b < ag_next (ar_guard r)" "b \<noteq> a" for b
  proof -
    have "filed ?r b = filed r b" using src fil own that(2) by (auto split: if_splits)
    then show ?thesis
      using inv'(6) [OF that(1)] that(2) open_count_remove1 [OF op, of b] now by (simp add: entry_inv_def fine_tick)
  qed
  ultimately have "\<forall>b < ag_next (ar_guard r). entry_inv ?r b" by blast
  moreover have "wf_assoc src" "length src \<le> MaxSources" "owned ?r src"
    using src inv'(2-4) by (auto simp: owned_def intro: order_trans [OF length_delete_le] dest: set_delete_old)
  moreover have "owned ?r (ar_open ?r)"
    using inv'(5) set_remove1_subset [of "(ip, a)" "ar_open r"] by (auto simp: owned_def)
  moreover have "spaced ?r"
  proof -
    have "\<forall>b. a < b \<and> b < ag_next (ar_guard r) \<longrightarrow> ar_owner r a \<noteq> ar_owner r b"
      using inv'(9) fil unfolding latest_def by blast
    then show ?thesis using inv'(7) by (auto simp: spaced_def split: if_splits)
  qed
  moreover have "latest ?r" using inv'(9) src by (auto simp: latest_def split: if_splits)
  ultimately show ?thesis using inv' now own by (auto simp: ag_inv_def)
qed

section \<open>Every step keeps the invariant\<close>

lemma finished_inv:
  assumes inv: "ag_inv r" and now: "ar_now r \<le> now" and op: "(ip, a) \<in> set (ar_open r)"
  shows "ag_inv (r\<lparr>ar_guard := finish now ip a failed (ar_guard r), ar_now := now,
      ar_open := remove1 (ip, a) (ar_open r),
      ar_failed := (if failed then (ar_failed r)(a := Suc (ar_failed r a)) else ar_failed r)\<rparr>)" (is "ag_inv ?r")
proof -
  let ?s = "ag_heap (ar_guard r) a" and ?src = "ag_sources (ar_guard r)"
  let ?s1 = "?s\<lparr>so_active := so_active ?s - 1\<rparr>"
  let ?s2 = "count_failure now failed ?s1"
  note inv' = ag_invD [OF inv]
  have own: "a < ag_next (ar_guard r)" "ar_owner r a = ip" using inv'(5) op by (auto simp: owned_def)
  have pos: "0 < open_count (ar_open r) a" using op by (rule open_count_pos)
  have e: "entry_inv r a" using inv'(6) own(1) by simp
  then have fil: "map_of ?src ip = Some a" using pos own by (auto simp: entry_inv_def fine_def)
  then have f: "fine (ar_now r) True (open_count (ar_open r) a) (ar_failed r a) (ar_born r a) ?s"
    using e own by (simp add: entry_inv_def)
  show ?thesis
  proof (cases "now < so_until ?s")
    case False
    then have "?r = ended now ip a failed ?s1 ?src r"
      using fil by (simp add: finish_def Let_def ended_def)
    then show ?thesis
      using ended_inv [OF inv now op, of ?src failed ?s1] fine_late [OF f now False pos, of failed] fil own by simp
  next
    case True
    note ff = fine_finish [OF f now inv'(1) True pos, of failed]
    show ?thesis
    proof (cases "so_active ?s2 = 0 \<and> so_failures ?s2 = 0")
      case True
      then have "?r = ended now ip a failed ?s2 (AList.delete ip ?src) r"
        using fil \<open>now < so_until ?s\<close> by (simp add: finish_def Let_def ended_def)
      then show ?thesis
        using ended_inv [OF inv now op, of "AList.delete ip ?src" failed ?s2] ff(2) True fil own by simp
    next
      case False
      then have "finish now ip a failed (ar_guard r) = (ar_guard r)\<lparr>ag_heap := (ag_heap (ar_guard r))(a := ?s2)\<rparr>"
        using fil True by (auto simp: finish_def Let_def)
      then have "?r = ended now ip a failed ?s2 ?src r" by (simp add: ended_def)
      then show ?thesis using ended_inv [OF inv now op, of ?src failed ?s2] ff(1) fil own by simp
    qed
  qed
qed

lemma begin_fresh_eq:
  assumes "0 < now"
  defines "g1 g \<equiv> if length (ag_sources g) \<ge> MaxSources then sweepLocked now g else g"
  shows "begin_fresh now ip g =
    (if length (ag_sources (g1 g)) \<ge> MaxSources then (None, g1 g)
     else (Some (ag_next (g1 g)),
       (g1 g)\<lparr>ag_heap := (ag_heap (g1 g))(ag_next (g1 g) :=
                \<lparr>so_until = now + Window, so_blocked = 0, so_failures = 0, so_active = 1\<rparr>),
             ag_sources := AList.update ip (ag_next (g1 g)) (ag_sources (g1 g)), ag_next := Suc (ag_next (g1 g))\<rparr>))"
  using assms(1) by (simp add: begin_fresh_def enter_def Let_def g1_def)

lemma fresh_inv:
  assumes inv: "ag_inv r" and absent: "map_of (ag_sources (ar_guard r)) ip = None"
    and fresh: "begin_fresh (ar_now r) ip (ar_guard r) = (res, g)"
  shows "res = None \<Longrightarrow> ag_inv (r\<lparr>ar_guard := g\<rparr>)"
    and "res = Some a \<Longrightarrow> a = ag_next (ar_guard r) \<and>
      ag_inv (r\<lparr>ar_guard := g, ar_open := (ip, a) # ar_open r, ar_born := (ar_born r)(a := ar_now r),
        ar_owner := (ar_owner r)(a := ip)\<rparr>)"
proof -
  define g1 where "g1 = (if length (ag_sources (ar_guard r)) \<ge> MaxSources then sweepLocked (ar_now r) (ar_guard r) else ar_guard r)"
  define r1 where "r1 = r\<lparr>ar_guard := g1\<rparr>"
  have inv1: "ag_inv r1" using inv sweep_inv [OF inv, of "ar_now r"] by (simp add: r1_def g1_def)
  have abs1: "map_of (ag_sources (ar_guard r1)) ip = None"
    using absent by (auto simp: r1_def g1_def sweepLocked_def map_of_eq_None_iff)
  have n1: "ag_next g1 = ag_next (ar_guard r)" by (simp add: g1_def sweepLocked_def)
  note eq = begin_fresh_eq [OF ag_invD(1) [OF inv], of ip "ar_guard r", folded g1_def]
  have room: "length (ag_sources g1) < MaxSources \<longleftrightarrow> res \<noteq> None"
    using fresh eq by (auto split: if_splits)
  show "ag_inv (r\<lparr>ar_guard := g\<rparr>)" if "res = None"
    using fresh eq room that inv1 by (simp add: r1_def)
  show "a = ag_next (ar_guard r) \<and>
      ag_inv (r\<lparr>ar_guard := g, ar_open := (ip, a) # ar_open r, ar_born := (ar_born r)(a := ar_now r),
        ar_owner := (ar_owner r)(a := ip)\<rparr>)" if "res = Some a"
  proof -
    have len: "length (ag_sources (ar_guard r1)) < MaxSources" using room that by (simp add: r1_def)
    have a: "a = ag_next (ar_guard r)"
      using fresh len that n1 eq by (simp add: r1_def)
    have "now < now + Window" for now by (simp add: Window_def)
    then have "ag_inv (entered ip (ag_next (ar_guard r1)) (opened ip r1))"
      by (intro entered_inv opened_inv [OF inv1 abs1 len]) (use ag_invD(1) [OF inv1] in auto)
    moreover have "entered ip (ag_next (ar_guard r1)) (opened ip r1)
        = r\<lparr>ar_guard := g, ar_open := (ip, a) # ar_open r, ar_born := (ar_born r)(a := ar_now r),
            ar_owner := (ar_owner r)(a := ip)\<rparr>"
      using fresh len that n1 a eq by (auto simp: Let_def r1_def entered_def opened_def)
    ultimately show ?thesis using a by simp
  qed
qed

lemma begin_inv:
  assumes inv: "ag_inv r" and beg: "Begin (ar_now r) ip (ar_guard r) = (res, g)"
  shows "case res of None \<Rightarrow> ag_inv (r\<lparr>ar_guard := g\<rparr>) | Some a \<Rightarrow> ag_inv (granted_run ip a g r)"
proof (cases "map_of (ag_sources (ar_guard r)) ip")
  case None
  then have "begin_fresh (ar_now r) ip (ar_guard r) = (res, g)" using beg by (simp add: Begin_def)
  note f = fresh_inv [OF inv None this]
  show ?thesis
  proof (cases res)
    case (Some a)
    then have "a = ag_next (ar_guard r)" "ag_inv (r\<lparr>ar_guard := g, ar_open := (ip, a) # ar_open r,
        ar_born := (ar_born r)(a := ar_now r), ar_owner := (ar_owner r)(a := ip)\<rparr>)"
      using f(2) by blast+
    then show ?thesis using Some by (simp add: granted_run_def)
  qed (use f(1) in simp)
next
  case (Some b)
  let ?s = "ag_heap (ar_guard r) b"
  have own: "b < ag_next (ar_guard r)" using filed_owner [OF inv Some] by simp
  have act: "0 \<le> so_active ?s"
    using ag_invD(6) [OF inv own] by (simp add: entry_inv_def fine_def open_count_def)
  consider (busy) "\<not> ar_now r < so_until ?s" "0 < so_active ?s" | (old) "\<not> ar_now r < so_until ?s" "so_active ?s = 0"
    | (live) "ar_now r < so_until ?s" using act by linarith
  then show ?thesis
  proof cases
    case busy
    with beg Some have "res = None" "g = ar_guard r" by (simp_all add: Begin_def Let_def)
    with inv show ?thesis by simp
  next
    case old
    define d where "d = (ar_guard r)\<lparr>ag_sources := AList.delete ip (ag_sources (ar_guard r))\<rparr>"
    define rd where "rd = r\<lparr>ar_guard := d\<rparr>"
    have fr: "begin_fresh (ar_now rd) ip (ar_guard rd) = (res, g)"
      using beg Some old by (simp add: Begin_def Let_def rd_def d_def)
    have id: "ag_inv rd" using delete_inv [OF inv order_refl Some old] by (simp add: rd_def d_def)
    have none: "map_of (ag_sources (ar_guard rd)) ip = None" by (simp add: rd_def d_def)
    note f = fresh_inv [OF id none fr]
    have nx: "ag_next (ar_guard rd) = ag_next (ar_guard r)" by (simp add: rd_def d_def)
    show ?thesis
    proof (cases res)
      case None
      with f(1) show ?thesis by (simp add: rd_def)
    next
      case (Some a)
      then have "a = ag_next (ar_guard r)" "ag_inv (rd\<lparr>ar_guard := g, ar_open := (ip, a) # ar_open rd,
          ar_born := (ar_born rd)(a := ar_now rd), ar_owner := (ar_owner rd)(a := ip)\<rparr>)"
        using f(2) unfolding nx by blast+
      then show ?thesis using Some by (simp add: rd_def granted_run_def)
    qed
  next
    case live
    then have en: "enter (ar_now r) b (ar_guard r) = (res, g)" using beg Some by (simp add: Begin_def Let_def)
    show ?thesis
    proof (cases "ar_now r < so_blocked ?s \<or> so_active ?s \<ge> 2")
      case True
      with en have "res = None" "g = ar_guard r" by (simp_all add: enter_def Let_def)
      with inv show ?thesis by simp
    next
      case False
      then have "ag_inv (entered ip b r)" using live Some by (intro entered_inv [OF inv]) simp_all
      moreover have "res = Some b" "granted_run ip b g r = entered ip b r"
        using en False own by (auto simp: enter_def Let_def entered_def granted_run_def)
      ultimately show ?thesis by simp
    qed
  qed
qed

interpretation abuse: invariant_system ag_init ag_step ag_inv
proof
  show "ag_inv r" if "ag_init r" for r
    using that by (simp add: ag_init_def ag_inv_def owned_def spaced_def latest_def)
  show "ag_inv r'" if inv: "ag_inv r" and step: "ag_step r r'" for r r'
    using step
  proof (cases rule: ag_step.cases)
    case (granted now ip a g)
    then show ?thesis using begin_inv [of "r\<lparr>ar_now := now\<rparr>" ip "Some a" g] tick_inv [OF inv granted(2)] by simp
  next
    case (refused now ip g)
    then show ?thesis using begin_inv [of "r\<lparr>ar_now := now\<rparr>" ip None g] tick_inv [OF inv refused(2)] by simp
  next
    case (finished now ip a failed)
    then show ?thesis using finished_inv [OF inv finished(2,3)] by simp
  next
    case (swept now)
    then show ?thesis using sweep_inv [OF inv swept(2)] by simp
  qed
qed

section \<open>Properties\<close>

text \<open>
  C17. Guessing from one source is bounded whatever the order of concurrent verifications:
  against one entry at most two verifications run at a time and at most thirteen ever fail,
  and once one has failed the source gets no other entry within ten minutes of that entry's
  creation. The guard never keeps more than 4096 entries.
\<close>

theorem guessing_bounded:
  assumes "reach ag_init ag_step r"
  shows "length (ag_sources (ar_guard r)) \<le> 4096
    \<and> (\<forall>a < ag_next (ar_guard r). so_active (ag_heap (ar_guard r) a) \<le> 2 \<and> ar_failed r a \<le> 13)
    \<and> (\<forall>a b. a < b \<and> b < ag_next (ar_guard r) \<and> ar_owner r a = ar_owner r b \<and> 0 < ar_failed r a \<longrightarrow>
         ar_born r a + 10 * minute \<le> ar_born r b)"
proof -
  have inv: "ag_inv r" using assms by (rule abuse.reach_inv)
  have "so_active (ag_heap (ar_guard r) a) \<le> 2 \<and> ar_failed r a \<le> 13" if "a < ag_next (ar_guard r)" for a
  proof -
    have "0 \<le> open_count (ar_open r) a" by (simp add: open_count_def)
    then show ?thesis using ag_invD(6) [OF inv that] by (auto simp: entry_inv_def fine_def FailureLimit_def)
  qed
  with ag_invD(3,7) [OF inv] show ?thesis by (simp add: spaced_def MaxSources_def Window_def)
qed

text \<open>
  A source that is blocked stays refused until its deadline: no verification begins,
  the refusal changes nothing, in particular it does not extend the deadline, and \<open>Blocked\<close>
  reports the time that is left.
\<close>

theorem blocked_is_refused:
  assumes "reach ag_init ag_step r" "map_of (ag_sources (ar_guard r)) ip = Some a"
    and "now < so_blocked (ag_heap (ar_guard r) a)" "ar_now r \<le> now"
  shows "Begin now ip (ar_guard r) = (None, ar_guard r)
    \<and> Blocked now ip (ar_guard r) = time_sub (so_blocked (ag_heap (ar_guard r) a)) now
    \<and> 0 < Blocked now ip (ar_guard r)"
proof -
  have inv: "ag_inv r" using assms(1) by (rule abuse.reach_inv)
  have "so_until (ag_heap (ar_guard r) a) = so_blocked (ag_heap (ar_guard r) a)"
    using ag_invD(6) [OF inv, of a] ag_invD(1) [OF inv] filed_owner [OF inv assms(2)] assms(3,4)
    by (auto simp: entry_inv_def fine_def)
  with assms(2,3) show ?thesis by (simp add: Begin_def enter_def Blocked_def Let_def time_sub_def)
qed

section \<open>A sample run\<close>

definition sample_start :: ag_run where
  "sample_start = \<lparr>ar_guard = \<lparr>ag_sources = [],
        ag_heap = (\<lambda>_. \<lparr>so_until = 0, so_blocked = 0, so_failures = 0, so_active = 0\<rparr>), ag_next = 0\<rparr>,
     ar_now = 1, ar_open = [], ar_failed = (\<lambda>_. 0), ar_born = (\<lambda>_. 0), ar_owner = (\<lambda>_. '''')\<rparr>"

text \<open>One wrong password from the source \<open>x\<close>.\<close>

definition wrong_guess :: "ag_run \<Rightarrow> ag_run" where
  "wrong_guess r =
     (case Begin 1 ''x'' (ar_guard r) of
        (None, g) \<Rightarrow> r\<lparr>ar_now := 1, ar_guard := g\<rparr>
      | (Some a, g) \<Rightarrow>
         (let t = granted_run ''x'' a g (r\<lparr>ar_now := 1\<rparr>) in
          t\<lparr>ar_guard := finish 1 ''x'' a True (ar_guard t), ar_now := 1, ar_open := remove1 (''x'', a) (ar_open t),
            ar_failed := (ar_failed t)(a := Suc (ar_failed t a))\<rparr>))"

lemma wrong_guess_reach:
  assumes "reach ag_init ag_step r" "ar_now r = 1"
  shows "reach ag_init ag_step (wrong_guess r) \<and> ar_now (wrong_guess r) = 1"
proof (cases "Begin 1 ''x'' (ar_guard r)")
  case (Pair res g)
  show ?thesis
  proof (cases res)
    case None
    have "ag_step r (r\<lparr>ar_now := 1, ar_guard := g\<rparr>)"
      using refused [of r 1 "''x''" g] Pair None assms(2) by simp
    with assms Pair None show ?thesis by (simp add: wrong_guess_def reach_step)
  next
    case (Some a)
    let ?t = "granted_run ''x'' a g (r\<lparr>ar_now := 1\<rparr>)"
    have "ag_step r ?t" using granted [of r 1 "''x''" a g] Pair Some assms(2) by simp
    then have t: "reach ag_init ag_step ?t" using assms(1) by (rule reach_step [rotated])
    have "ag_step ?t (wrong_guess r)"
      using finished [of ?t 1 "''x''" a True] Pair Some by (simp add: wrong_guess_def granted_run_def)
    with t have "reach ag_init ag_step (wrong_guess r)" by (rule reach_step)
    then show ?thesis using Pair Some by (simp add: wrong_guess_def Let_def)
  qed
qed

lemma sample_guesses: "reach ag_init ag_step ((wrong_guess ^^ n) sample_start) \<and> ar_now ((wrong_guess ^^ n) sample_start) = 1"
proof (induction n)
  case 0
  show ?case by (simp add: reach_init ag_init_def sample_start_def)
qed (simp add: wrong_guess_reach)

definition guessed :: "nat \<Rightarrow> ag_run \<Rightarrow> bool" where
  "guessed n r \<longleftrightarrow> ag_sources (ar_guard r) = [(''x'', 0)] \<and> ag_next (ar_guard r) = 1 \<and> ar_open r = [] \<and> ar_failed r 0 = n
     \<and> ag_heap (ar_guard r) 0 = \<lparr>so_until = 600000000001, so_blocked = (if n = 12 then 600000000001 else 0),
          so_failures = int n, so_active = 0\<rparr>"

lemma guessed_first: "guessed 1 (wrong_guess sample_start)"
  by (simp add: guessed_def wrong_guess_def sample_start_def Begin_def begin_fresh_def enter_def granted_run_def
      finish_def count_failure_def Let_def MaxSources_def Window_def BlockDuration_def FailureLimit_def)

lemma guessed_next: "guessed n r \<Longrightarrow> n < 12 \<Longrightarrow> guessed (Suc n) (wrong_guess r)"
  by (auto simp: guessed_def wrong_guess_def Begin_def enter_def granted_run_def finish_def count_failure_def Let_def
      BlockDuration_def FailureLimit_def)

lemma guessed_all: "n < 12 \<Longrightarrow> guessed (Suc n) ((wrong_guess ^^ Suc n) sample_start)"
proof (induction n)
  case 0
  then show ?case using guessed_first by simp
next
  case (Suc n)
  then have "guessed (Suc n) ((wrong_guess ^^ Suc n) sample_start)" by simp
  from guessed_next [OF this] Suc.prems show ?case by simp
qed

lemma sample_blocked:
  "map_of (ag_sources (ar_guard ((wrong_guess ^^ 12) sample_start))) ''x'' = Some 0
   \<and> so_blocked (ag_heap (ar_guard ((wrong_guess ^^ 12) sample_start)) 0) = 600000000001
   \<and> ar_failed ((wrong_guess ^^ 12) sample_start) 0 = 12"
  using guessed_all [of 11] by (simp only: guessed_def) simp

theorem guessing_bounded_witness:
  "ar_failed ((wrong_guess ^^ 12) sample_start) 0 = 12
   \<and> length (ag_sources (ar_guard ((wrong_guess ^^ 12) sample_start))) \<le> 4096"
  using guessing_bounded [of "(wrong_guess ^^ 12) sample_start"] sample_guesses [of 12] sample_blocked by blast

theorem blocked_is_refused_witness:
  "fst (Begin 600000000000 ''x'' (ar_guard ((wrong_guess ^^ 12) sample_start))) = None"
  using blocked_is_refused [of "(wrong_guess ^^ 12) sample_start" "''x''" 0 600000000000]
    sample_guesses [of 12] sample_blocked by simp

end
