(* ===== verification/Memory_Guard.thy ===== *)
theory Memory_Guard
  imports Go_Lib "HOL-Library.Word"
begin

text \<open>
  The last-resort memory policy (\<open>pkg/memoryguard/guard.go\<close>). Sizes are 64-bit words as in
  the code. What a step observes (the sample, the clock, whether workers are stopping) and
  what the injected \<open>Restart\<close> does with the checkpoint it is given are the inputs of the step.
\<close>

section \<open>Thresholds\<close>

type_synonym u64 = "64 word"

definition mib :: u64 where "mib = 1024 * 1024"

definition Thresholds :: "u64 \<Rightarrow> u64 \<times> u64" where
  "Thresholds sz =
     (max (256 * mib) (min (1024 * mib) (sz div 10)), max (512 * mib) (min (2048 * mib) (sz div 5)))"

section \<open>The guard\<close>

record sample =
  sm_private :: u64
  sm_total :: u64

datatype receipt = NoReceipt | Receipt gotime | CorruptReceipt

record mguard =
  mg_phase :: string
  mg_last_restart :: gotime
  mg_critical :: int
  mg_last_cleanup :: gotime
  mg_blocked :: bool

text \<open>
  The inputs of a step: \<open>si_now k\<close> is the \<open>k\<close>-th reading of the clock; \<open>si_calls\<close> says
  whether \<open>Restart\<close> invokes the checkpoint, \<open>si_ok\<close> whether it succeeds, given the
  outcome of the checkpoint.
\<close>

record step_in =
  si_sample :: "sample option"
  si_stopped :: bool
  si_stopped_after :: bool
  si_now :: "nat \<Rightarrow> gotime"
  si_has_restart :: bool
  si_calls :: bool
  si_save :: save_outcome
  si_ok :: "bool \<Rightarrow> bool"

definition Cooldown :: duration where "Cooldown = 6 * hour"

definition publish :: "string \<Rightarrow> mguard \<Rightarrow> mguard" where
  "publish phase g = g\<lparr>mg_phase := phase\<rparr>"

definition Load :: "receipt \<Rightarrow> mguard \<Rightarrow> mguard" where
  "Load d g =
     (case d of NoReceipt \<Rightarrow> g | Receipt t \<Rightarrow> g\<lparr>mg_last_restart := t\<rparr> | CorruptReceipt \<Rightarrow> g\<lparr>mg_blocked := True\<rparr>)"

text \<open>The checkpoint records the attempt in memory, then on disk.\<close>

definition checkpoint :: "step_in \<Rightarrow> mguard \<Rightarrow> receipt \<Rightarrow> bool \<times> mguard \<times> receipt" where
  "checkpoint i g d =
     (let t = si_now i 4; g' = g\<lparr>mg_last_restart := t\<rparr> in
      case si_save i of
        SaveOk \<Rightarrow> (True, g', Receipt t) | SaveUnsynced \<Rightarrow> (False, g', Receipt t) | SaveFail \<Rightarrow> (False, g', d))"

definition restart :: "step_in \<Rightarrow> mguard \<Rightarrow> receipt \<Rightarrow> bool \<times> mguard \<times> receipt" where
  "restart i g d =
     (let (saved, g1, d1) = (if si_calls i then checkpoint i g d else (False, g, d)) in
      if \<not> si_ok i saved
      then (False, publish (if si_stopped_after i then ''recovery_required'' else ''deferred'') g1, d1)
      else (True, publish ''restarting'' g1, d1))"

definition Step :: "step_in \<Rightarrow> mguard \<Rightarrow> receipt \<Rightarrow> bool \<times> mguard \<times> receipt" where
  "Step i g d =
     (if si_stopped i then (False, publish ''recovery_required'' g, d)
      else (case si_sample i of
          None \<Rightarrow> (False, publish ''unavailable'' (g\<lparr>mg_critical := 0\<rparr>), d)
        | Some sm \<Rightarrow>
           if sm_total sm = 0 then (False, publish ''unavailable'' (g\<lparr>mg_critical := 0\<rparr>), d)
           else
            (let (warn, critical) = Thresholds (sm_total sm) in
             if sm_private sm < warn * 3 div 4 then (False, publish ''normal'' (g\<lparr>mg_critical := 0\<rparr>), d)
             else if sm_private sm < warn then (False, g\<lparr>mg_critical := 0\<rparr>, d)
             else
              (let g1 = publish ''warning'' g in
               if mg_last_cleanup g1 = 0 \<or> time_sub (si_now i 1) (mg_last_cleanup g1) \<ge> 30 * minute
                 then (False, g1\<lparr>mg_last_cleanup := si_now i 2, mg_critical := 0\<rparr>, d)
               else if sm_private sm < critical then (False, g1\<lparr>mg_critical := 0\<rparr>, d)
               else
                (let g2 = g1\<lparr>mg_critical := mg_critical g1 + 1\<rparr> in
                 if mg_critical g2 < 3 then (False, g2, d)
                 else if mg_blocked g2 \<or> (mg_last_restart g2 \<noteq> 0 \<and> time_sub (si_now i 3) (mg_last_restart g2) < Cooldown)
                   then (False, publish ''cooldown'' g2, d)
                 else if \<not> si_has_restart i then (False, publish ''deferred'' g2, d)
                 else restart i (publish ''draining'' g2) d)))))"

section \<open>Runs\<close>

definition fresh_guard :: mguard where
  "fresh_guard = \<lparr>mg_phase = '''', mg_last_restart = 0, mg_critical = 0, mg_last_cleanup = 0, mg_blocked = False\<rparr>"

text \<open>
  What \<open>Restart\<close> promises: it reports success only after the checkpoint it invoked succeeded.
  The clock does not go back.
\<close>

definition restart_contract :: "step_in \<Rightarrow> bool" where
  "restart_contract i \<longleftrightarrow> \<not> si_ok i False \<and> (si_ok i True \<longrightarrow> si_calls i)"

record mg_run =
  mr_clock :: gotime
  mr_guard :: mguard
  mr_disk :: receipt
  mr_restarts :: "gotime list"
  mr_inputs :: "step_in list"

definition mg_init :: "mg_run \<Rightarrow> bool" where
  "mg_init r \<longleftrightarrow> 0 < mr_clock r \<and> mr_guard r = Load (mr_disk r) fresh_guard \<and> mr_restarts r = [] \<and> mr_inputs r = []"

text \<open>A step of the guard, or a new process that loads the receipt.\<close>

inductive mg_step :: "mg_run \<Rightarrow> mg_run \<Rightarrow> bool" where
  stepped: "mr_clock r \<le> si_now i 0 \<Longrightarrow> mono (si_now i) \<Longrightarrow> restart_contract i \<Longrightarrow>
    Step i (mr_guard r) (mr_disk r) = (b, g, d) \<Longrightarrow>
    mg_step r (r\<lparr>mr_clock := si_now i 5, mr_guard := g, mr_disk := d,
      mr_restarts := (if b then mg_last_restart g # mr_restarts r else mr_restarts r),
      mr_inputs := i # mr_inputs r\<rparr>)"
| replaced: "mr_clock r \<le> now \<Longrightarrow>
    mg_step r (r\<lparr>mr_clock := now, mr_guard := Load (mr_disk r) fresh_guard, mr_inputs := []\<rparr>)"

section \<open>Thresholds do not wrap\<close>

lemma max_word_bounds: "max (a :: u64) (min b c) \<le> max a b" "a \<le> max (a :: u64) x"
  by (auto simp: max_def min_def)

lemma thresholds_bounds:
  assumes "Thresholds sz = (warn, critical)"
  shows "256 * mib \<le> warn \<and> warn \<le> 1024 * mib \<and> 512 * mib \<le> critical \<and> critical \<le> 2048 * mib"
  using assms by (auto simp: Thresholds_def mib_def max_def min_def)

text \<open>
  The thresholds are sane for every memory size: between 256 MiB and 1 GiB for the
  warning, between 512 MiB and 2 GiB for the critical one, the warning never above the
  critical one, and the hysteresis bound at three quarters of the warning is computed
  without wrap-around.
\<close>

theorem thresholds_sane:
  assumes "Thresholds sz = (warn, critical)"
  shows "256 * mib \<le> warn \<and> warn \<le> 1024 * mib \<and> 512 * mib \<le> critical \<and> critical \<le> 2048 * mib
    \<and> warn \<le> critical \<and> unat (warn * 3 div 4) = unat warn * 3 div 4"
proof -
  have b: "unat warn \<le> 1024 * 1024 * 1024"
    using thresholds_bounds [OF assms] by (simp add: word_le_nat_alt mib_def)
  then have "unat (warn * 3) = unat warn * 3" by (simp add: unat_word_ariths)
  then have "unat (warn * 3 div 4) = unat warn * 3 div 4" by (simp add: unat_div)
  moreover have "sz div 10 \<le> sz div 5" by (simp add: word_le_nat_alt unat_div div_le_mono2)
  then have "warn \<le> critical"
    using assms by (auto simp: Thresholds_def mib_def max_def min_def word_le_nat_alt split: if_splits)
  ultimately show ?thesis using thresholds_bounds [OF assms] by simp
qed

lemma sample_thresholds: "Thresholds (8 * 1024 * mib) = (858993459, 1717986918)"
  by (simp add: Thresholds_def mib_def max_def min_def)

theorem thresholds_sane_witness: "unat ((858993459 :: u64) * 3 div 4) = unat (858993459 :: u64) * 3 div 4"
  using thresholds_sane [OF sample_thresholds] by blast

section \<open>Restarts\<close>

text \<open>A sample that is critical.\<close>

definition critical_sample :: "step_in \<Rightarrow> bool" where
  "critical_sample i =
     (case si_sample i of
        None \<Rightarrow> False
      | Some sm \<Rightarrow> sm_total sm \<noteq> 0 \<and> fst (Thresholds (sm_total sm)) \<le> sm_private sm
          \<and> snd (Thresholds (sm_total sm)) \<le> sm_private sm)"

text \<open>What one step can do to the counter, to the time of the last restart and to the receipt.\<close>

definition step_effect :: "step_in \<Rightarrow> mguard \<Rightarrow> receipt \<Rightarrow> bool \<times> mguard \<times> receipt \<Rightarrow> bool" where
  "step_effect i g d res \<longleftrightarrow>
     (case res of (b, g', d') \<Rightarrow>
        mg_blocked g' = mg_blocked g
        \<and> (if si_stopped i then mg_critical g' = mg_critical g
           else mg_critical g' = 0 \<or> critical_sample i \<and> mg_critical g' = mg_critical g + 1)
        \<and> (mg_last_restart g' = mg_last_restart g \<and> d' = d
           \<or> mg_last_restart g' = si_now i 4 \<and> (d' = d \<or> d' = Receipt (si_now i 4)))
        \<and> (b \<longrightarrow> \<not> si_stopped i \<and> critical_sample i \<and> 3 \<le> mg_critical g + 1 \<and> \<not> mg_blocked g
             \<and> (mg_last_restart g \<noteq> 0 \<longrightarrow> Cooldown \<le> time_sub (si_now i 3) (mg_last_restart g))
             \<and> mg_last_restart g' = si_now i 4 \<and> d' = Receipt (si_now i 4)))"

lemma restart_effect:
  assumes "restart_contract i" "restart i g d = (b, g', d')"
  shows "mg_blocked g' = mg_blocked g \<and> mg_critical g' = mg_critical g
    \<and> (mg_last_restart g' = mg_last_restart g \<and> d' = d
       \<or> mg_last_restart g' = si_now i 4 \<and> (d' = d \<or> d' = Receipt (si_now i 4)))
    \<and> (b \<longrightarrow> mg_last_restart g' = si_now i 4 \<and> d' = Receipt (si_now i 4))"
  using assms
  by (cases "si_calls i"; cases "si_save i")
    (auto simp: restart_def checkpoint_def publish_def restart_contract_def Let_def split: if_splits)

lemma Step_effect:
  assumes "restart_contract i"
  shows "step_effect i g d (Step i g d)"
proof (cases "si_sample i")
  case (Some sm)
  obtain warn critical where th: "Thresholds (sm_total sm) = (warn, critical)" by (cases "Thresholds (sm_total sm)")
  let ?g2 = "publish ''draining'' ((publish ''warning'' g)\<lparr>mg_critical := mg_critical g + 1\<rparr>)"
  obtain b g' d' where rs: "restart i ?g2 d = (b, g', d')" by (cases "restart i ?g2 d")
  show ?thesis
    using Some th rs restart_effect [OF assms rs]
    by (auto simp: Step_def step_effect_def critical_sample_def publish_def Let_def not_less)
qed (auto simp: Step_def step_effect_def publish_def)

definition streak :: "step_in list \<Rightarrow> int" where
  "streak is = int (length (takeWhile critical_sample (filter (\<lambda>i. \<not> si_stopped i) is)))"

definition mg_inv :: "mg_run \<Rightarrow> bool" where
  "mg_inv r \<longleftrightarrow> 0 < mr_clock r \<and> mg_critical (mr_guard r) \<le> streak (mr_inputs r)
     \<and> sorted_wrt (\<lambda>a b. b + Cooldown \<le> a) (mr_restarts r)
     \<and> (\<forall>t \<in> set (mr_restarts r). 0 < t \<and> t \<le> mr_clock r
          \<and> (\<exists>u. mr_disk r = Receipt u \<and> t \<le> u) \<and> t \<le> mg_last_restart (mr_guard r))"

lemma streak_Cons:
  "streak (i # is) = (if si_stopped i then streak is else if critical_sample i then streak is + 1 else 0)"
  by (simp add: streak_def)

lemma streak_nonneg: "0 \<le> streak is"
  by (simp add: streak_def)

lemma stepped_inv:
  assumes inv: "mg_inv r" and clock: "mr_clock r \<le> si_now i 0" and mono: "mono (si_now i)"
    and contract: "restart_contract i" and step: "Step i (mr_guard r) (mr_disk r) = (b, g, d)"
  shows "mg_inv (r\<lparr>mr_clock := si_now i 5, mr_guard := g, mr_disk := d,
      mr_restarts := (if b then mg_last_restart g # mr_restarts r else mr_restarts r), mr_inputs := i # mr_inputs r\<rparr>)"
proof -
  have e: "step_effect i (mr_guard r) (mr_disk r) (b, g, d)" using Step_effect [OF contract] step by metis
  have now: "mr_clock r \<le> si_now i 4" "si_now i 4 \<le> si_now i 5" "si_now i 3 \<le> si_now i 4" "mr_clock r \<le> si_now i 5"
    using clock monoD [OF mono, of 0 4] monoD [OF mono, of 4 5] monoD [OF mono, of 3 4] by simp_all
  have crit: "mg_critical g \<le> streak (i # mr_inputs r)"
    using e inv streak_nonneg [of "mr_inputs r"] by (auto simp: step_effect_def mg_inv_def streak_Cons split: if_splits)
  have old: "0 < t \<and> t \<le> si_now i 5 \<and> (\<exists>u. d = Receipt u \<and> t \<le> u) \<and> t \<le> mg_last_restart g"
    if "t \<in> set (mr_restarts r)" for t
  proof -
    have "0 < t" "t \<le> mr_clock r" "\<exists>u. mr_disk r = Receipt u \<and> t \<le> u" "t \<le> mg_last_restart (mr_guard r)"
      using inv that by (auto simp: mg_inv_def)
    with e now show ?thesis by (auto simp: step_effect_def)
  qed
  have gap: "t + Cooldown \<le> mg_last_restart g" if "b" "t \<in> set (mr_restarts r)" for t
  proof -
    have t: "0 < t" "t \<le> mg_last_restart (mr_guard r)" using inv that(2) by (auto simp: mg_inv_def)
    with e that(1) have "Cooldown \<le> time_sub (si_now i 3) (mg_last_restart (mr_guard r))" "mg_last_restart g = si_now i 4"
      by (auto simp: step_effect_def)
    with t now show ?thesis by (simp add: time_sub_def Cooldown_def)
  qed
  have new: "0 < mg_last_restart g \<and> mg_last_restart g \<le> si_now i 5 \<and> d = Receipt (mg_last_restart g)" if "b"
    using e that now inv by (auto simp: step_effect_def mg_inv_def)
  show ?thesis using inv crit old gap new now by (auto simp: mg_inv_def)
qed

interpretation memory: invariant_system mg_init mg_step mg_inv
proof
  show "mg_inv r" if "mg_init r" for r
    using that by (auto simp: mg_init_def mg_inv_def streak_def fresh_guard_def Load_def split: receipt.split)
  show "mg_inv r'" if inv: "mg_inv r" and "mg_step r r'" for r r'
    using that(2)
  proof (cases rule: mg_step.cases)
    case (stepped i b g d)
    then show ?thesis using stepped_inv [OF inv stepped(2-5)] by simp
  next
    case (replaced now)
    then show ?thesis using inv by (fastforce simp: mg_inv_def streak_def fresh_guard_def Load_def split: receipt.split)
  qed
qed

text \<open>
  C34. Restarts are at least six hours apart, across any number of process replacements and
  failed attempts: the times recorded by the successful restarts of a run, latest first, are
  separated by the cooldown, and each is covered by the receipt on disk.
\<close>

theorem restarts_spaced:
  assumes "reach mg_init mg_step r"
  shows "sorted_wrt (\<lambda>a b. b + 6 * hour \<le> a) (mr_restarts r)
    \<and> (\<forall>t \<in> set (mr_restarts r). \<exists>u. mr_disk r = Receipt u \<and> t \<le> u)"
  using memory.reach_inv [OF assms] by (simp add: mg_inv_def Cooldown_def)

text \<open>
  A restart needs three critical samples in a row in the same process, the present one
  included, with no sample below the critical threshold in between.
\<close>

theorem restart_needs_three:
  assumes "reach mg_init mg_step r" "restart_contract i" "Step i (mr_guard r) (mr_disk r) = (True, g, d)"
  shows "critical_sample i \<and> (\<exists>a b rest. filter (\<lambda>j. \<not> si_stopped j) (mr_inputs r) = a # b # rest
    \<and> critical_sample a \<and> critical_sample b)"
proof -
  let ?js = "filter (\<lambda>j. \<not> si_stopped j) (mr_inputs r)"
  have e: "step_effect i (mr_guard r) (mr_disk r) (True, g, d)" using Step_effect [OF assms(2)] assms(3) by metis
  have "mg_critical (mr_guard r) \<le> streak (mr_inputs r)" using memory.reach_inv [OF assms(1)] by (simp add: mg_inv_def)
  with e have "2 \<le> length (takeWhile critical_sample ?js)" by (simp add: step_effect_def streak_def)
  then obtain a b rest where "takeWhile critical_sample ?js = a # b # rest"
    by (cases "takeWhile critical_sample ?js"; cases "tl (takeWhile critical_sample ?js)") auto
  then have "\<exists>a b rest. ?js = a # b # rest \<and> critical_sample a \<and> critical_sample b"
    by (cases ?js; cases "tl ?js") (auto split: if_splits)
  with e show ?thesis by (simp add: step_effect_def)
qed

section \<open>A sample run\<close>

definition sample_pressure :: "gotime \<Rightarrow> step_in" where
  "sample_pressure t = \<lparr>si_sample = Some \<lparr>sm_private = 4096 * mib, sm_total = 8192 * mib\<rparr>, si_stopped = False,
     si_stopped_after = False, si_now = (\<lambda>_. t), si_has_restart = True, si_calls = True, si_save = SaveOk,
     si_ok = (\<lambda>saved. saved)\<rparr>"

definition run_step :: "step_in \<Rightarrow> mg_run \<Rightarrow> mg_run" where
  "run_step i r =
     (case Step i (mr_guard r) (mr_disk r) of (b, g, d) \<Rightarrow>
        r\<lparr>mr_clock := si_now i 5, mr_guard := g, mr_disk := d,
          mr_restarts := (if b then mg_last_restart g # mr_restarts r else mr_restarts r), mr_inputs := i # mr_inputs r\<rparr>)"

definition sample_calm :: mg_run where
  "sample_calm = \<lparr>mr_clock = 1, mr_guard = fresh_guard, mr_disk = NoReceipt, mr_restarts = [], mr_inputs = []\<rparr>"

definition sample_tight :: mg_run where
  "sample_tight = run_step (sample_pressure 4) (run_step (sample_pressure 3) (run_step (sample_pressure 2) sample_calm))"

lemma pressure_contract [simp]: "restart_contract (sample_pressure t)" "mono (si_now (sample_pressure t))"
  by (simp_all add: restart_contract_def sample_pressure_def mono_def)

lemma run_step_reach:
  assumes "reach mg_init mg_step r" "mr_clock r \<le> t"
  shows "reach mg_init mg_step (run_step (sample_pressure t) r)"
proof -
  obtain b g d where "Step (sample_pressure t) (mr_guard r) (mr_disk r) = (b, g, d)"
    by (cases "Step (sample_pressure t) (mr_guard r) (mr_disk r)")
  with assms(2) have "mg_step r (run_step (sample_pressure t) r)"
    using stepped [of r "sample_pressure t" b g d] by (simp add: run_step_def sample_pressure_def mono_def restart_contract_def)
  with assms(1) show ?thesis by (rule reach_step)
qed

lemma run_step_clock: "mr_clock (run_step (sample_pressure t) r) = t"
  by (simp add: run_step_def sample_pressure_def case_prod_unfold)

lemma sample_tight_reach: "reach mg_init mg_step sample_tight"
proof -
  have "reach mg_init mg_step sample_calm"
    by (simp add: reach_init mg_init_def sample_calm_def Load_def)
  then show ?thesis unfolding sample_tight_def by (intro run_step_reach) (simp_all add: run_step_clock sample_calm_def)
qed

lemma pressure_step:
  "Step (sample_pressure t) g d =
     (let g1 = publish ''warning'' g in
      if mg_last_cleanup g = 0 \<or> time_sub t (mg_last_cleanup g) \<ge> 30 * minute
        then (False, g1\<lparr>mg_last_cleanup := t, mg_critical := 0\<rparr>, d)
      else let g2 = g1\<lparr>mg_critical := mg_critical g + 1\<rparr> in
        if mg_critical g + 1 < 3 then (False, g2, d)
        else if mg_blocked g \<or> (mg_last_restart g \<noteq> 0 \<and> time_sub t (mg_last_restart g) < Cooldown)
          then (False, publish ''cooldown'' g2, d)
        else (True, publish ''restarting'' ((publish ''draining'' g2)\<lparr>mg_last_restart := t\<rparr>), Receipt t))"
proof -
  have "Thresholds (8192 * mib) = (858993459, 1717986918)"
    by (simp add: Thresholds_def mib_def max_def min_def)
  then show ?thesis
    by (simp add: Step_def sample_pressure_def Let_def publish_def restart_def checkpoint_def mib_def)
qed

lemma sample_tight_guard:
  "mr_guard sample_tight = \<lparr>mg_phase = ''warning'', mg_last_restart = 0, mg_critical = 2, mg_last_cleanup = 2, mg_blocked = False\<rparr>"
  by (simp add: sample_tight_def run_step_def sample_calm_def pressure_step fresh_guard_def publish_def Let_def time_sub_def
      case_prod_unfold)

lemma sample_restart: "fst (Step (sample_pressure 5) (mr_guard sample_tight) (mr_disk sample_tight))"
  by (simp add: pressure_step sample_tight_guard publish_def Let_def time_sub_def)

theorem restart_needs_three_witness:
  "\<exists>a b rest. filter (\<lambda>j. \<not> si_stopped j) (mr_inputs sample_tight) = a # b # rest \<and> critical_sample a \<and> critical_sample b"
proof -
  obtain g d where "Step (sample_pressure 5) (mr_guard sample_tight) (mr_disk sample_tight) = (True, g, d)"
    using sample_restart by (cases "Step (sample_pressure 5) (mr_guard sample_tight) (mr_disk sample_tight)") auto
  from restart_needs_three [OF sample_tight_reach pressure_contract(1) this] show ?thesis by blast
qed

lemma sample_restarted: "mr_restarts (run_step (sample_pressure 5) sample_tight) = [5]"
  by (simp add: run_step_def pressure_step sample_tight_guard publish_def Let_def time_sub_def)
    (simp add: sample_tight_def run_step_def sample_calm_def pressure_step fresh_guard_def publish_def Let_def time_sub_def
      case_prod_unfold)

theorem restarts_spaced_witness:
  "\<exists>u. mr_disk (run_step (sample_pressure 5) sample_tight) = Receipt u \<and> 5 \<le> u"
proof -
  have "mr_clock sample_tight \<le> 5" by (simp add: sample_tight_def run_step_clock)
  then have "reach mg_init mg_step (run_step (sample_pressure 5) sample_tight)"
    using sample_tight_reach by (intro run_step_reach)
  from restarts_spaced [OF this] show ?thesis by (simp add: sample_restarted)
qed

end
