(* ===== verification/Supervisor.thy ===== *)
theory Supervisor
  imports Go_Lib
begin

text \<open>
  The repository supervisor (\<open>pkg/reposupervisor/supervisor.go\<close>), which reconciles a server's
  projection with the running pipelines. The injected starter and the instances it returns are
  the parameter \<open>sup_env\<close>; an instance is known by its number, and every start and stop that
  took place, failed or not, is kept in a log.
\<close>

section \<open>Data\<close>

record key =
  key_server :: string
  key_repo :: string

record desired =
  ds_key :: key
  ds_access :: string
  ds_state :: string
  ds_url :: string
  ds_display_name :: string
  ds_editing_policy :: string
  ds_session_timeout :: duration

datatype sup_event =
    Started key nat | StartFailed key | Stopped key nat | StopFailed key nat | Transition desired

record emitted =
  ev_key :: key
  ev_action :: string
  ev_access :: string

record sup_env =
  se_start :: "sup_event list \<Rightarrow> desired \<Rightarrow> (string, nat) result"
  se_stop :: "sup_event list \<Rightarrow> nat \<Rightarrow> string option"

record supervisor =
  sv_generation :: "(string, int) assoc"
  sv_live :: "(key, desired \<times> nat) assoc"
  sv_log :: "sup_event list"
  sv_emitted :: "emitted list"

datatype sup_err =
    InvalidRequest | StaleGeneration int int | GenerationMismatch int int
  | KeyInvalid | AccessInvalid key | StateInvalid key | Duplicated key
  | StopErr key string | StartErr key string

definition key_string :: "key \<Rightarrow> string" where
  "key_string k = key_server k @ ''/'' @ key_repo k"

definition generation_of :: "supervisor \<Rightarrow> string \<Rightarrow> int" where
  "generation_of s server = (case map_of (sv_generation s) server of None \<Rightarrow> 0 | Some g \<Rightarrow> g)"

definition record_event :: "sup_event \<Rightarrow> supervisor \<Rightarrow> supervisor" where
  "record_event e s = s\<lparr>sv_log := sv_log s @ [e]\<rparr>"

definition emit_event :: "key \<Rightarrow> string \<Rightarrow> string \<Rightarrow> supervisor \<Rightarrow> supervisor" where
  "emit_event k action access s =
     s\<lparr>sv_emitted := sv_emitted s @ [\<lparr>ev_key = k, ev_action = action, ev_access = access\<rparr>]\<rparr>"

definition New_sup :: supervisor where
  "New_sup = \<lparr>sv_generation = [], sv_live = [], sv_log = [], sv_emitted = []\<rparr>"

section \<open>Stopping and starting one pipeline\<close>

definition stop_one :: "sup_env \<Rightarrow> key \<Rightarrow> supervisor \<Rightarrow> sup_err option \<times> supervisor" where
  "stop_one E k s =
     (case map_of (sv_live s) k of
        None \<Rightarrow> (None, s)
      | Some (d, i) \<Rightarrow>
         (case se_stop E (sv_log s) i of
            Some e \<Rightarrow> (Some (StopErr k e), record_event (StopFailed k i) s)
          | None \<Rightarrow> 
              (None, emit_event k ''stopped'' (ds_access d)
                 ((record_event (Stopped k i) s)\<lparr>sv_live := AList.delete k (sv_live s)\<rparr>))))"

definition start_one :: "sup_env \<Rightarrow> desired \<Rightarrow> supervisor \<Rightarrow> sup_err option \<times> supervisor" where
  "start_one E d s =
     (case se_start E (sv_log s) d of
        Inl e \<Rightarrow> (Some (StartErr (ds_key d) e), record_event (StartFailed (ds_key d)) s)
      | Inr i \<Rightarrow> 
          (None, emit_event (ds_key d) ''started'' (ds_access d)
             ((record_event (Started (ds_key d) i) s)\<lparr>sv_live := AList.update (ds_key d) (d, i) (sv_live s)\<rparr>)))"

section \<open>Reconciling a projection\<close>

fun build_next :: "string \<Rightarrow> (key, desired) assoc \<Rightarrow> desired list \<Rightarrow> (sup_err, (key, desired) assoc) result" where
  "build_next server want [] = Inr want"
| "build_next server want (d # ds) =
     (if key_server (ds_key d) \<noteq> server \<or> key_repo (ds_key d) = '''' then Inl KeyInvalid
      else if ds_access d \<noteq> ''r'' \<and> ds_access d \<noteq> ''rw'' then Inl (AccessInvalid (ds_key d))
      else if ds_state d \<noteq> ''initializing'' \<and> ds_state d \<noteq> ''active'' \<and> ds_state d \<noteq> ''disabled''
              \<and> ds_state d \<noteq> ''revoked'' then Inl (StateInvalid (ds_key d))
      else if map_of want (ds_key d) \<noteq> None then Inl (Duplicated (ds_key d))
      else build_next server (AList.update (ds_key d) d want) ds)"

definition serverKeys :: "string \<Rightarrow> (key, desired) assoc \<Rightarrow> supervisor \<Rightarrow> key list" where
  "serverKeys server want s =
     sort_key key_string (remdups (keys want @ filter (\<lambda>k. key_server k = server) (keys (sv_live s))))"

definition same_pipeline :: "desired \<Rightarrow> desired \<Rightarrow> bool" where
  "same_pipeline old new =
     (ds_access old = ds_access new \<and> ds_url old = ds_url new \<and> ds_editing_policy old = ds_editing_policy new
      \<and> ds_session_timeout old = ds_session_timeout new)"

definition run_wanted :: "sup_env \<Rightarrow> bool \<Rightarrow> desired \<Rightarrow> supervisor \<Rightarrow> sup_err option \<times> supervisor" where
  "run_wanted E transition w s =
     (let s2 = (if transition then record_event (Transition w) s else s) in
      if ds_state w = ''active'' then start_one E w s2 else (None, s2))"

definition reconcile ::
    "sup_env \<Rightarrow> bool \<Rightarrow> (key, desired) assoc \<Rightarrow> key \<Rightarrow> supervisor \<Rightarrow> sup_err option \<times> supervisor" where
  "reconcile E transition want k s =
     (case map_of (sv_live s) k of
        None \<Rightarrow> (case map_of want k of None \<Rightarrow> (None, s) | Some w \<Rightarrow> run_wanted E transition w s)
      | Some (old, i) \<Rightarrow>
          (case map_of want k of
             None \<Rightarrow> stop_one E k s
           | Some w \<Rightarrow>
               if ds_state w = ''active'' \<and> same_pipeline old w
               then (None, s\<lparr>sv_live := AList.update k (w, i) (sv_live s)\<rparr>)
               else (case stop_one E k s of
                   (Some e, s1) \<Rightarrow> (Some e, s1)
                 | (None, s1) \<Rightarrow> run_wanted E transition w s1)))"

fun reconcile_all ::
    "sup_env \<Rightarrow> bool \<Rightarrow> (key, desired) assoc \<Rightarrow> key list \<Rightarrow> supervisor \<Rightarrow> sup_err option \<times> supervisor" where
  "reconcile_all E transition want [] s = (None, s)"
| "reconcile_all E transition want (k # ks) s =
     (case reconcile E transition want k s of
        (Some e, s') \<Rightarrow> (Some e, s')
      | (None, s') \<Rightarrow> reconcile_all E transition want ks s')"

definition applyLocked ::
    "sup_env \<Rightarrow> string \<Rightarrow> int \<Rightarrow> desired list \<Rightarrow> bool \<Rightarrow> bool \<Rightarrow> supervisor \<Rightarrow> sup_err option \<times> supervisor" where
  "applyLocked E serverID generation ds transition localReapply s =
     (let server = trim_space serverID in
      if server = '''' \<or> generation < 1 then (Some InvalidRequest, s)
      else if localReapply \<and> generation \<noteq> generation_of s server
        then (Some (GenerationMismatch generation (generation_of s server)), s)
      else if \<not> localReapply \<and> generation \<le> generation_of s server
        then (Some (StaleGeneration generation (generation_of s server)), s)
      else (case build_next server [] ds of
          Inl e \<Rightarrow> (Some e, s)
        | Inr want \<Rightarrow>
           (case reconcile_all E transition want (serverKeys server want s) s of
              (Some e, s') \<Rightarrow> (Some e, s')
            | (None, s') \<Rightarrow>
                (None, if localReapply then s'
                       else s'\<lparr>sv_generation := AList.update server generation (sv_generation s')\<rparr>))))"

section \<open>Local topology\<close>

definition DetachLocal :: "sup_env \<Rightarrow> key \<Rightarrow> supervisor \<Rightarrow> sup_err option \<times> supervisor" where
  "DetachLocal E k s =
     (if trim_space (key_server k) = '''' \<or> trim_space (key_repo k) = '''' then (Some InvalidRequest, s) else stop_one E k s)"

fun stop_all :: "sup_env \<Rightarrow> key list \<Rightarrow> supervisor \<Rightarrow> sup_err option \<times> supervisor" where
  "stop_all E [] s = (None, s)"
| "stop_all E (k # ks) s =
     (case stop_one E k s of (Some e, s') \<Rightarrow> (Some e, s') | (None, s') \<Rightarrow> stop_all E ks s')"

definition SuspendServer :: "sup_env \<Rightarrow> string \<Rightarrow> supervisor \<Rightarrow> sup_err option \<times> supervisor" where
  "SuspendServer E serverID s =
     (let server = trim_space serverID in
      if server = '''' then (Some InvalidRequest, s) else stop_all E (serverKeys server [] s) s)"

text \<open>The shutdown stops everything and forgets an instance even when its stop fails.\<close>

fun shutdown_loop :: "sup_env \<Rightarrow> key list \<Rightarrow> sup_err option \<Rightarrow> supervisor \<Rightarrow> sup_err option \<times> supervisor" where
  "shutdown_loop E [] first s = (first, s)"
| "shutdown_loop E (k # ks) first s =
     (case map_of (sv_live s) k of
        None \<Rightarrow> shutdown_loop E ks first s
      | Some (d, i) \<Rightarrow>
         (let err = se_stop E (sv_log s) i;
              s1 = record_event (case err of None \<Rightarrow> Stopped k i | Some _ \<Rightarrow> StopFailed k i) s;
              s2 = emit_event k ''stopped'' (ds_access d) (s1\<lparr>sv_live := AList.delete k (sv_live s1)\<rparr>) in
          shutdown_loop E ks (if first = None then map_option (StopErr k) err else first) s2))"

definition Stop_sup :: "sup_env \<Rightarrow> supervisor \<Rightarrow> sup_err option \<times> supervisor" where
  "Stop_sup E s = shutdown_loop E (sort_key key_string (keys (sv_live s))) None s"

section \<open>One instance per repository\<close>

text \<open>The instances running after a log of starts and stops, and whether a start ever overlapped.\<close>

fun running :: "sup_event list \<Rightarrow> key \<Rightarrow> nat option" where
  "running [] k = None"
| "running (e # es) k =
     (case e of
        Started q i \<Rightarrow> if q = k then Some i else running es k
      | Stopped q i \<Rightarrow> if q = k then None else running es k
      | _ \<Rightarrow> running es k)"

text \<open>The log is read latest event first.\<close>

fun no_overlap :: "sup_event list \<Rightarrow> bool" where
  "no_overlap [] = True"
| "no_overlap (e # es) =
     (no_overlap es \<and>
      (case e of
         Started k i \<Rightarrow> running es k = None
       | Stopped k i \<Rightarrow> running es k = Some i
       | Transition d \<Rightarrow> running es (ds_key d) = None
       | _ \<Rightarrow> True))"

definition tidy :: "supervisor \<Rightarrow> bool" where
  "tidy s \<longleftrightarrow> wf_assoc (sv_live s) \<and> no_overlap (rev (sv_log s))
     \<and> (\<forall>k. running (rev (sv_log s)) k = map_option snd (map_of (sv_live s) k))"

lemma record_simps [simp]:
  "sv_log (record_event e s) = sv_log s @ [e]" "sv_live (record_event e s) = sv_live s"
  "sv_generation (record_event e s) = sv_generation s"
  "sv_log (emit_event k a c s) = sv_log s" "sv_live (emit_event k a c s) = sv_live s"
  "sv_generation (emit_event k a c s) = sv_generation s"
  by (simp_all add: record_event_def emit_event_def)

lemma tidy_stop: "tidy s \<Longrightarrow> tidy (snd (stop_one E k s))"
  by (auto simp: stop_one_def tidy_def split: option.splits)

lemma stop_gone: "stop_one E k s = (None, t) \<Longrightarrow> map_of (sv_live t) k = None"
  by (auto simp: stop_one_def split: option.splits prod.splits)

lemma tidy_start: "tidy s \<Longrightarrow> map_of (sv_live s) (ds_key d) = None \<Longrightarrow> tidy (snd (start_one E d s))"
  by (auto simp: start_one_def tidy_def split: sum.splits)

lemma tidy_transition: "tidy s \<Longrightarrow> map_of (sv_live s) (ds_key d) = None \<Longrightarrow> tidy (record_event (Transition d) s)"
  by (simp add: tidy_def)

lemma tidy_update: "tidy s \<Longrightarrow> map_of (sv_live s) k = Some (d, i) \<Longrightarrow> tidy (s\<lparr>sv_live := AList.update k (w, i) (sv_live s)\<rparr>)"
  by (auto simp: tidy_def)

section \<open>Reconciliation\<close>

text \<open>What a projection asks to run under a key.\<close>

definition goal :: "(key, desired) assoc \<Rightarrow> key \<Rightarrow> desired option" where
  "goal want k = (case map_of want k of None \<Rightarrow> None | Some w \<Rightarrow> if ds_state w = ''active'' then Some w else None)"

definition live_desired :: "supervisor \<Rightarrow> key \<Rightarrow> desired option" where
  "live_desired s k = map_option fst (map_of (sv_live s) k)"

definition keyed :: "(key, desired) assoc \<Rightarrow> bool" where
  "keyed want \<longleftrightarrow> (\<forall>k w. map_of want k = Some w \<longrightarrow> ds_key w = k)"

text \<open>A starter and instances that never fail.\<close>

definition working :: "sup_env \<Rightarrow> bool" where
  "working E \<longleftrightarrow> (\<forall>log d. \<exists>i. se_start E log d = Inr i) \<and> (\<forall>log i. se_stop E log i = None)"

lemma keyedD: "keyed want \<Longrightarrow> map_of want k = Some w \<Longrightarrow> ds_key w = k"
  by (simp add: keyed_def)

lemma guard_Inr: "((if b then Inl e else x) = Inr m) = (\<not> b \<and> x = Inr m)"
  by simp

lemma build_ConsE:
  assumes "build_next server want (d # ds) = Inr m"
  obtains "key_server (ds_key d) = server" "build_next server (AList.update (ds_key d) d want) ds = Inr m"
proof -
  from assms [unfolded build_next.simps(2) guard_Inr] have
    "key_server (ds_key d) = server" "build_next server (AList.update (ds_key d) d want) ds = Inr m" by blast+
  then show thesis by (rule that)
qed

lemma build_keyed: "build_next server want ds = Inr m \<Longrightarrow> keyed want \<Longrightarrow> keyed m"
proof (induction ds arbitrary: want)
  case (Cons d ds)
  have "keyed (AList.update (ds_key d) d want)" using Cons.prems(2) by (simp add: keyed_def update_conv)
  then show ?case using Cons.IH Cons.prems(1) by (elim build_ConsE)
qed simp

lemma build_server:
  "build_next server want ds = Inr m \<Longrightarrow> key_server ` set (keys want) \<subseteq> {server} \<Longrightarrow> key_server ` set (keys m) \<subseteq> {server}"
proof (induction ds arbitrary: want)
  case (Cons d ds)
  from Cons.prems(1) show ?case
  proof (rule build_ConsE)
    assume *: "key_server (ds_key d) = server" "build_next server (AList.update (ds_key d) d want) ds = Inr m"
    have "key_server ` set (keys (AList.update (ds_key d) d want)) \<subseteq> {server}"
      using Cons.prems(2) *(1) by (auto simp: dom_update)
    then show ?thesis by (rule Cons.IH [OF *(2)])
  qed
qed simp

text \<open>The effect of stopping and of starting a pipeline on the live map.\<close>

lemma stop_effect:
  assumes "stop_one E k s = (r, t)"
  shows "sv_generation t = sv_generation s" "q \<noteq> k \<Longrightarrow> map_of (sv_live t) q = map_of (sv_live s) q"
    "r = None \<Longrightarrow> map_of (sv_live t) k = None" "working E \<Longrightarrow> r = None"
  using assms by (auto simp: stop_one_def working_def split: option.splits)

lemma start_effect:
  assumes "start_one E d s = (r, t)"
  shows "sv_generation t = sv_generation s" "q \<noteq> ds_key d \<Longrightarrow> map_of (sv_live t) q = map_of (sv_live s) q"
    "r = None \<Longrightarrow> live_desired t (ds_key d) = Some d" "working E \<Longrightarrow> r = None"
  using assms by (auto simp: start_one_def live_desired_def working_def split: sum.splits) (metis sum.distinct(1))

text \<open>What a step of the reconciliation that concerns one key achieves.\<close>

definition settles ::
    "sup_env \<Rightarrow> (key, desired) assoc \<Rightarrow> key \<Rightarrow> supervisor \<Rightarrow> sup_err option \<Rightarrow> supervisor \<Rightarrow> bool" where
  "settles E want k s r t \<longleftrightarrow>
     sv_generation t = sv_generation s \<and> (\<forall>q. q \<noteq> k \<longrightarrow> map_of (sv_live t) q = map_of (sv_live s) q)
     \<and> (r = None \<longrightarrow> live_desired t k = goal want k) \<and> (working E \<longrightarrow> r = None) \<and> (tidy s \<longrightarrow> tidy t)"

lemma wanted_settles:
  assumes run: "run_wanted E transition w s = (r, t)" and gone: "map_of (sv_live s) (ds_key w) = None"
    and w: "map_of want (ds_key w) = Some w"
  shows "settles E want (ds_key w) s r t"
proof -
  define s2 where "s2 = (if transition then record_event (Transition w) s else s)"
  have s2: "sv_generation s2 = sv_generation s" "sv_live s2 = sv_live s" "tidy s \<Longrightarrow> tidy s2"
    using gone by (simp_all add: s2_def tidy_transition)
  show ?thesis
  proof (cases "ds_state w = ''active''")
    case True
    then have st: "start_one E w s2 = (r, t)" using run by (simp add: run_wanted_def s2_def)
    have "tidy s2 \<Longrightarrow> tidy t" using tidy_start [of s2 w E] gone s2(2) st by simp
    then show ?thesis using start_effect [OF st] s2 True w by (auto simp: settles_def goal_def)
  next
    case False
    then have "r = None" "t = s2" using run by (auto simp: run_wanted_def s2_def)
    then show ?thesis using s2 False w gone by (simp add: settles_def goal_def live_desired_def)
  qed
qed

lemma stop_settles:
  assumes "stop_one E k s = (r, t)" "map_of want k = None \<or> r \<noteq> None"
  shows "settles E want k s r t"
  using stop_effect [OF assms(1)] tidy_stop [of s E k] assms by (auto simp: settles_def goal_def live_desired_def)

lemma restart_settles:
  assumes st: "stop_one E k s = (None, s1)" and run: "settles E want k s1 r t"
  shows "settles E want k s r t"
  using run stop_effect(1,2) [OF st] tidy_stop [of s E k] st by (simp add: settles_def)

lemma keep_settles:
  assumes "map_of (sv_live s) k = Some (old, i)" "map_of want k = Some w" "ds_state w = ''active''"
  shows "settles E want k s None (s\<lparr>sv_live := AList.update k (w, i) (sv_live s)\<rparr>)"
  using assms tidy_update [of s k old i w] by (simp add: settles_def goal_def live_desired_def update_conv)

lemma reconcile_settles:
  assumes rec: "reconcile E transition want k s = (r, t)" and "keyed want"
  shows "settles E want k s r t"
proof -
  have key: "ds_key w = k" if "map_of want k = Some w" for w using keyedD [OF assms(2) that] .
  show ?thesis
  proof (cases "map_of (sv_live s) k")
    case None
    show ?thesis
    proof (cases "map_of want k")
      case None
      then show ?thesis using rec \<open>map_of (sv_live s) k = None\<close>
        by (auto simp: reconcile_def settles_def goal_def live_desired_def)
    next
      case (Some w)
      then show ?thesis using rec None key [OF Some] wanted_settles [of E transition w s r t want]
        by (simp add: reconcile_def)
    qed
  next
    case (Some p)
    then obtain old i where p: "map_of (sv_live s) k = Some (old, i)" by (cases p) auto
    obtain e s1 where st: "stop_one E k s = (e, s1)" by (cases "stop_one E k s")
    show ?thesis
    proof (cases "map_of want k")
      case None
      then show ?thesis using rec p st by (auto simp: reconcile_def intro: stop_settles)
    next
      case (Some w)
      note w = Some
      show ?thesis
      proof (cases "ds_state w = ''active'' \<and> same_pipeline old w")
        case True
        then show ?thesis using rec p w keep_settles [OF p w] by (auto simp: reconcile_def)
      next
        case False
        then have "e \<noteq> None \<and> r = e \<and> t = s1 \<or> e = None \<and> run_wanted E transition w s1 = (r, t)"
          using rec p w st by (auto simp: reconcile_def split: option.splits)
        then show ?thesis
          using st key [OF w] w stop_effect(3) [OF st] stop_settles [OF st] wanted_settles [of E transition w s1 r t want]
            restart_settles [of E k s s1 want r t] by auto
      qed
    qed
  qed
qed

lemma reconcile_all_effect:
  assumes "reconcile_all E transition want ks s = (r, t)" "keyed want"
  shows "sv_generation t = sv_generation s"
    "q \<notin> set ks \<Longrightarrow> map_of (sv_live t) q = map_of (sv_live s) q"
    "r = None \<Longrightarrow> q \<in> set ks \<or> live_desired s q = goal want q \<Longrightarrow> live_desired t q = goal want q"
    "working E \<Longrightarrow> r = None" "tidy s \<Longrightarrow> tidy t"
proof -
  have "sv_generation t = sv_generation s \<and> (q \<notin> set ks \<longrightarrow> map_of (sv_live t) q = map_of (sv_live s) q)
     \<and> (r = None \<longrightarrow> q \<in> set ks \<or> live_desired s q = goal want q \<longrightarrow> live_desired t q = goal want q)
     \<and> (working E \<longrightarrow> r = None) \<and> (tidy s \<longrightarrow> tidy t)" using assms(1)
  proof (induction ks arbitrary: s)
    case Nil
    then show ?case by simp
  next
    case (Cons k ks)
    obtain e s1 where st: "reconcile E transition want k s = (e, s1)" by (cases "reconcile E transition want k s")
    note one = reconcile_settles [OF st assms(2), unfolded settles_def]
    have q: "live_desired s1 q = live_desired s q" if "q \<noteq> k" using one that by (simp add: live_desired_def)
    show ?case
    proof (cases e)
      case None
      then show ?thesis using Cons.IH [of s1] Cons.prems st one q by (cases "q = k") auto
    next
      case (Some x)
      then show ?thesis using Cons.prems st one by auto
    qed
  qed
  then show "sv_generation t = sv_generation s"
    "q \<notin> set ks \<Longrightarrow> map_of (sv_live t) q = map_of (sv_live s) q"
    "r = None \<Longrightarrow> q \<in> set ks \<or> live_desired s q = goal want q \<Longrightarrow> live_desired t q = goal want q"
    "working E \<Longrightarrow> r = None" "tidy s \<Longrightarrow> tidy t" by auto
qed

section \<open>Applying a projection\<close>

lemma apply_cases:
  assumes "applyLocked E serverID generation ds transition local s = (r, t)"
  obtains "t = s" "r \<noteq> None" "\<And>k e. r \<noteq> Some (StartErr k e) \<and> r \<noteq> Some (StopErr k e)"
  | want t1 where "build_next (trim_space serverID) [] ds = Inr want"
      "reconcile_all E transition want (serverKeys (trim_space serverID) want s) s = (r, t1)"
      "trim_space serverID \<noteq> ''''" "1 \<le> generation"
      "if local then generation = generation_of s (trim_space serverID) else generation_of s (trim_space serverID) < generation"
      "t = (if r = None \<and> \<not> local then t1\<lparr>sv_generation := AList.update (trim_space serverID) generation (sv_generation t1)\<rparr> else t1)"
proof -
  have bn: "e \<noteq> StartErr k x \<and> e \<noteq> StopErr k x" if "build_next server want ds = Inl e" for server want e k x
    using that
  proof (induction ds arbitrary: want)
    case (Cons d ds)
    then show ?case by (auto split: if_split_asm)
  qed simp
  show thesis
  proof (cases "build_next (trim_space serverID) [] ds")
    case (Inl e)
    then show thesis using assms bn [OF Inl] by (intro that(1)) (auto simp: applyLocked_def Let_def split: if_split_asm)
  next
    case (Inr want)
    obtain r1 t1 where rec: "reconcile_all E transition want (serverKeys (trim_space serverID) want s) s = (r1, t1)"
      by (cases "reconcile_all E transition want (serverKeys (trim_space serverID) want s) s")
    show thesis
    proof (cases "trim_space serverID = '''' \<or> generation < 1 \<or> local \<and> generation \<noteq> generation_of s (trim_space serverID)
        \<or> \<not> local \<and> generation \<le> generation_of s (trim_space serverID)")
      case True
      then show thesis using assms by (intro that(1)) (auto simp: applyLocked_def Let_def split: if_split_asm)
    next
      case False
      then show thesis using assms Inr rec
        by (intro that(2) [of want t1]) (auto simp: applyLocked_def Let_def split: option.splits)
    qed
  qed
qed

lemma set_serverKeys: "set (serverKeys server want s) = set (keys want) \<union> {k \<in> set (keys (sv_live s)). key_server k = server}"
  by (auto simp: serverKeys_def)

text \<open>
  A projection applied at once: what ran for the server afterwards is exactly what the
  projection asks for, and nothing of another server was touched.
\<close>

definition converged :: "string \<Rightarrow> (key, desired) assoc \<Rightarrow> supervisor \<Rightarrow> supervisor \<Rightarrow> bool" where
  "converged server want s t \<longleftrightarrow>
     (\<forall>k. if key_server k = server then live_desired t k = goal want k
          else map_of (sv_live t) k = map_of (sv_live s) k)"

lemma converged_live: "sv_live t = sv_live t1 \<Longrightarrow> converged server want s t = converged server want s t1"
  by (simp add: converged_def live_desired_def)

lemma reconcile_converged:
  assumes want: "build_next server [] ds = Inr want"
    and rec: "reconcile_all E transition want (serverKeys server want s) s = (None, t)"
  shows "converged server want s t"
proof -
  have keyed: "keyed want" using build_keyed [OF want] by (simp add: keyed_def)
  have sv: "key_server k = server" if "k \<in> set (keys want)" for k using build_server [OF want] that by auto
  note eff = reconcile_all_effect [OF rec keyed]
  have "live_desired t k = goal want k" if k: "key_server k = server" for k
  proof (cases "k \<in> set (serverKeys server want s)")
    case False
    then have "map_of want k = None" "map_of (sv_live s) k = None"
      using k by (auto simp: set_serverKeys map_of_eq_None_iff)
    then show ?thesis using eff(3) [of k] by (simp add: live_desired_def goal_def)
  qed (simp add: eff(3))
  moreover have "map_of (sv_live t) k = map_of (sv_live s) k" if "key_server k \<noteq> server" for k
  proof (rule eff(2))
    show "k \<notin> set (serverKeys server want s)" using that sv unfolding set_serverKeys by blast
  qed
  ultimately show ?thesis unfolding converged_def by presburger
qed

section \<open>Runs\<close>

datatype sup_op =
    OpApply string int "desired list" bool bool | OpDetach key | OpSuspend string

fun sup_apply :: "sup_env \<Rightarrow> sup_op \<Rightarrow> supervisor \<Rightarrow> sup_err option \<times> supervisor" where
  "sup_apply E (OpApply server generation ds transition local) s = applyLocked E server generation ds transition local s"
| "sup_apply E (OpDetach k) s = DetachLocal E k s"
| "sup_apply E (OpSuspend server) s = SuspendServer E server s"

definition sup_step :: "supervisor \<Rightarrow> supervisor \<Rightarrow> bool" where
  "sup_step s t \<longleftrightarrow> (\<exists>E op. t = snd (sup_apply E op s))"

lemma tidy_apply: "tidy s \<Longrightarrow> tidy (snd (applyLocked E server generation ds transition local s))"
proof -
  assume s: "tidy s"
  obtain r t where a: "applyLocked E server generation ds transition local s = (r, t)"
    by (cases "applyLocked E server generation ds transition local s")
  from a show ?thesis
  proof (cases rule: apply_cases)
    case (2 want t1)
    have "keyed want" using build_keyed [OF 2(1)] by (simp add: keyed_def)
    then have "tidy t1" using reconcile_all_effect(5) [OF 2(2)] s by blast
    then show ?thesis using a 2(6) by (simp add: tidy_def)
  qed (simp add: a s)
qed

lemma tidy_stop_all: "tidy s \<Longrightarrow> tidy (snd (stop_all E ks s))"
proof (induction ks arbitrary: s)
  case (Cons k ks)
  obtain r t where st: "stop_one E k s = (r, t)" by (cases "stop_one E k s")
  then have "tidy t" using tidy_stop [OF Cons.prems, of E k] by simp
  then show ?case using Cons.IH st by (cases r) simp_all
qed simp

interpretation supervised: invariant_system "\<lambda>s. s = New_sup" sup_step tidy
proof
  show "s = New_sup \<Longrightarrow> tidy s" for s by (simp add: New_sup_def tidy_def)
  show "tidy t" if "tidy s" "sup_step s t" for s t
  proof -
    from that(2) obtain E op where t: "t = snd (sup_apply E op s)" by (auto simp: sup_step_def)
    show ?thesis using that(1) unfolding t
      by (cases op) (simp_all add: tidy_apply DetachLocal_def tidy_stop SuspendServer_def Let_def tidy_stop_all)
  qed
qed

section \<open>Properties\<close>

text \<open>
  C7. At every moment of every run (projections applied, local attachments, detachments,
  suspensions, with starts and stops that succeed or fail in any way) each repository has at
  most one running pipeline: a pipeline is started, and its new access announced, only when
  the previous one has stopped; and what runs is exactly what the supervisor has on record.
\<close>

theorem one_pipeline:
  assumes "reach (\<lambda>s. s = New_sup) sup_step s"
  shows "no_overlap (rev (sv_log s))
    \<and> (\<forall>k. running (rev (sv_log s)) k = map_option snd (map_of (sv_live s) k))"
  using supervised.reach_inv [OF assms] by (simp add: tidy_def)

text \<open>
  C20. Applying a projection either succeeds, and then exactly its active repositories run for
  that server, with the data of the projection, and other servers are untouched; or it fails,
  and then no generation moves. Generations never decrease.
\<close>

theorem apply_converges:
  assumes "applyLocked E serverID generation ds transition local s = (r, t)"
  shows "(case r of
      None \<Rightarrow> (\<exists>want. build_next (trim_space serverID) [] ds = Inr want \<and> converged (trim_space serverID) want s t)
        \<and> generation_of t (trim_space serverID) = generation
    | Some _ \<Rightarrow> sv_generation t = sv_generation s)
    \<and> (\<forall>server. generation_of s server \<le> generation_of t server)"
  using assms
proof (cases rule: apply_cases)
  case 1
  then show ?thesis by (auto split: option.splits)
next
  case (2 want t1)
  have "keyed want" using build_keyed [OF 2(1)] by (simp add: keyed_def)
  then have g: "sv_generation t1 = sv_generation s" using reconcile_all_effect(1) [OF 2(2)] by blast
  have live: "sv_live t = sv_live t1" using 2(6) by simp
  show ?thesis
  proof (cases r)
    case None
    then have "converged (trim_space serverID) want s t1" using reconcile_converged 2(1,2) by blast
    then have "converged (trim_space serverID) want s t" using converged_live [OF live] by simp
    then show ?thesis using None 2(1,5,6) g by (auto simp: generation_of_def update_conv split: if_splits)
  next
    case (Some e)
    then show ?thesis using 2(6) g by (simp add: generation_of_def)
  qed
qed

text \<open>
  C24. A projection whose application broke off at a start or a stop can be applied again with
  the same generation, and succeeds and converges as soon as the starts and stops work.
\<close>

theorem apply_retry:
  assumes fail: "applyLocked E serverID generation ds transition False s = (Some e, s1)"
    and e: "e = StartErr k x \<or> e = StopErr k x" and "working E2"
  shows "\<exists>t want. applyLocked E2 serverID generation ds transition2 False s1 = (None, t)
    \<and> build_next (trim_space serverID) [] ds = Inr want \<and> converged (trim_space serverID) want s1 t"
  using fail
proof (cases rule: apply_cases)
  case 1
  then show ?thesis using e by blast
next
  case (2 want t1)
  let ?server = "trim_space serverID"
  have "keyed want" using build_keyed [OF 2(1)] by (simp add: keyed_def)
  then have g: "generation_of s1 ?server = generation_of s ?server"
    using reconcile_all_effect(1) [OF 2(2)] 2(6) by (simp add: generation_of_def)
  obtain r2 t2 where rec: "reconcile_all E2 transition2 want (serverKeys ?server want s1) s1 = (r2, t2)"
    by (cases "reconcile_all E2 transition2 want (serverKeys ?server want s1) s1")
  have r2: "r2 = None" using reconcile_all_effect(4) [OF rec \<open>keyed want\<close>] \<open>working E2\<close> by blast
  have "converged ?server want s1 t2" using reconcile_converged [OF 2(1)] rec r2 by blast
  moreover have "applyLocked E2 serverID generation ds transition2 False s1 =
      (None, t2\<lparr>sv_generation := AList.update ?server generation (sv_generation t2)\<rparr>)"
    using 2(1,3,4,5) g rec r2 by (simp add: applyLocked_def)
  ultimately show ?thesis using 2(1)
    converged_live [of "t2\<lparr>sv_generation := AList.update ?server generation (sv_generation t2)\<rparr>" t2] by auto
qed

section \<open>Examples\<close>

definition sample_starter :: sup_env where
  "sample_starter = \<lparr>se_start = \<lambda>log d. Inr (length log), se_stop = \<lambda>log i. None\<rparr>"

definition broken_starter :: sup_env where
  "broken_starter = \<lparr>se_start = \<lambda>log d. Inl ''x'', se_stop = \<lambda>log i. None\<rparr>"

definition sample_desired :: "string \<Rightarrow> desired" where
  "sample_desired access =
     \<lparr>ds_key = \<lparr>key_server = ''s'', key_repo = ''a''\<rparr>, ds_access = access, ds_state = ''active'', ds_url = ''u'',
      ds_display_name = '''', ds_editing_policy = '''', ds_session_timeout = 0\<rparr>"

abbreviation sample_key :: key where
  "sample_key \<equiv> \<lparr>key_server = ''s'', key_repo = ''a''\<rparr>"

definition sample_running :: supervisor where
  "sample_running = snd (applyLocked sample_starter ''s'' 1 [sample_desired ''rw''] True False New_sup)"

definition sample_broken :: "sup_err option \<times> supervisor" where
  "sample_broken = applyLocked broken_starter ''s'' 2 [sample_desired ''r''] True False sample_running"

lemma sample_trim: "trim_space ''s'' = ''s''"
  by code_simp

lemmas sample_eval = Let_def applyLocked_def sample_trim serverKeys_def reconcile_def run_wanted_def start_one_def stop_one_def
  record_event_def emit_event_def generation_of_def sample_desired_def same_pipeline_def

lemma sample_running_value:
  "sample_running = \<lparr>sv_generation = [(''s'', 1)], sv_live = [(sample_key, sample_desired ''rw'', 1)],
     sv_log = [Transition (sample_desired ''rw''), Started sample_key 1],
     sv_emitted = [\<lparr>ev_key = sample_key, ev_action = ''started'', ev_access = ''rw''\<rparr>]\<rparr>"
  by (simp add: sample_running_def New_sup_def sample_starter_def sample_eval)

lemma sample_broken_value:
  "sample_broken = (Some (StartErr sample_key ''x''),
     \<lparr>sv_generation = [(''s'', 1)], sv_live = [],
      sv_log = [Transition (sample_desired ''rw''), Started sample_key 1, Stopped sample_key 1,
                Transition (sample_desired ''r''), StartFailed sample_key],
      sv_emitted = [\<lparr>ev_key = sample_key, ev_action = ''started'', ev_access = ''rw''\<rparr>,
                    \<lparr>ev_key = sample_key, ev_action = ''stopped'', ev_access = ''rw''\<rparr>]\<rparr>)"
  by (simp add: sample_broken_def sample_running_value broken_starter_def sample_eval)

lemma sample_broken_reach: "reach (\<lambda>s. s = New_sup) sup_step (snd sample_broken)"
proof -
  have "reach (\<lambda>s. s = New_sup) sup_step New_sup" by (rule reach_init) simp
  moreover have "sup_step New_sup sample_running"
    unfolding sup_step_def sample_running_def by (metis sup_apply.simps(1))
  moreover have "sup_step sample_running (snd sample_broken)"
    unfolding sup_step_def sample_broken_def by (metis sup_apply.simps(1))
  ultimately show ?thesis by (blast intro: reach_step)
qed

theorem one_pipeline_witness:
  "no_overlap (rev (sv_log (snd sample_broken))) \<and> length (sv_log (snd sample_broken)) = 5"
  using one_pipeline [OF sample_broken_reach] by (simp add: sample_broken_value)

theorem apply_converges_witness:
  "sv_generation (snd sample_broken) = sv_generation sample_running"
  using apply_converges [of broken_starter "''s''" 2 "[sample_desired ''r'']" True False sample_running
      "fst sample_broken" "snd sample_broken", folded sample_broken_def] by (simp add: sample_broken_value)

theorem apply_retry_witness:
  "\<exists>t. applyLocked sample_starter ''s'' 2 [sample_desired ''r''] True False (snd sample_broken) = (None, t)"
proof -
  have "sample_broken = (Some (StartErr sample_key ''x''), snd sample_broken)" by (simp add: sample_broken_value)
  moreover have "working sample_starter" by (simp add: working_def sample_starter_def)
  ultimately show ?thesis using apply_retry [of broken_starter "''s''" 2 "[sample_desired ''r'']" True sample_running]
    unfolding sample_broken_def by blast
qed

end
