(* ===== verification/Recipient_OTP.thy ===== *)
theory Recipient_OTP
  imports Go_Lib "HOL-Library.Word" "HOL-Library.Multiset"
begin

text \<open>
  The one-time codes of recipient-restricted public shares (\<open>public-shares/recipientotp\<close>):
  the per-invitation epochs, the journal of charged sends, and the code itself. The service
  keeps nothing in memory, so the world of the model is what is on disk and in the outbox;
  every operation runs under one file lock. What an operation reads from its surroundings (the
  clock, the channel store, the outcome of each save and of the outbox, a fresh identifier) is
  the record \<open>otp_call\<close>; SHA-256, HMAC, UUIDs, e-mail canonicalisation, lower-casing and the
  length of a JSON document are the parameter \<open>otp_env\<close>. A crash between two effects leaves
  what an error at that point leaves.
\<close>

section \<open>Records\<close>

record otp_cfg =
  cf_root :: string
  cf_key :: string
  cf_has_channels :: bool
  cf_outbox_root :: string
  cf_ttl :: duration
  cf_cooldown :: duration
  cf_max_attempts :: int
  cf_per_invitation :: int
  cf_per_channel :: int

record credential =
  cr_email :: string
  cr_token_hash :: string

record otp_channel =
  oh_id :: string
  oh_recipients :: "credential list"

record otp_request =
  rq_alias :: string
  rq_slug :: string
  rq_invitation :: string
  rq_email :: string

record otp_state =
  os_schema :: string
  os_channel :: string
  os_hash :: string
  os_epoch :: string
  os_activated :: gotime
  os_expires :: gotime
  os_last_sent :: gotime
  os_failed :: int

record budget_entry =
  be_hash :: string
  be_at :: gotime

record send_budget =
  sb_schema :: string
  sb_channel :: string
  sb_sends :: "budget_entry list"

record otp_grant =
  gr_hash :: string
  gr_epoch :: string
  gr_expires :: gotime

record otp_mail =
  om_channel :: string
  om_entry :: budget_entry
  om_email :: string
  om_epoch :: string
  om_code :: string

record otp_guess =
  og_channel :: string
  og_hash :: string
  og_epoch :: string
  og_saved :: bool

record otp_world =
  ow_states :: "string \<Rightarrow> string \<Rightarrow> otp_state stored option"
  ow_budgets :: "string \<Rightarrow> send_budget stored option"
  ow_mails :: "otp_mail list"
  ow_guesses :: "otp_guess list"

record otp_env =
  oe_sha256 :: "string \<Rightarrow> string"
  oe_mac :: "string \<Rightarrow> string \<Rightarrow> string"
  oe_uuid :: "string \<Rightarrow> bool"
  oe_canonical_uuid :: "string \<Rightarrow> bool"
  oe_email :: "string \<Rightarrow> string option"
  oe_lower :: "string \<Rightarrow> string"
  oe_json_len :: "send_budget \<Rightarrow> nat"

record otp_call =
  oc_now :: gotime
  oc_mkdir :: bool
  oc_lock :: bool
  oc_resolve :: "string \<Rightarrow> string \<Rightarrow> otp_channel option"
  oc_resolve_upload :: "string \<Rightarrow> string \<Rightarrow> otp_channel option"
  oc_read_budget :: bool
  oc_read_state :: bool
  oc_epoch :: string
  oc_save_epoch :: save_outcome
  oc_save_budget :: save_outcome
  oc_delivered :: bool
  oc_save_state :: save_outcome

datatype otp_err = OtpDenied | OtpSendBudget | OtpConfig | OtpInvalid | OtpNotExist | OtpIo

abbreviation state_schema :: string where
  "state_schema \<equiv> ''filees.public-share-recipient-otp/v1''"

abbreviation budget_schema :: string where
  "budget_schema \<equiv> ''filees.public-share-recipient-otp-budget/v1''"

abbreviation budgetWindow :: duration where "budgetWindow \<equiv> 24 * hour"

definition maxBudgetEntries :: int where "maxBudgetEntries = 100000"
definition maxBudgetBytes :: nat where "maxBudgetBytes = 16 * 2 ^ 20"

section \<open>Configuration\<close>

definition ttl :: "otp_cfg \<Rightarrow> duration" where
  "ttl cf = (if cf_ttl cf > 0 then cf_ttl cf else 5 * minute)"

definition cooldown :: "otp_cfg \<Rightarrow> duration" where
  "cooldown cf = (if cf_cooldown cf > 0 then cf_cooldown cf else 30 * second)"

definition attempts :: "otp_cfg \<Rightarrow> int" where
  "attempts cf = (if cf_max_attempts cf > 0 then cf_max_attempts cf else 5)"

definition sendsPerInvitation :: "otp_cfg \<Rightarrow> int" where
  "sendsPerInvitation cf = (if cf_per_invitation cf > 0 then cf_per_invitation cf else 5)"

definition sendsPerChannel :: "otp_cfg \<Rightarrow> int" where
  "sendsPerChannel cf = (if cf_per_channel cf > 0 then cf_per_channel cf else 50)"

definition validate_service :: "otp_cfg \<Rightarrow> otp_call \<Rightarrow> otp_err option" where
  "validate_service cf c =
     (if cf_per_invitation cf < 0 \<or> cf_per_invitation cf > 1000 \<or> cf_per_channel cf < 0 \<or> cf_per_channel cf > maxBudgetEntries
      then Some OtpConfig
      else if \<not> is_abs (cf_root cf) \<or> length (cf_key cf) < 32 \<or> \<not> cf_has_channels cf \<or> \<not> is_abs (cf_outbox_root cf)
              \<or> ttl cf \<le> 0 \<or> cooldown cf < 0 \<or> attempts cf < 1 then Some OtpConfig
      else if \<not> oc_mkdir c then Some OtpIo else None)"

section \<open>The recipient of a request\<close>

definition matches_mailbox :: "otp_env \<Rightarrow> string \<Rightarrow> string \<Rightarrow> bool" where
  "matches_mailbox E typed stored =
     (case (oe_email E typed, oe_email E stored) of
        (Some a, Some b) \<Rightarrow> oe_lower E a = oe_lower E b | _ \<Rightarrow> False)"

definition recipient :: "otp_env \<Rightarrow> otp_cfg \<Rightarrow> otp_call \<Rightarrow> otp_request \<Rightarrow> (otp_channel \<times> credential \<times> string) option" where
  "recipient E cf c rq =
     (if \<not> cf_has_channels cf \<or> rq_invitation rq = '''' \<or> length (rq_invitation rq) > 256
         \<or> contains_any (rq_invitation rq) [CHR 0x00, CHR 0x0D, CHR 0x0A] then None
      else
        (let found = (case oc_resolve c (rq_alias rq) (rq_slug rq) of
              Some r \<Rightarrow> Some (r, False)
            | None \<Rightarrow> map_option (\<lambda>u. (u, True)) (oc_resolve_upload c (rq_alias rq) (rq_slug rq)));
             digest = oe_sha256 E (rq_invitation rq) in
         case found of
           None \<Rightarrow> None
         | Some (record, uploadOnly) \<Rightarrow>
             (case find (\<lambda>x. cr_token_hash x = digest) (rev (oh_recipients record)) of
                None \<Rightarrow> None
              | Some x \<Rightarrow>
                  if (uploadOnly \<or> rq_email rq \<noteq> '''') \<and> \<not> matches_mailbox E (rq_email rq) (cr_email x) then None
                  else Some (record, x, digest))))"

section \<open>The code\<close>

definition be_value :: "string \<Rightarrow> 64 word" where
  "be_value bs = foldl (\<lambda>v b. or (push_bit 8 v) (word_of_nat (of_char b))) 0 bs"

fun decimals :: "nat \<Rightarrow> nat \<Rightarrow> string" where
  "decimals 0 n = []"
| "decimals (Suc w) n = decimals w (n div 10) @ [char_of (48 + n mod 10)]"

definition otp_code :: "otp_env \<Rightarrow> otp_cfg \<Rightarrow> otp_state \<Rightarrow> string" where
  "otp_code E cf s =
     decimals 8 (unat (be_value (take 8 (oe_mac E (cf_key cf)
       (''filees public share recipient otp v1'' @ [CHR 0x00] @ os_channel s @ [CHR 0x00] @ os_hash s @ [CHR 0x00] @ os_epoch s)))
       mod 100000000))"

section \<open>The journal of sends\<close>

definition lower_hex :: "string \<Rightarrow> bool" where
  "lower_hex s = (length s = 64 \<and> list_all (\<lambda>c. c \<in> set ''0123456789abcdef'') s)"

text \<open>The first instant after the year 9999.\<close>

definition year_10000 :: gotime where
  "year_10000 = 3652059 * 24 * hour"

definition validate_budget :: "otp_env \<Rightarrow> string \<Rightarrow> send_budget \<Rightarrow> bool" where
  "validate_budget E channel b =
     (oe_canonical_uuid E channel \<and> sb_schema b = budget_schema \<and> sb_channel b = channel
      \<and> int (length (sb_sends b)) \<le> maxBudgetEntries
      \<and> list_all (\<lambda>e. lower_hex (be_hash e) \<and> be_at e \<noteq> 0 \<and> 0 \<le> be_at e \<and> be_at e < year_10000) (sb_sends b))"

definition readBudget :: "otp_env \<Rightarrow> otp_call \<Rightarrow> string \<Rightarrow> otp_world \<Rightarrow> (otp_err, send_budget) result" where
  "readBudget E c channel w =
     (if \<not> oc_read_budget c then Inl OtpIo
      else (case ow_budgets w channel of
          None \<Rightarrow> Inr \<lparr>sb_schema = budget_schema, sb_channel = channel, sb_sends = []\<rparr>
        | Some Garbage \<Rightarrow> Inl OtpInvalid
        | Some (Stored b) \<Rightarrow>
            if oe_json_len E b + 1 > maxBudgetBytes \<or> \<not> validate_budget E channel b then Inl OtpInvalid else Inr b))"

definition storeBudget :: "otp_env \<Rightarrow> save_outcome \<Rightarrow> send_budget \<Rightarrow> otp_world \<Rightarrow> otp_err option \<times> otp_world" where
  "storeBudget E out b w =
     (if \<not> validate_budget E (sb_channel b) b then (Some OtpInvalid, w)
      else if oe_json_len E b + 1 > maxBudgetBytes then (Some OtpInvalid, w)
      else
       (let w' = w\<lparr>ow_budgets := (ow_budgets w)(sb_channel b := Some (Stored b))\<rparr> in
        case out of SaveOk \<Rightarrow> (None, w') | SaveUnsynced \<Rightarrow> (Some OtpIo, w') | SaveFail \<Rightarrow> (Some OtpIo, w)))"

definition prune :: "gotime \<Rightarrow> send_budget \<Rightarrow> send_budget" where
  "prune now b = b\<lparr>sb_sends := filter (\<lambda>e. time_sub now (be_at e) < budgetWindow) (sb_sends b)\<rparr>"

datatype budget_decision = BudgetSend | BudgetCooling | BudgetExhausted

definition laterCooldowns :: "duration list" where
  "laterCooldowns = [2 * minute, 10 * minute]"

definition decide :: "string \<Rightarrow> gotime \<Rightarrow> int \<Rightarrow> int \<Rightarrow> duration \<Rightarrow> send_budget \<Rightarrow> budget_decision" where
  "decide digest now perInvitation perChannel first b =
     (if int (length (sb_sends b)) \<ge> perChannel then BudgetExhausted
      else
       (let mine = filter (\<lambda>e. be_hash e = digest) (sb_sends b);
            count = length mine;
            last = foldl (\<lambda>l e. if l < be_at e then be_at e else l) 0 mine;
            pause = (if count \<ge> 2 then max first (laterCooldowns ! min (count - 2) (length laterCooldowns - 1)) else first) in
        if int count \<ge> perInvitation then BudgetExhausted
        else if count = 0 then BudgetSend
        else if time_sub now last < pause then BudgetCooling
        else BudgetSend))"

section \<open>Epochs\<close>

definition load_state :: "otp_env \<Rightarrow> otp_cfg \<Rightarrow> otp_call \<Rightarrow> string \<Rightarrow> string \<Rightarrow> otp_world \<Rightarrow> (otp_err, otp_state) result" where
  "load_state E cf c channel digest w =
     (if \<not> oc_read_state c then Inl OtpIo
      else (case ow_states w channel digest of
          None \<Rightarrow> Inl OtpNotExist
        | Some Garbage \<Rightarrow> Inl OtpInvalid
        | Some (Stored s) \<Rightarrow>
            if os_schema s \<noteq> state_schema \<or> os_channel s \<noteq> channel \<or> os_hash s \<noteq> digest then Inl OtpInvalid
            else if \<not> oe_uuid E (os_epoch s) \<or> os_activated s = 0 \<or> \<not> os_activated s < os_expires s
                    \<or> os_failed s < 0 \<or> os_failed s > attempts cf then Inl OtpInvalid
            else Inr s))"

definition store_state :: "save_outcome \<Rightarrow> otp_state \<Rightarrow> otp_world \<Rightarrow> otp_err option \<times> otp_world" where
  "store_state out s w =
     (let w' = w\<lparr>ow_states := (ow_states w)(os_channel s := (ow_states w (os_channel s))(os_hash s := Some (Stored s)))\<rparr> in
      case out of SaveOk \<Rightarrow> (None, w') | SaveUnsynced \<Rightarrow> (Some OtpIo, w') | SaveFail \<Rightarrow> (Some OtpIo, w))"

definition fresh_state :: "otp_cfg \<Rightarrow> otp_call \<Rightarrow> string \<Rightarrow> string \<Rightarrow> otp_state" where
  "fresh_state cf c channel digest =
     \<lparr>os_schema = state_schema, os_channel = channel, os_hash = digest, os_epoch = oc_epoch c,
      os_activated = oc_now c, os_expires = oc_now c + ttl cf, os_last_sent = 0, os_failed = 0\<rparr>"

definition open_epoch ::
    "otp_env \<Rightarrow> otp_cfg \<Rightarrow> otp_call \<Rightarrow> string \<Rightarrow> string \<Rightarrow> otp_world \<Rightarrow> (otp_err, otp_state) result \<times> otp_world" where
  "open_epoch E cf c channel digest w =
     (let fresh = fresh_state cf c channel digest;
          start = (case store_state (oc_save_epoch c) fresh w of
              (Some e, w') \<Rightarrow> (Inl e, w') | (None, w') \<Rightarrow> (Inr fresh, w')) in
      case load_state E cf c channel digest w of
        Inl OtpNotExist \<Rightarrow> start
      | Inl e \<Rightarrow> (Inl e, w)
      | Inr s \<Rightarrow> if \<not> oc_now c < os_expires s then start else (Inr s, w))"

section \<open>Requesting a code\<close>

definition deliver ::
    "otp_env \<Rightarrow> otp_cfg \<Rightarrow> otp_call \<Rightarrow> otp_channel \<Rightarrow> credential \<Rightarrow> string \<Rightarrow> otp_state \<Rightarrow> otp_world \<Rightarrow> otp_world" where
  "deliver E cf c ch cred digest s w =
     w\<lparr>ow_mails := ow_mails w @
        [\<lparr>om_channel = oh_id ch, om_entry = \<lparr>be_hash = digest, be_at = oc_now c\<rparr>, om_email = cr_email cred,
          om_epoch = os_epoch s, om_code = otp_code E cf s\<rparr>]\<rparr>"

definition charge_and_mail ::
    "otp_env \<Rightarrow> otp_cfg \<Rightarrow> otp_call \<Rightarrow> otp_channel \<Rightarrow> credential \<Rightarrow> string \<Rightarrow> send_budget \<Rightarrow> otp_state \<Rightarrow> otp_world
     \<Rightarrow> otp_err option \<times> otp_world" where
  "charge_and_mail E cf c ch cred digest b s w =
     (case storeBudget E (oc_save_budget c) (b\<lparr>sb_sends := sb_sends b @ [\<lparr>be_hash = digest, be_at = oc_now c\<rparr>]\<rparr>) w of
        (Some e, w1) \<Rightarrow> (Some e, w1)
      | (None, w1) \<Rightarrow>
         (let w2 = deliver E cf c ch cred digest s w1 in
          if \<not> oc_delivered c then (Some OtpIo, w2)
          else store_state (oc_save_state c) (s\<lparr>os_last_sent := oc_now c\<rparr>) w2))"

definition RequestCode :: "otp_env \<Rightarrow> otp_cfg \<Rightarrow> otp_call \<Rightarrow> otp_request \<Rightarrow> otp_world \<Rightarrow> otp_err option \<times> otp_world" where
  "RequestCode E cf c rq w =
     (case validate_service cf c of
        Some e \<Rightarrow> (Some e, w)
      | None \<Rightarrow>
         if \<not> oc_lock c then (Some OtpIo, w)
         else (case recipient E cf c rq of
             None \<Rightarrow> (Some OtpDenied, w)
           | Some (ch, cred, digest) \<Rightarrow>
              (case readBudget E c (oh_id ch) w of
                 Inl e \<Rightarrow> (Some e, w)
               | Inr b0 \<Rightarrow>
                  (let b = prune (oc_now c) b0 in
                   case decide digest (oc_now c) (sendsPerInvitation cf) (sendsPerChannel cf) (cooldown cf) b of
                     BudgetCooling \<Rightarrow> (None, w)
                   | BudgetExhausted \<Rightarrow> (Some OtpSendBudget, w)
                   | BudgetSend \<Rightarrow>
                      (case open_epoch E cf c (oh_id ch) digest w of
                         (Inl e, w1) \<Rightarrow> (Some e, w1)
                       | (Inr s, w1) \<Rightarrow>
                          if os_last_sent s \<noteq> 0 \<and> time_sub (oc_now c) (os_last_sent s) < cooldown cf then (None, w1)
                          else charge_and_mail E cf c ch cred digest b s w1)))))"

section \<open>Verifying a code\<close>

definition code_shape :: "string \<Rightarrow> bool" where
  "code_shape s = (length s = 8 \<and> list_all (\<lambda>x. x \<in> set ''0123456789'') s)"

definition wrong_code :: "otp_call \<Rightarrow> otp_state \<Rightarrow> otp_world \<Rightarrow> otp_err \<times> otp_world" where
  "wrong_code c s w =
     (let (e, w1) = store_state (oc_save_state c) (s\<lparr>os_failed := os_failed s + 1\<rparr>) w;
          w2 = w1\<lparr>ow_guesses := ow_guesses w1 @
             [\<lparr>og_channel = os_channel s, og_hash = os_hash s, og_epoch = os_epoch s, og_saved = (oc_save_state c \<noteq> SaveFail)\<rparr>]\<rparr> in
      case e of Some x \<Rightarrow> (x, w2) | None \<Rightarrow> (OtpDenied, w2))"

definition Verify :: "otp_env \<Rightarrow> otp_cfg \<Rightarrow> otp_call \<Rightarrow> otp_request \<Rightarrow> string \<Rightarrow> otp_world \<Rightarrow> (otp_err, otp_grant) result \<times> otp_world" where
  "Verify E cf c rq typed w =
     (if \<not> code_shape typed then (Inl OtpDenied, w)
      else (case validate_service cf c of
        Some e \<Rightarrow> (Inl e, w)
      | None \<Rightarrow>
         if \<not> oc_lock c then (Inl OtpIo, w)
         else (case recipient E cf c rq of
             None \<Rightarrow> (Inl OtpDenied, w)
           | Some (ch, cred, digest) \<Rightarrow>
              (case load_state E cf c (oh_id ch) digest w of
                 Inl e \<Rightarrow> (Inl OtpDenied, w)
               | Inr s \<Rightarrow>
                  if \<not> oc_now c < os_expires s \<or> os_failed s \<ge> attempts cf then (Inl OtpDenied, w)
                  else if otp_code E cf s \<noteq> typed then (case wrong_code c s w of (e, w') \<Rightarrow> (Inl e, w'))
                  else (Inr \<lparr>gr_hash = digest, gr_epoch = os_epoch s, gr_expires = os_expires s\<rparr>, w)))))"

section \<open>Maintenance\<close>

text \<open>
  What a sweep observes: the answers of the channel store, the state files it lists before it
  is cancelled, and which removals succeed. The directories are swept one by one.
\<close>

datatype channel_lookup = ChannelMissing | ChannelError | ChannelFound string "credential list"

record sweep_in =
  sw_call :: otp_call
  sw_load :: "string \<Rightarrow> channel_lookup"
  sw_upload :: "string \<Rightarrow> channel_lookup"
  sw_listed :: "string \<Rightarrow> string list"
  sw_removed :: "string \<Rightarrow> string \<Rightarrow> bool"
  sw_budget_removed :: "string \<Rightarrow> bool"

definition invitationLive :: "sweep_in \<Rightarrow> string \<Rightarrow> string \<Rightarrow> (otp_err, bool) result" where
  "invitationLive i channel digest =
     (let found = (case sw_load i channel of ChannelMissing \<Rightarrow> sw_upload i channel | x \<Rightarrow> x) in
      case found of
        ChannelMissing \<Rightarrow> Inr False
      | ChannelError \<Rightarrow> Inl OtpIo
      | ChannelFound state recipients \<Rightarrow>
          Inr (state = ''active'' \<and> list_ex (\<lambda>x. cr_token_hash x = digest) recipients))"

text \<open>Whether a listed state file is to be removed.\<close>

definition sweepable :: "sweep_in \<Rightarrow> string \<Rightarrow> string \<Rightarrow> otp_world \<Rightarrow> bool" where
  "sweepable i channel digest w =
     (case ow_states w channel digest of
        Some (Stored s) \<Rightarrow>
          os_schema s = state_schema \<and> os_channel s = channel \<and> os_hash s = digest \<and> os_expires s \<noteq> 0
          \<and> (\<not> oc_now (sw_call i) < os_expires s \<or> invitationLive i channel digest = Inr False)
      | _ \<Rightarrow> False)"

fun sweepChannel :: "sweep_in \<Rightarrow> string \<Rightarrow> string list \<Rightarrow> otp_world \<Rightarrow> otp_world" where
  "sweepChannel i channel [] w = w"
| "sweepChannel i channel (d # ds) w =
     sweepChannel i channel ds
       (if sweepable i channel d w \<and> sw_removed i channel d
        then w\<lparr>ow_states := (ow_states w)(channel := (ow_states w channel)(d := None))\<rparr> else w)"

definition sweepBudget :: "otp_env \<Rightarrow> sweep_in \<Rightarrow> string \<Rightarrow> otp_world \<Rightarrow> otp_err option \<times> otp_world" where
  "sweepBudget E i channel w =
     (case readBudget E (sw_call i) channel w of
        Inl e \<Rightarrow> (Some e, w)
      | Inr b0 \<Rightarrow>
         (let b = prune (oc_now (sw_call i)) b0 in
          if sb_sends b = [] then
            (if sw_budget_removed i channel then (None, w\<lparr>ow_budgets := (ow_budgets w)(channel := None)\<rparr>)
             else (if ow_budgets w channel = None then (None, w) else (Some OtpIo, w)))
          else if length (sb_sends b) = length (sb_sends b0) then (None, w)
          else storeBudget E (oc_save_budget (sw_call i)) b w))"

fun Sweep :: "otp_env \<Rightarrow> sweep_in \<Rightarrow> string list \<Rightarrow> otp_world \<Rightarrow> otp_world" where
  "Sweep E i [] w = w"
| "Sweep E i (channel # cs) w =
     Sweep E i cs (snd (sweepBudget E i channel (sweepChannel i channel (sw_listed i channel) w)))"

end
