(* ===== verification/Recipient_OTP_Inv.thy ===== *)
theory Recipient_OTP_Inv
  imports Recipient_OTP
begin

text \<open>
  Runs of the one-time code service under a clock that does not go back, and what holds in
  them: how many codes are mailed in a day, how many wrong codes an epoch stands, and that a
  code that was mailed opens the share.
\<close>

section \<open>Runs\<close>

record otp_run =
  or_clock :: gotime
  or_world :: otp_world
  or_epochs :: "string set"

text \<open>A fresh epoch identifier is one not used before, which is what a random UUID provides.\<close>

inductive otp_step :: "otp_env \<Rightarrow> otp_cfg \<Rightarrow> otp_run \<Rightarrow> otp_run \<Rightarrow> bool" for E cf where
  request: "or_clock r \<le> oc_now c \<Longrightarrow> oc_epoch c \<notin> or_epochs r
    \<Longrightarrow> otp_step E cf r \<lparr>or_clock = oc_now c, or_world = snd (RequestCode E cf c rq (or_world r)),
                        or_epochs = insert (oc_epoch c) (or_epochs r)\<rparr>"
| verify: "or_clock r \<le> oc_now c
    \<Longrightarrow> otp_step E cf r \<lparr>or_clock = oc_now c, or_world = snd (Verify E cf c rq typed (or_world r)), or_epochs = or_epochs r\<rparr>"
| sweep: "or_clock r \<le> oc_now (sw_call i)
    \<Longrightarrow> otp_step E cf r \<lparr>or_clock = oc_now (sw_call i), or_world = Sweep E i cs (or_world r), or_epochs = or_epochs r\<rparr>"



text \<open>A run starts from any files, before any mail and any guess.\<close>

definition otp_init :: "otp_run \<Rightarrow> bool" where
  "otp_init r \<longleftrightarrow> ow_mails (or_world r) = [] \<and> ow_guesses (or_world r) = []
     \<and> (\<forall>c d s. ow_states (or_world r) c d = Some (Stored s) \<longrightarrow> os_epoch s \<in> or_epochs r)"

section \<open>Effects of the operations\<close>

text \<open>On the journal and the outbox: at most one charge, and a mail only with its charge.\<close>

definition charged :: "otp_env \<Rightarrow> otp_cfg \<Rightarrow> otp_call \<Rightarrow> otp_world \<Rightarrow> otp_world \<Rightarrow> bool" where
  "charged E cf c w w' \<longleftrightarrow>
     ow_budgets w' = ow_budgets w \<and> ow_mails w' = ow_mails w
   \<or> (\<exists>ch d b0 e. readBudget E c ch w = Inr b0 \<and> e = \<lparr>be_hash = d, be_at = oc_now c\<rparr>
       \<and> decide d (oc_now c) (sendsPerInvitation cf) (sendsPerChannel cf) (cooldown cf) (prune (oc_now c) b0) = BudgetSend
       \<and> ow_budgets w' = (ow_budgets w)(ch := Some (Stored ((prune (oc_now c) b0)\<lparr>sb_sends := sb_sends (prune (oc_now c) b0) @ [e]\<rparr>)))
       \<and> (ow_mails w' = ow_mails w \<or> (\<exists>m. ow_mails w' = ow_mails w @ [m] \<and> om_channel m = ch \<and> om_entry m = e)))"

text \<open>On the epochs: a state is kept, given a new time of sending, or replaced by a fresh epoch.\<close>

definition touch :: "otp_call \<Rightarrow> otp_state stored option \<Rightarrow> otp_state stored option \<Rightarrow> bool" where
  "touch c x y \<longleftrightarrow> y = x \<or> (\<exists>s. y = Some (Stored s) \<and> os_epoch s = oc_epoch c \<and> os_failed s = 0)
     \<or> (\<exists>s t. y = Some (Stored s) \<and> x = Some (Stored t) \<and> os_epoch s = os_epoch t \<and> os_failed s = os_failed t)"

definition touched :: "otp_call \<Rightarrow> otp_world \<Rightarrow> otp_world \<Rightarrow> bool" where
  "touched c w w' \<longleftrightarrow> ow_guesses w' = ow_guesses w \<and> (\<forall>ch d. touch c (ow_states w ch d) (ow_states w' ch d))"

lemma touch_refl [simp]: "touch c x x"
  by (simp add: touch_def)

lemma touch_trans: "touch c x y \<Longrightarrow> touch c y z \<Longrightarrow> touch c x z"
  unfolding touch_def by auto

lemma touched_trans: "touched c w v \<Longrightarrow> touched c v u \<Longrightarrow> touched c w u"
  unfolding touched_def using touch_trans by metis

lemma store_state_frame [simp]:
  "ow_budgets (snd (store_state out s w)) = ow_budgets w" "ow_mails (snd (store_state out s w)) = ow_mails w"
  "ow_guesses (snd (store_state out s w)) = ow_guesses w"
  by (simp_all add: store_state_def Let_def split: save_outcome.splits)

lemma store_state_states:
  "ow_states (snd (store_state out s w)) ch d =
     (if out \<noteq> SaveFail \<and> ch = os_channel s \<and> d = os_hash s then Some (Stored s) else ow_states w ch d)"
  by (simp add: store_state_def Let_def split: save_outcome.splits)

lemma readBudget_channel: "readBudget E c ch w = Inr b \<Longrightarrow> sb_channel b = ch"
  by (auto simp: readBudget_def validate_budget_def split: if_splits option.splits stored.splits)

lemma storeBudget_effect:
  "snd (storeBudget E out b w) = w
   \<or> snd (storeBudget E out b w) = w\<lparr>ow_budgets := (ow_budgets w)(sb_channel b := Some (Stored b))\<rparr>"
  by (simp add: storeBudget_def Let_def split: save_outcome.splits)

lemma storeBudget_frame [simp]:
  "ow_states (snd (storeBudget E out b w)) = ow_states w" "ow_mails (snd (storeBudget E out b w)) = ow_mails w"
  "ow_guesses (snd (storeBudget E out b w)) = ow_guesses w"
  by (simp_all add: storeBudget_def Let_def split: save_outcome.splits)

lemma storeBudget_ok:
  "fst (storeBudget E out b w) = None \<Longrightarrow>
   snd (storeBudget E out b w) = w\<lparr>ow_budgets := (ow_budgets w)(sb_channel b := Some (Stored b))\<rparr>"
  by (simp add: storeBudget_def Let_def split: save_outcome.splits if_splits)

lemma open_epoch_frame:
  assumes "open_epoch E cf c ch d w = (r, w')"
  shows "ow_budgets w' = ow_budgets w" "ow_mails w' = ow_mails w" "touched c w w'"
    "r = Inr s \<Longrightarrow> os_channel s = ch \<and> os_hash s = d \<and> (ow_states w' ch d = Some (Stored s))"
proof -
  obtain e v where v: "store_state (oc_save_epoch c) (fresh_state cf c ch d) w = (e, v)"
    by (cases "store_state (oc_save_epoch c) (fresh_state cf c ch d) w")
  have fr: "ow_budgets v = ow_budgets w" "ow_mails v = ow_mails w" "touched c w v"
    "e = None \<Longrightarrow> ow_states v ch d = Some (Stored (fresh_state cf c ch d))"
    using store_state_frame [of "oc_save_epoch c" "fresh_state cf c ch d" w]
      store_state_states [of "oc_save_epoch c" "fresh_state cf c ch d" w] v
    by (auto simp: touched_def touch_def fresh_state_def store_state_def Let_def split: save_outcome.splits)
  have ld: "os_channel t = ch \<and> os_hash t = d \<and> ow_states w ch d = Some (Stored t)" if "load_state E cf c ch d w = Inr t" for t
    using that by (auto simp: load_state_def split: if_splits option.splits stored.splits)
  have cases: "(w' = v \<and> (r = Inr (fresh_state cf c ch d) \<and> e = None \<or> (\<exists>x. r = Inl x))) \<or> (w' = w \<and> ((\<exists>x. r = Inl x) \<or> r = load_state E cf c ch d w))"
    using assms v by (auto simp: open_epoch_def Let_def split: sum.splits otp_err.splits if_splits option.splits)
  show "ow_budgets w' = ow_budgets w" "ow_mails w' = ow_mails w" "touched c w w'"
    using cases fr by (auto simp: touched_def)
  show "r = Inr s \<Longrightarrow> os_channel s = ch \<and> os_hash s = d \<and> (ow_states w' ch d = Some (Stored s))"
    using cases fr(4) ld by (auto simp: fresh_state_def)
qed

lemma charge_effect:
  fixes b
  defines "e c d \<equiv> \<lparr>be_hash = d, be_at = oc_now c\<rparr>"
  assumes "charge_and_mail E cf c ch cred d b s w = (r, w')"
    and st: "ow_states w (os_channel s) (os_hash s) = Some (Stored s)"
  shows "ow_budgets w' = ow_budgets w \<and> ow_mails w' = ow_mails w
    \<or> ow_budgets w' = (ow_budgets w)(sb_channel b := Some (Stored (b\<lparr>sb_sends := sb_sends b @ [e c d]\<rparr>)))
      \<and> (ow_mails w' = ow_mails w \<or> (\<exists>m. ow_mails w' = ow_mails w @ [m] \<and> om_channel m = oh_id ch \<and> om_entry m = e c d))"
    and "touched c w w'"
proof -
  let ?b = "b\<lparr>sb_sends := sb_sends b @ [e c d]\<rparr>"
  obtain x w1 where w1: "storeBudget E (oc_save_budget c) ?b w = (x, w1)" by (cases "storeBudget E (oc_save_budget c) ?b w")
  have fr: "ow_mails w1 = ow_mails w" "ow_states w1 = ow_states w" "ow_guesses w1 = ow_guesses w"
    "ow_budgets w1 = ow_budgets w \<or> ow_budgets w1 = (ow_budgets w)(sb_channel b := Some (Stored ?b))"
    "x = None \<Longrightarrow> ow_budgets w1 = (ow_budgets w)(sb_channel b := Some (Stored ?b))"
    using storeBudget_effect [of E "oc_save_budget c" ?b w] storeBudget_ok [of E "oc_save_budget c" ?b w] w1 by auto
  define w2 where "w2 = deliver E cf c ch cred d s w1"
  have w2: "ow_budgets w2 = ow_budgets w1" "ow_states w2 = ow_states w" "ow_guesses w2 = ow_guesses w"
    "\<exists>m. ow_mails w2 = ow_mails w @ [m] \<and> om_channel m = oh_id ch \<and> om_entry m = e c d"
    using fr by (simp_all add: w2_def deliver_def e_def)
  have "(r \<noteq> None \<and> w' = w1) \<or> (x = None \<and> (w' = w2 \<or> w' = snd (store_state (oc_save_state c) (s\<lparr>os_last_sent := oc_now c\<rparr>) w2)))"
    using assms(2) w1 unfolding charge_and_mail_def w2_def e_def Let_def
    by (auto split: option.splits if_splits)
  then consider "w' = w1" | "x = None" "w' = w2"
    | "x = None" "w' = snd (store_state (oc_save_state c) (s\<lparr>os_last_sent := oc_now c\<rparr>) w2)" by blast
  note cases = this
  show "ow_budgets w' = ow_budgets w \<and> ow_mails w' = ow_mails w
    \<or> ow_budgets w' = (ow_budgets w)(sb_channel b := Some (Stored ?b))
      \<and> (ow_mails w' = ow_mails w \<or> (\<exists>m. ow_mails w' = ow_mails w @ [m] \<and> om_channel m = oh_id ch \<and> om_entry m = e c d))"
    by (cases rule: cases) (use fr w2 in auto)
  show "touched c w w'"
  proof (cases rule: cases)
    case 3
    have "touch c (ow_states w ch' d') (ow_states w' ch' d')" for ch' d'
      using st w2(2) by (simp add: 3 store_state_states touch_def)
    then show ?thesis using 3 w2(3) by (simp add: touched_def)
  qed (use fr w2 in \<open>simp_all add: touched_def\<close>)
qed

lemma request_effect:
  shows "charged E cf c w (snd (RequestCode E cf c rq w))" "touched c w (snd (RequestCode E cf c rq w))"
proof -
  have refl: "charged E cf c w w" "touched c w w" by (simp_all add: charged_def touched_def)
  obtain r w' where r: "RequestCode E cf c rq w = (r, w')" by (cases "RequestCode E cf c rq w")
  have "charged E cf c w w' \<and> touched c w w'"
  proof (cases "\<exists>ch cred d b0. recipient E cf c rq = Some (ch, cred, d) \<and> readBudget E c (oh_id ch) w = Inr b0
      \<and> decide d (oc_now c) (sendsPerInvitation cf) (sendsPerChannel cf) (cooldown cf) (prune (oc_now c) b0) = BudgetSend
      \<and> validate_service cf c = None \<and> oc_lock c")
    case False
    then have "w' = w" using r
      by (auto simp: RequestCode_def Let_def split: option.splits if_splits sum.splits budget_decision.splits)
    then show ?thesis using refl by simp
  next
    case True
    then obtain ch cred d b0 where
      h: "recipient E cf c rq = Some (ch, cred, d)" "readBudget E c (oh_id ch) w = Inr b0"
        "decide d (oc_now c) (sendsPerInvitation cf) (sendsPerChannel cf) (cooldown cf) (prune (oc_now c) b0) = BudgetSend"
        "validate_service cf c = None" "oc_lock c" by blast
    let ?b = "prune (oc_now c) b0"
    obtain q w1 where q: "open_epoch E cf c (oh_id ch) d w = (q, w1)" by (cases "open_epoch E cf c (oh_id ch) d w")
    note ep = open_epoch_frame [OF q]
    consider "w' = w1" | s where "q = Inr s" "charge_and_mail E cf c ch cred d ?b s w1 = (r, w')"
      using r h q by (cases q) (auto simp: RequestCode_def Let_def split: if_splits)
    then show ?thesis
    proof cases
      case 1
      then show ?thesis using ep(1-3) by (simp add: charged_def)
    next
      case (2 s)
      have s: "os_channel s = oh_id ch" "os_hash s = d" "ow_states w1 (oh_id ch) d = Some (Stored s)" using ep(4) 2(1) by auto
      have "ow_states w1 (os_channel s) (os_hash s) = Some (Stored s)" using s by simp
      note ef = charge_effect [OF 2(2) this]
      have sb: "sb_channel ?b = oh_id ch" using readBudget_channel [OF h(2)] by (simp add: prune_def)
      have "charged E cf c w w'" unfolding charged_def using ef(1) [unfolded sb ep(1,2)] h(2,3) by blast
      moreover have "touched c w w'"
        using touched_trans [OF ep(3) ef(2)] .
      ultimately show ?thesis by blast
    qed
  qed
  then show "charged E cf c w (snd (RequestCode E cf c rq w))" "touched c w (snd (RequestCode E cf c rq w))"
    using r by simp_all
qed

lemma wrong_code_world:
  "snd (wrong_code c s w) = (snd (store_state (oc_save_state c) (s\<lparr>os_failed := os_failed s + 1\<rparr>) w))\<lparr>ow_guesses := ow_guesses w @
     [\<lparr>og_channel = os_channel s, og_hash = os_hash s, og_epoch = os_epoch s, og_saved = (oc_save_state c \<noteq> SaveFail)\<rparr>]\<rparr>"
  by (simp add: wrong_code_def case_prod_unfold Let_def split: option.splits)

lemma verify_effect:
  fixes w
  defines "w' E cf c rq typed \<equiv> snd (Verify E cf c rq typed w)"
  obtains "w' E cf c rq typed = w"
  | s g where "ow_states w (os_channel s) (os_hash s) = Some (Stored s)" "0 \<le> os_failed s" "os_failed s < attempts cf"
      "w' E cf c rq typed = (snd (store_state (oc_save_state c) (s\<lparr>os_failed := os_failed s + 1\<rparr>) w))\<lparr>ow_guesses := ow_guesses w @ [g]\<rparr>"
      "g = \<lparr>og_channel = os_channel s, og_hash = os_hash s, og_epoch = os_epoch s, og_saved = (oc_save_state c \<noteq> SaveFail)\<rparr>"
proof -
  have "w' E cf c rq typed = w \<or> (\<exists>ch d s. load_state E cf c ch d w = Inr s \<and> os_failed s < attempts cf
      \<and> w' E cf c rq typed = snd (wrong_code c s w))"
    by (auto simp: w'_def Verify_def split: option.splits sum.splits prod.splits) (metis not_le snd_conv)
  then show thesis
  proof (elim disjE exE conjE)
    fix ch d s
    assume s: "load_state E cf c ch d w = Inr s" "os_failed s < attempts cf" "w' E cf c rq typed = snd (wrong_code c s w)"
    have ld: "ow_states w (os_channel s) (os_hash s) = Some (Stored s)" "0 \<le> os_failed s"
      using s(1) by (auto simp: load_state_def split: if_splits option.splits stored.splits)
    show thesis
      using that(2) [OF ld s(2) _ refl] s(3) unfolding wrong_code_world by blast
  qed (rule that(1))
qed

lemma sweepChannel_frame [simp]:
  "ow_budgets (sweepChannel i ch ds w) = ow_budgets w" "ow_mails (sweepChannel i ch ds w) = ow_mails w"
  "ow_guesses (sweepChannel i ch ds w) = ow_guesses w"
  by (induction ds arbitrary: w) simp_all

lemma sweepChannel_states:
  "ow_states (sweepChannel i ch ds w) ch' d = ow_states w ch' d \<or> ow_states (sweepChannel i ch ds w) ch' d = None"
proof (induction ds arbitrary: w)
  case (Cons x ds)
  let ?v = "if sweepable i ch x w \<and> sw_removed i ch x
        then w\<lparr>ow_states := (ow_states w)(ch := (ow_states w ch)(x := None))\<rparr> else w"
  have "ow_states ?v ch' d = ow_states w ch' d \<or> ow_states ?v ch' d = None" by simp
  then show ?case using Cons.IH [of ?v] by auto
qed simp

lemma sweepBudget_frame [simp]:
  "ow_states (snd (sweepBudget E i ch w)) = ow_states w" "ow_mails (snd (sweepBudget E i ch w)) = ow_mails w"
  "ow_guesses (snd (sweepBudget E i ch w)) = ow_guesses w"
  by (simp_all add: sweepBudget_def Let_def split: sum.splits)

section \<open>The journal covers the mails of the last day\<close>

definition recent :: "string \<Rightarrow> gotime \<Rightarrow> otp_world \<Rightarrow> budget_entry list" where
  "recent ch now w =
     map om_entry (filter (\<lambda>m. om_channel m = ch \<and> now - be_at (om_entry m) < budgetWindow) (ow_mails w))"

fun covered :: "send_budget stored option \<Rightarrow> budget_entry list \<Rightarrow> bool" where
  "covered None es = (es = [])"
| "covered (Some Garbage) es = True"
| "covered (Some (Stored b)) es = (mset es \<subseteq># mset (sb_sends b))"

definition covers :: "string \<Rightarrow> gotime \<Rightarrow> otp_world \<Rightarrow> bool" where
  "covers ch now w \<longleftrightarrow> covered (ow_budgets w ch) (recent ch now w)"

text \<open>The mails of a channel in the day that ends at \<open>T\<close>.\<close>

definition sent :: "string \<Rightarrow> gotime \<Rightarrow> otp_world \<Rightarrow> budget_entry list" where
  "sent ch T w =
     map om_entry (filter (\<lambda>m. om_channel m = ch \<and> T - budgetWindow < be_at (om_entry m) \<and> be_at (om_entry m) \<le> T) (ow_mails w))"

definition bounded :: "otp_cfg \<Rightarrow> otp_world \<Rightarrow> bool" where
  "bounded cf w \<longleftrightarrow> (\<forall>ch T. int (length (sent ch T w)) \<le> sendsPerChannel cf
     \<and> (\<forall>d. int (length (filter (\<lambda>e. be_hash e = d) (sent ch T w))) \<le> sendsPerInvitation cf))"

definition journal_inv :: "otp_cfg \<Rightarrow> gotime \<Rightarrow> otp_world \<Rightarrow> bool" where
  "journal_inv cf now w \<longleftrightarrow> (\<forall>ch. covers ch now w) \<and> (\<forall>m \<in> set (ow_mails w). be_at (om_entry m) \<le> now) \<and> bounded cf w"

lemma covered_less: "covered x es \<Longrightarrow> mset es' \<subseteq># mset es \<Longrightarrow> covered x es'"
  by (induction x es rule: covered.induct) (auto intro: subset_mset.order_trans)

lemma mails_cong:
  assumes "ow_mails w' = ow_mails w"
  shows "recent ch now w' = recent ch now w" "sent ch T w' = sent ch T w" "bounded cf w' = bounded cf w"
  using assms by (simp_all add: recent_def sent_def bounded_def)

lemma journal_cong:
  "ow_budgets w' = ow_budgets w \<Longrightarrow> ow_mails w' = ow_mails w \<Longrightarrow> journal_inv cf now w' = journal_inv cf now w"
  by (simp add: journal_inv_def covers_def mails_cong [of w' w])

lemma recent_later: "now \<le> t \<Longrightarrow> mset (recent ch t w) \<subseteq># mset (recent ch now w)"
proof -
  assume "now \<le> t"
  then have "recent ch t w = filter (\<lambda>e. t - be_at e < budgetWindow) (recent ch now w)"
    by (auto simp: recent_def filter_map o_def intro!: arg_cong [where f = "map om_entry"] filter_cong)
  then show ?thesis by simp
qed

lemma covers_later:
  assumes "covers ch now w" "now \<le> t"
  shows "covers ch t w"
  using assms recent_later [OF assms(2), of ch w] covered_less by (simp add: covers_def)

lemma journal_later: "journal_inv cf now w \<Longrightarrow> now \<le> t \<Longrightarrow> journal_inv cf t w"
  using covers_later unfolding journal_inv_def by (meson order_trans)

lemma recent_pruned:
  "mset (recent ch now w) \<subseteq># mset (sb_sends b) \<Longrightarrow> mset (recent ch now w) \<subseteq># mset (sb_sends (prune now b))"
proof -
  assume "mset (recent ch now w) \<subseteq># mset (sb_sends b)"
  then have "filter_mset (\<lambda>e. now - be_at e < budgetWindow) (mset (recent ch now w))
      \<subseteq># filter_mset (\<lambda>e. now - be_at e < budgetWindow) (mset (sb_sends b))" by (rule multiset_filter_mono)
  moreover have "filter (\<lambda>e. now - be_at e < budgetWindow) (recent ch now w) = recent ch now w"
    by (rule filter_True) (auto simp: recent_def)
  then have "filter_mset (\<lambda>e. now - be_at e < budgetWindow) (mset (recent ch now w)) = mset (recent ch now w)"
    by (metis mset_filter)
  ultimately show ?thesis by (simp add: prune_def go_simps flip: mset_filter)
qed

lemma read_covers:
  assumes "readBudget E c ch w = Inr b" "covers ch now w"
  shows "mset (recent ch now w) \<subseteq># mset (sb_sends b)"
  using assms by (auto simp: readBudget_def covers_def split: if_splits option.splits stored.splits)

lemma decide_send:
  assumes "decide d now per_inv per_ch first b = BudgetSend"
  shows "int (length (sb_sends b)) < per_ch" "int (length (filter (\<lambda>e. be_hash e = d) (sb_sends b))) < per_inv"
  using assms by (auto simp: decide_def Let_def split: if_splits)

text \<open>A charged send.\<close>

lemma sent_recent:
  assumes "\<And>m. m \<in> set (ow_mails w) \<Longrightarrow> be_at (om_entry m) \<le> now" "now \<le> T"
  shows "mset (sent ch T w) \<subseteq># mset (recent ch now w)"
proof -
  have "sent ch T w = filter (\<lambda>e. T - budgetWindow < be_at e \<and> be_at e \<le> T) (recent ch now w)"
    using assms(2) by (auto simp: recent_def sent_def filter_map o_def intro!: arg_cong [where f = "map om_entry"] filter_cong)
  then show ?thesis by simp
qed

lemma bounded_send:
  assumes inv: "journal_inv cf now w" and cov: "mset (recent ch now w) \<subseteq># mset (sb_sends b)"
    and dec: "decide d now (sendsPerInvitation cf) (sendsPerChannel cf) first b = BudgetSend"
    and w': "ow_mails w' = ow_mails w @ [m]" and m: "om_channel m = ch" "om_entry m = \<lparr>be_hash = d, be_at = now\<rparr>"
  shows "bounded cf w'"
proof -
  have past: "\<And>m. m \<in> set (ow_mails w) \<Longrightarrow> be_at (om_entry m) \<le> now" and b: "bounded cf w"
    using inv by (auto simp: journal_inv_def)
  have "int (length (sent ch' T w')) \<le> sendsPerChannel cf
     \<and> int (length (filter (\<lambda>e. be_hash e = d') (sent ch' T w'))) \<le> sendsPerInvitation cf" for ch' T d'
  proof (cases "ch' = ch \<and> T - budgetWindow < now \<and> now \<le> T")
    case False
    then have "sent ch' T w' = sent ch' T w" using w' m by (auto simp: sent_def)
    then show ?thesis using b by (simp add: bounded_def)
  next
    case True
    then have s: "sent ch' T w' = sent ch T w @ [\<lparr>be_hash = d, be_at = now\<rparr>]" using w' m by (simp add: sent_def)
    have sub: "mset (sent ch T w) \<subseteq># mset (sb_sends b)"
      using sent_recent [of w now T ch] past True cov by (auto intro: subset_mset.order_trans)
    then have "length (sent ch T w) \<le> length (sb_sends b)" using size_mset_mono by fastforce
    then have "int (length (sent ch' T w')) \<le> sendsPerChannel cf" using decide_send(1) [OF dec] s by simp
    moreover have "int (length (filter (\<lambda>e. be_hash e = d') (sent ch' T w'))) \<le> sendsPerInvitation cf"
    proof (cases "d' = d")
      case True
      have "length (filter (\<lambda>e. be_hash e = d) (sent ch T w)) \<le> length (filter (\<lambda>e. be_hash e = d) (sb_sends b))"
        using size_mset_mono [OF multiset_filter_mono [OF sub, of "\<lambda>e. be_hash e = d"]] by (simp flip: mset_filter)
      then show ?thesis using decide_send(2) [OF dec] s True by simp
    next
      case False
      then show ?thesis using b s by (simp add: bounded_def)
    qed
    ultimately show ?thesis by blast
  qed
  then show ?thesis by (simp add: bounded_def)
qed

lemma journal_charged:
  assumes inv: "journal_inv cf (oc_now c) w" and ch: "charged E cf c w w'"
  shows "journal_inv cf (oc_now c) w'"
  using ch unfolding charged_def
proof (elim disjE exE conjE)
  assume "ow_budgets w' = ow_budgets w" "ow_mails w' = ow_mails w"
  then show ?thesis using inv journal_cong by blast
next
  fix ch d b0 e
  let ?now = "oc_now c"
  let ?b = "prune ?now b0"
  assume rd: "readBudget E c ch w = Inr b0" and e: "e = \<lparr>be_hash = d, be_at = ?now\<rparr>"
    and dec: "decide d ?now (sendsPerInvitation cf) (sendsPerChannel cf) (cooldown cf) ?b = BudgetSend"
    and w': "ow_budgets w' = (ow_budgets w)(ch := Some (Stored (?b\<lparr>sb_sends := sb_sends ?b @ [e]\<rparr>)))"
  have cov: "mset (recent ch ?now w) \<subseteq># mset (sb_sends ?b)"
    using recent_pruned [OF read_covers [OF rd]] inv by (auto simp: journal_inv_def)
  { assume m: "ow_mails w' = ow_mails w"
    have "covers ch' ?now w'" for ch'
      using inv cov w' by (cases "ch' = ch") (auto simp: journal_inv_def covers_def mails_cong [OF m] intro: subset_mset.order_trans)
    then show ?thesis using inv m by (simp add: journal_inv_def mails_cong [OF m]) }
  { fix m
    assume m: "ow_mails w' = ow_mails w @ [m]" "om_channel m = ch" "om_entry m = e"
    then have r: "recent ch' ?now w' = recent ch' ?now w @ (if ch' = ch then [e] else [])" for ch' by (simp add: recent_def e)
    have "covers ch' ?now w'" for ch'
      using inv cov w' by (cases "ch' = ch") (auto simp: journal_inv_def covers_def r)
    moreover have "bounded cf w'" using bounded_send [OF inv cov dec m(1,2)] m(3) e by simp
    ultimately show ?thesis using inv m e by (auto simp: journal_inv_def) }
qed

lemma journal_sweepBudget:
  assumes inv: "journal_inv cf (oc_now (sw_call i)) w"
  shows "journal_inv cf (oc_now (sw_call i)) (snd (sweepBudget E i ch w))"
proof -
  let ?now = "oc_now (sw_call i)" and ?w = "snd (sweepBudget E i ch w)"
  note mails_cong = mails_cong [OF sweepBudget_frame(2) [of E i ch w]]
  have "covers ch' ?now ?w" for ch'
  proof (cases "ow_budgets ?w ch' = ow_budgets w ch'")
    case True
    then show ?thesis using inv by (simp add: journal_inv_def covers_def mails_cong)
  next
    case False
    then obtain b0 where rd: "readBudget E (sw_call i) ch w = Inr b0"
      by (cases "readBudget E (sw_call i) ch w") (auto simp: sweepBudget_def)
    let ?b = "prune ?now b0"
    have cov: "mset (recent ch ?now w) \<subseteq># mset (sb_sends ?b)"
      using recent_pruned [OF read_covers [OF rd]] inv by (auto simp: journal_inv_def)
    have sb: "sb_channel ?b = ch" using readBudget_channel [OF rd] by (simp add: prune_def)
    from False rd sb storeBudget_effect [of E "oc_save_budget (sw_call i)" ?b w]
    have "ch' = ch \<and> (ow_budgets ?w ch = None \<and> sb_sends ?b = [] \<or> ow_budgets ?w ch = Some (Stored ?b))"
      by (auto simp: sweepBudget_def Let_def split: if_splits)
    then show ?thesis using cov by (auto simp: covers_def mails_cong)
  qed
  then show ?thesis using inv by (simp add: journal_inv_def mails_cong)
qed

lemma journal_Sweep: "journal_inv cf (oc_now (sw_call i)) w \<Longrightarrow> journal_inv cf (oc_now (sw_call i)) (Sweep E i cs w)"
proof (induction cs arbitrary: w)
  case (Cons ch cs)
  have "journal_inv cf (oc_now (sw_call i)) (sweepChannel i ch (sw_listed i ch) w)"
    using Cons.prems journal_cong [OF sweepChannel_frame(1,2)] by blast
  from Cons.IH [OF journal_sweepBudget [OF this]] show ?case by simp
qed simp

section \<open>Wrong codes of an epoch\<close>

definition guesses :: "string \<Rightarrow> string \<Rightarrow> string \<Rightarrow> otp_world \<Rightarrow> otp_guess list" where
  "guesses ch d epoch w = filter (\<lambda>g. og_channel g = ch \<and> og_hash g = d \<and> og_epoch g = epoch) (ow_guesses w)"

definition recorded :: "string \<Rightarrow> string \<Rightarrow> string \<Rightarrow> otp_world \<Rightarrow> int" where
  "recorded ch d epoch w = int (length (filter og_saved (guesses ch d epoch w)))"

text \<open>
  The failures a state counts are at least those recorded for its epoch, no epoch has more
  recorded failures than allowed, and every epoch in sight is a used one.
\<close>

definition epoch_inv :: "otp_cfg \<Rightarrow> string set \<Rightarrow> otp_world \<Rightarrow> bool" where
  "epoch_inv cf used w \<longleftrightarrow>
     (\<forall>ch d s. ow_states w ch d = Some (Stored s) \<longrightarrow>
        os_epoch s \<in> used \<and> (0 \<le> os_failed s \<longrightarrow> recorded ch d (os_epoch s) w \<le> os_failed s))
   \<and> (\<forall>ch d epoch. recorded ch d epoch w \<le> attempts cf)
   \<and> (\<forall>g \<in> set (ow_guesses w). og_epoch g \<in> used)"

lemma attempts_pos: "0 < attempts cf"
  by (simp add: attempts_def)

lemma recorded_cong: "ow_guesses w' = ow_guesses w \<Longrightarrow> recorded ch d epoch w' = recorded ch d epoch w"
  by (simp add: recorded_def guesses_def)

lemma recorded_unused: "\<forall>g \<in> set (ow_guesses w). og_epoch g \<noteq> epoch \<Longrightarrow> recorded ch d epoch w = 0"
  by (simp add: recorded_def guesses_def filter_empty_conv)

lemma epoch_touched:
  assumes inv: "epoch_inv cf used w" and t: "touched c w w'" and fresh: "oc_epoch c \<notin> used"
  shows "epoch_inv cf (insert (oc_epoch c) used) w'"
proof -
  have g: "ow_guesses w' = ow_guesses w" and tch: "\<And>ch d. touch c (ow_states w ch d) (ow_states w' ch d)"
    using t by (auto simp: touched_def)
  have "os_epoch s \<in> insert (oc_epoch c) used \<and> (0 \<le> os_failed s \<longrightarrow> recorded ch d (os_epoch s) w' \<le> os_failed s)"
    if s: "ow_states w' ch d = Some (Stored s)" for ch d s
  proof -
    have zero: "recorded ch d (oc_epoch c) w = 0"
      using inv fresh by (intro recorded_unused) (auto simp: epoch_inv_def)
    have "touch c (ow_states w ch d) (Some (Stored s))" using tch [of ch d] s by simp
    then consider "ow_states w ch d = Some (Stored s)" | "os_epoch s = oc_epoch c" "os_failed s = 0"
      | t where "ow_states w ch d = Some (Stored t)" "os_epoch s = os_epoch t" "os_failed s = os_failed t"
      unfolding touch_def by force
    then show ?thesis using inv zero recorded_cong [OF g] by cases (auto simp: epoch_inv_def)
  qed
  then show ?thesis using inv recorded_cong [OF g] by (auto simp: epoch_inv_def g)
qed

lemma epoch_drop:
  assumes "epoch_inv cf used w" "ow_guesses w' = ow_guesses w"
    "\<And>ch d. ow_states w' ch d = ow_states w ch d \<or> ow_states w' ch d = None"
  shows "epoch_inv cf used w'"
proof -
  have "ow_states w ch d = Some (Stored s)" if "ow_states w' ch d = Some (Stored s)" for ch d s
    using assms(3) [of ch d] that by auto
  then show ?thesis using assms(1) recorded_cong [OF assms(2)] by (simp add: epoch_inv_def assms(2)) blast
qed

lemma epoch_verify:
  assumes inv: "epoch_inv cf used w"
  shows "epoch_inv cf used (snd (Verify E cf c rq typed w))"
proof (cases rule: verify_effect [where w = w and E = E and cf = cf and c = c and rq = rq and typed = typed])
  case 1
  then show ?thesis using inv by simp
next
  case (2 s g)
  define w' where "w' = snd (Verify E cf c rq typed w)"
  let ?ch = "os_channel s" and ?d = "os_hash s" and ?saved = "oc_save_state c \<noteq> SaveFail"
  have st: "ow_states w' ch d = (if ?saved \<and> ch = ?ch \<and> d = ?d then Some (Stored (s\<lparr>os_failed := os_failed s + 1\<rparr>)) else ow_states w ch d)" for ch d
    using 2(4) store_state_states [of "oc_save_state c" "s\<lparr>os_failed := os_failed s + 1\<rparr>" w ch d] by (simp add: w'_def)
  have gs: "ow_guesses w' = ow_guesses w @ [g]" using 2(4) by (simp add: w'_def)
  have rec: "recorded ch d ep w' = recorded ch d ep w + (if ?saved \<and> ch = ?ch \<and> d = ?d \<and> ep = os_epoch s then 1 else 0)" for ch d ep
    using gs by (auto simp: recorded_def guesses_def 2(5))
  have s: "os_epoch s \<in> used" "recorded ?ch ?d (os_epoch s) w \<le> os_failed s"
    using inv 2(1,2) by (auto simp: epoch_inv_def)
  have a: "os_epoch t \<in> used \<and> (0 \<le> os_failed t \<longrightarrow> recorded ch d (os_epoch t) w' \<le> os_failed t)"
    if t: "ow_states w' ch d = Some (Stored t)" for ch d t
  proof (cases "?saved \<and> ch = ?ch \<and> d = ?d")
    case True
    then have "t = s\<lparr>os_failed := os_failed s + 1\<rparr>" using st t by simp
    then show ?thesis using s True by (simp add: rec)
  next
    case False
    then have "ow_states w ch d = Some (Stored t)" using st t by (simp split: if_splits)
    then show ?thesis using inv False by (auto simp: rec epoch_inv_def)
  qed
  have b: "recorded ch d ep w' \<le> attempts cf" for ch d ep
    using inv s(2) 2(3) by (auto simp: rec epoch_inv_def)
  have "\<forall>h \<in> set (ow_guesses w'). og_epoch h \<in> used" using inv s(1) by (auto simp: gs 2(5) epoch_inv_def)
  with a b have "epoch_inv cf used w'" unfolding epoch_inv_def by blast
  then show ?thesis by (simp add: w'_def)
qed

lemma Sweep_states: "ow_states (Sweep E i cs w) ch d = ow_states w ch d \<or> ow_states (Sweep E i cs w) ch d = None"
proof (induction cs arbitrary: w)
  case (Cons x cs)
  let ?v = "snd (sweepBudget E i x (sweepChannel i x (sw_listed i x) w))"
  have "ow_states ?v ch d = ow_states w ch d \<or> ow_states ?v ch d = None" by (simp add: sweepChannel_states)
  then show ?case using Cons.IH [of ?v] by auto
qed simp

lemma Sweep_guesses: "ow_guesses (Sweep E i cs w) = ow_guesses w"
  by (induction cs arbitrary: w) simp_all

definition otp_inv :: "otp_cfg \<Rightarrow> otp_run \<Rightarrow> bool" where
  "otp_inv cf r \<longleftrightarrow> journal_inv cf (or_clock r) (or_world r) \<and> epoch_inv cf (or_epochs r) (or_world r)"

lemma otp_init_inv: "otp_init r \<Longrightarrow> otp_inv cf r"
proof -
  assume i: "otp_init r"
  then have none: "sent ch T (or_world r) = []" "recent ch t (or_world r) = []" for ch T t
    by (simp_all add: otp_init_def sent_def recent_def)
  have pos: "0 < sendsPerChannel cf" "0 < sendsPerInvitation cf"
    by (simp_all add: sendsPerChannel_def sendsPerInvitation_def)
  have "covered x []" for x by (cases "(x, [] :: budget_entry list)" rule: covered.cases) simp_all
  then have "journal_inv cf (or_clock r) (or_world r)"
    using i none pos by (simp add: journal_inv_def covers_def bounded_def otp_init_def)
  moreover have "recorded ch d ep (or_world r) = 0" for ch d ep using i by (simp add: otp_init_def recorded_def guesses_def)
  then have "epoch_inv cf (or_epochs r) (or_world r)"
    using i attempts_pos [of cf] by (simp add: epoch_inv_def otp_init_def)
  ultimately show ?thesis by (simp add: otp_inv_def)
qed

interpretation otp: invariant_system otp_init "otp_step E cf" "otp_inv cf" for E cf
proof
  show "otp_init r \<Longrightarrow> otp_inv cf r" for r by (rule otp_init_inv)
  show "otp_inv cf r'" if "otp_inv cf r" "otp_step E cf r r'" for r r'
    using that(2)
  proof (cases rule: otp_step.cases)
    case (request c rq)
    note 1 = request
    from that(1) 1(2) have "journal_inv cf (oc_now c) (or_world r)" by (auto simp: otp_inv_def intro: journal_later)
    from journal_charged [OF this request_effect(1)] epoch_touched [OF _ request_effect(2)] that(1) 1
    show ?thesis by (simp add: otp_inv_def)
  next
    case (verify c rq typed)
    note 2 = verify
    have same: "ow_budgets (snd (Verify E cf c rq typed (or_world r))) = ow_budgets (or_world r)"
      "ow_mails (snd (Verify E cf c rq typed (or_world r))) = ow_mails (or_world r)"
      by (cases rule: verify_effect [where w = "or_world r" and E = E and cf = cf and c = c and rq = rq and typed = typed]; simp)+
    from that(1) 2(2) have "journal_inv cf (oc_now c) (or_world r)" by (auto simp: otp_inv_def intro: journal_later)
    then have "journal_inv cf (oc_now c) (snd (Verify E cf c rq typed (or_world r)))"
      unfolding journal_cong [OF same] .
    with epoch_verify that(1) 2(1) show ?thesis by (simp add: otp_inv_def)
  next
    case (sweep i cs)
    note 3 = sweep
    from that(1) 3(2) have "journal_inv cf (oc_now (sw_call i)) (or_world r)" by (auto simp: otp_inv_def intro: journal_later)
    from journal_Sweep [OF this] that(1) epoch_drop [OF _ Sweep_guesses Sweep_states] 3
    show ?thesis by (simp add: otp_inv_def)
  qed
qed

end
