(* ===== verification/Recipient_OTP_Props.thy ===== *)
theory Recipient_OTP_Props
  imports Recipient_OTP_Inv
begin

text \<open>The properties of the one-time code service, each with an example.\<close>

section \<open>The shape of a code\<close>

lemma digit_char: "k < 10 \<Longrightarrow> char_of (48 + k :: nat) \<in> set ''0123456789''"
proof -
  assume "k < 10"
  then have "k \<in> {0, 1, 2, 3, 4, 5, 6, 7, 8, 9}" by auto
  then show ?thesis by (elim insertE) (simp_all add: char_of_def bit_0)
qed

lemma decimals_shape: "length (decimals w n) = w \<and> list_all (\<lambda>x. x \<in> set ''0123456789'') (decimals w n)"
proof (induction w arbitrary: n)
  case (Suc w)
  have "char_of (48 + n mod 10) \<in> set ''0123456789''" by (rule digit_char) simp
  with Suc.IH [of "n div 10"] show ?case by (simp del: set_simps)
qed simp

lemma otp_code_sent [simp]: "otp_code E cf (s\<lparr>os_last_sent := t\<rparr>) = otp_code E cf s"
  by (simp add: otp_code_def)

section \<open>A successful request\<close>

definition loadable :: "otp_env \<Rightarrow> otp_cfg \<Rightarrow> otp_state \<Rightarrow> bool" where
  "loadable E cf s \<longleftrightarrow> os_schema s = state_schema \<and> oe_uuid E (os_epoch s) \<and> os_activated s \<noteq> 0
     \<and> os_activated s < os_expires s \<and> 0 \<le> os_failed s \<and> os_failed s \<le> attempts cf"

lemma load_stateI:
  "oc_read_state c \<Longrightarrow> ow_states w ch d = Some (Stored s) \<Longrightarrow> os_channel s = ch \<Longrightarrow> os_hash s = d \<Longrightarrow> loadable E cf s
   \<Longrightarrow> load_state E cf c ch d w = Inr s"
  by (simp add: load_state_def loadable_def)

lemma load_stateD: "load_state E cf c ch d w = Inr s \<Longrightarrow> loadable E cf s"
  by (auto simp: load_state_def loadable_def split: if_splits option.splits stored.splits)

lemma fresh_loadable:
  assumes "oe_uuid E (oc_epoch c)" "0 < oc_now c"
  shows "loadable E cf (fresh_state cf c ch d)"
  using assms attempts_pos [of cf] by (simp add: loadable_def fresh_state_def ttl_def)

lemma open_epoch_loadable:
  assumes "open_epoch E cf c ch d w = (Inr s, w1)" "oe_uuid E (oc_epoch c)" "0 < oc_now c"
  shows "loadable E cf s \<and> oc_now c < os_expires s"
proof -
  have "s = fresh_state cf c ch d \<or> load_state E cf c ch d w = Inr s \<and> oc_now c < os_expires s"
    using assms(1) by (auto simp: open_epoch_def Let_def split: sum.splits otp_err.splits if_splits option.splits prod.splits)
  then show ?thesis using load_stateD fresh_loadable [OF assms(2,3)] by (auto simp: fresh_state_def ttl_def)
qed

lemma charge_mailed:
  assumes "charge_and_mail E cf c ch cred d b s w = (None, w')"
  shows "ow_states w' (os_channel s) (os_hash s) = Some (Stored (s\<lparr>os_last_sent := oc_now c\<rparr>))"
    "\<exists>m. ow_mails w' = ow_mails w @ [m] \<and> om_epoch m = os_epoch s \<and> om_code m = otp_code E cf s"
proof -
  let ?b = "b\<lparr>sb_sends := sb_sends b @ [\<lparr>be_hash = d, be_at = oc_now c\<rparr>]\<rparr>"
  define w1 where "w1 = snd (storeBudget E (oc_save_budget c) ?b w)"
  define w2 where "w2 = deliver E cf c ch cred d s w1"
  have st: "store_state (oc_save_state c) (s\<lparr>os_last_sent := oc_now c\<rparr>) w2 = (None, w')"
    using assms by (auto simp: charge_and_mail_def Let_def w1_def w2_def split: prod.splits option.splits if_splits)
  then have "oc_save_state c \<noteq> SaveFail" by (auto simp: store_state_def Let_def)
  then show "ow_states w' (os_channel s) (os_hash s) = Some (Stored (s\<lparr>os_last_sent := oc_now c\<rparr>))"
    using store_state_states [of "oc_save_state c" "s\<lparr>os_last_sent := oc_now c\<rparr>" w2] st by simp
  have "ow_mails w' = ow_mails w2" using store_state_frame(2) [of "oc_save_state c" "s\<lparr>os_last_sent := oc_now c\<rparr>" w2] st by simp
  then show "\<exists>m. ow_mails w' = ow_mails w @ [m] \<and> om_epoch m = os_epoch s \<and> om_code m = otp_code E cf s"
    by (simp add: w2_def deliver_def w1_def)
qed

lemma request_mailed:
  assumes req: "RequestCode E cf c rq w = (None, w')" and mail: "ow_mails w' = ow_mails w @ [m]"
    and rc: "recipient E cf c rq = Some (ch, cred, d)" and id: "oe_uuid E (oc_epoch c)" "0 < oc_now c"
  obtains s where "ow_states w' (oh_id ch) d = Some (Stored s)" "loadable E cf s" "oc_now c < os_expires s"
    "os_channel s = oh_id ch" "os_hash s = d" "om_epoch m = os_epoch s" "om_code m = otp_code E cf s"
proof -
  obtain q w1 where q: "open_epoch E cf c (oh_id ch) d w = (q, w1)" by (cases "open_epoch E cf c (oh_id ch) d w")
  have neq: "w' \<noteq> w" using mail by auto
  have neq1: "w' \<noteq> w1" using mail open_epoch_frame(2) [OF q] by auto
  obtain b s where s: "q = Inr s" "charge_and_mail E cf c ch cred d b s w1 = (None, w')"
    using req rc q neq neq1
    by (auto simp: RequestCode_def Let_def split: option.splits if_splits sum.splits budget_decision.splits)
  have os: "os_channel s = oh_id ch" "os_hash s = d" using open_epoch_frame(4) [OF q s(1)] by auto
  have ld: "loadable E cf s" "oc_now c < os_expires s" using open_epoch_loadable [OF _ id] q s(1) by blast+
  obtain m' where m': "ow_mails w' = ow_mails w1 @ [m']" "om_epoch m' = os_epoch s" "om_code m' = otp_code E cf s"
    using charge_mailed(2) [OF s(2)] by blast
  then have "m' = m" using mail open_epoch_frame(2) [OF q] by simp
  then show thesis
    using that [of "s\<lparr>os_last_sent := oc_now c\<rparr>"] charge_mailed(1) [OF s(2)] os ld m' by (simp add: loadable_def)
qed

section \<open>Properties\<close>


text \<open>
  C4. In every run, in any 24 hours at most the configured number of codes is mailed for one
  invitation and for one channel, whatever fails, restarts, expires or is swept in between.
\<close>

theorem otp_sends_bounded:
  assumes "reach otp_init (otp_step E cf) r"
  shows "int (length (sent ch T (or_world r))) \<le> sendsPerChannel cf
    \<and> int (length (filter (\<lambda>e. be_hash e = d) (sent ch T (or_world r)))) \<le> sendsPerInvitation cf"
  using otp.reach_inv [OF assms] by (simp add: otp_inv_def journal_inv_def bounded_def)

text \<open>
  C19. In every run, the wrong codes tried against one epoch of one invitation are at most the
  allowed attempts, not counting those whose record could not be saved.
\<close>

theorem otp_guesses_bounded:
  assumes "reach otp_init (otp_step E cf) r"
  shows "int (length (guesses ch d epoch (or_world r)))
    \<le> attempts cf + int (length (filter (\<lambda>g. \<not> og_saved g) (guesses ch d epoch (or_world r))))"
proof -
  have "recorded ch d epoch (or_world r) \<le> attempts cf"
    using otp.reach_inv [OF assms] by (simp add: otp_inv_def epoch_inv_def)
  then show ?thesis
    using sum_length_filter_compl [of og_saved "guesses ch d epoch (or_world r)"] by (simp add: recorded_def)
qed


section \<open>Examples\<close>

definition sample_otp_env :: otp_env where
  "sample_otp_env =
     \<lparr>oe_sha256 = \<lambda>s. replicate 64 CHR ''a'', oe_mac = \<lambda>k m. replicate 32 CHR 0x00, oe_uuid = \<lambda>s. True,
      oe_canonical_uuid = \<lambda>s. True, oe_email = Some, oe_lower = \<lambda>s. s, oe_json_len = \<lambda>b. 0\<rparr>"

definition sample_cfg :: otp_cfg where
  "sample_cfg =
     \<lparr>cf_root = ''/r'', cf_key = replicate 32 CHR ''k'', cf_has_channels = True, cf_outbox_root = ''/o'', cf_ttl = 0,
      cf_cooldown = 0, cf_max_attempts = 0, cf_per_invitation = 0, cf_per_channel = 0\<rparr>"

abbreviation sample_channel :: otp_channel where
  "sample_channel \<equiv> \<lparr>oh_id = ''c'', oh_recipients = [\<lparr>cr_email = ''m'', cr_token_hash = replicate 64 CHR ''a''\<rparr>]\<rparr>"

definition sample_call :: "gotime \<Rightarrow> otp_call" where
  "sample_call now =
     \<lparr>oc_now = now, oc_mkdir = True, oc_lock = True, oc_resolve = \<lambda>a s. Some sample_channel,
      oc_resolve_upload = \<lambda>a s. None, oc_read_budget = True, oc_read_state = True, oc_epoch = ''e'',
      oc_save_epoch = SaveOk, oc_save_budget = SaveOk, oc_delivered = True, oc_save_state = SaveOk\<rparr>"

definition sample_rq :: otp_request where
  "sample_rq = \<lparr>rq_alias = ''a'', rq_slug = ''s'', rq_invitation = ''i'', rq_email = ''''\<rparr>"

definition empty_world :: otp_world where
  "empty_world = \<lparr>ow_states = \<lambda>c d. None, ow_budgets = \<lambda>c. None, ow_mails = [], ow_guesses = []\<rparr>"

definition sample_mailed :: otp_world where
  "sample_mailed = snd (RequestCode sample_otp_env sample_cfg (sample_call 5) sample_rq empty_world)"

definition sample_guessed :: otp_world where
  "sample_guessed = snd (Verify sample_otp_env sample_cfg (sample_call 6) sample_rq ''11111111'' sample_mailed)"

lemma sample_call_sel [simp]:
  "oc_now (sample_call t) = t" "oc_lock (sample_call t)" "oc_read_budget (sample_call t)" "oc_read_state (sample_call t)"
  "oc_epoch (sample_call t) = ''e''" "oc_save_epoch (sample_call t) = SaveOk" "oc_save_budget (sample_call t) = SaveOk"
  "oc_delivered (sample_call t)" "oc_save_state (sample_call t) = SaveOk"
  by (simp_all add: sample_call_def)

lemmas sample_eval_otp = sample_otp_env_def sample_cfg_def sample_call_def sample_rq_def

lemma sample_ready: "validate_service sample_cfg (sample_call t) = None"
  by (simp add: sample_eval_otp validate_service_def ttl_def cooldown_def attempts_def is_abs_def has_prefix_def maxBudgetEntries_def)

lemma sample_recipient:
  "recipient sample_otp_env sample_cfg (sample_call t) sample_rq =
     Some (sample_channel, \<lparr>cr_email = ''m'', cr_token_hash = replicate 64 CHR ''a''\<rparr>, replicate 64 CHR ''a'')"
  by (simp add: sample_eval_otp recipient_def contains_any_def Let_def)

lemma sample_code: "otp_code sample_otp_env sample_cfg s = ''00000000''"
proof -
  have "be_value (replicate 8 CHR 0x00) = 0" by code_simp
  moreover have "decimals 8 0 = ''00000000''" by code_simp
  ultimately show ?thesis by (simp add: otp_code_def sample_otp_env_def)
qed

abbreviation sample_digest :: string where "sample_digest \<equiv> replicate 64 CHR ''a''"

abbreviation sample_state :: "int \<Rightarrow> otp_state" where
  "sample_state n \<equiv> \<lparr>os_schema = state_schema, os_channel = ''c'', os_hash = sample_digest, os_epoch = ''e'',
     os_activated = 5, os_expires = 300000000005, os_last_sent = 5, os_failed = n\<rparr>"

lemma sample_budget_ok: "validate_budget sample_otp_env ''c'' \<lparr>sb_schema = budget_schema, sb_channel = ''c'', sb_sends = [\<lparr>be_hash = sample_digest, be_at = 5\<rparr>]\<rparr>"
  by (simp add: validate_budget_def sample_otp_env_def maxBudgetEntries_def lower_hex_def year_10000_def list_all_iff)

lemma sample_request:
  "RequestCode sample_otp_env sample_cfg (sample_call 5) sample_rq empty_world = (None, sample_mailed)
   \<and> ow_states sample_mailed ''c'' sample_digest = Some (Stored (sample_state 0))
   \<and> ow_mails sample_mailed = [\<lparr>om_channel = ''c'', om_entry = \<lparr>be_hash = sample_digest, be_at = 5\<rparr>, om_email = ''m'',
       om_epoch = ''e'', om_code = ''00000000''\<rparr>] \<and> ow_guesses sample_mailed = []"
proof -
  let ?b = "\<lparr>sb_schema = budget_schema, sb_channel = ''c'', sb_sends = []\<rparr>"
  let ?c = "sample_call 5"
  let ?fresh = "fresh_state sample_cfg ?c ''c'' sample_digest"
  have rd: "readBudget sample_otp_env ?c ''c'' empty_world = Inr ?b"
    by (simp add: readBudget_def empty_world_def)
  have pr: "prune (oc_now ?c) ?b = ?b" by (simp add: prune_def)
  have dec: "decide sample_digest (oc_now ?c) (sendsPerInvitation sample_cfg) (sendsPerChannel sample_cfg) (cooldown sample_cfg) ?b = BudgetSend"
    by (simp add: decide_def sendsPerInvitation_def sendsPerChannel_def sample_cfg_def)
  have "load_state sample_otp_env sample_cfg ?c ''c'' sample_digest empty_world = Inl OtpNotExist"
    by (simp add: load_state_def empty_world_def)
  then have ep: "open_epoch sample_otp_env sample_cfg ?c ''c'' sample_digest empty_world =
      (Inr ?fresh, snd (store_state SaveOk ?fresh empty_world))"
    by (simp add: open_epoch_def store_state_def Let_def)
  have fresh: "?fresh = (sample_state 0)\<lparr>os_last_sent := 0\<rparr>"
    by (simp add: fresh_state_def ttl_def sample_cfg_def)
  have "RequestCode sample_otp_env sample_cfg ?c sample_rq empty_world =
      charge_and_mail sample_otp_env sample_cfg ?c sample_channel \<lparr>cr_email = ''m'', cr_token_hash = sample_digest\<rparr> sample_digest
        ?b ?fresh (snd (store_state SaveOk ?fresh empty_world))"
    by (simp add: RequestCode_def sample_ready sample_recipient rd pr [simplified] dec [simplified] ep [simplified fresh] fresh)
  then show ?thesis using sample_budget_ok
    by (simp add: sample_mailed_def charge_and_mail_def fresh storeBudget_def deliver_def store_state_def sample_code
        maxBudgetBytes_def empty_world_def Let_def) (simp add: sample_otp_env_def)
qed

lemma sample_wrong:
  "ow_guesses sample_guessed = [\<lparr>og_channel = ''c'', og_hash = sample_digest, og_epoch = ''e'', og_saved = True\<rparr>]"
proof -
  have "load_state sample_otp_env sample_cfg (sample_call 6) ''c'' sample_digest sample_mailed = Inr (sample_state 0)"
    using sample_request by (intro load_stateI) (simp_all add: loadable_def sample_otp_env_def attempts_def)
  moreover have "code_shape ''11111111''" by code_simp
  ultimately show ?thesis using sample_request attempts_pos [of sample_cfg]
    by (simp add: sample_guessed_def Verify_def sample_ready sample_recipient sample_code wrong_code_def store_state_def case_prod_unfold Let_def)
qed

lemma sample_otp_reach:
  obtains r where "reach otp_init (otp_step sample_otp_env sample_cfg) r" "or_world r = sample_guessed"
proof -
  define r0 where "r0 = \<lparr>or_clock = 0, or_world = empty_world, or_epochs = {}\<rparr>"
  define r1 where "r1 = \<lparr>or_clock = 5, or_world = sample_mailed, or_epochs = {''e''}\<rparr>"
  define r2 where "r2 = \<lparr>or_clock = 6, or_world = sample_guessed, or_epochs = {''e''}\<rparr>"
  have "reach otp_init (otp_step sample_otp_env sample_cfg) r0"
    by (rule reach_init) (simp add: otp_init_def r0_def empty_world_def)
  moreover have "otp_step sample_otp_env sample_cfg r0 r1"
    using otp_step.request [of r0 "sample_call 5" sample_otp_env sample_cfg sample_rq] by (simp add: r0_def r1_def sample_mailed_def)
  moreover have "otp_step sample_otp_env sample_cfg r1 r2"
    using otp_step.verify [of r1 "sample_call 6" sample_otp_env sample_cfg sample_rq "''11111111''"]
    by (simp add: r1_def r2_def sample_guessed_def)
  ultimately have "reach otp_init (otp_step sample_otp_env sample_cfg) r2" by (blast intro: reach_step)
  then show thesis by (rule that) (simp add: r2_def)
qed

theorem otp_sends_bounded_witness:
  "int (length (sent ''c'' 6 sample_guessed)) \<le> sendsPerChannel sample_cfg \<and> ow_guesses sample_guessed \<noteq> []"
proof -
  obtain r where r: "reach otp_init (otp_step sample_otp_env sample_cfg) r" "or_world r = sample_guessed"
    by (rule sample_otp_reach)
  show ?thesis using otp_sends_bounded [OF r(1), of "''c''" 6] r(2) by (simp add: sample_wrong)
qed

theorem otp_guesses_bounded_witness:
  "length (guesses ''c'' sample_digest ''e'' sample_guessed) = 1 \<and>
   int (length (guesses ''c'' sample_digest ''e'' sample_guessed)) \<le> attempts sample_cfg"
proof -
  obtain r where r: "reach otp_init (otp_step sample_otp_env sample_cfg) r" "or_world r = sample_guessed"
    by (rule sample_otp_reach)
  have "length (guesses ''c'' sample_digest ''e'' sample_guessed) = 1"
    "filter (\<lambda>g. \<not> og_saved g) (guesses ''c'' sample_digest ''e'' sample_guessed) = []"
    by (simp_all add: guesses_def sample_wrong)
  then show ?thesis using otp_guesses_bounded [OF r(1), of "''c''" sample_digest "''e''"] r(2) by simp
qed


end
