(* ===== verification/Runtime_Gates.thy ===== *)
theory Runtime_Gates
  imports Go_Lib
begin

text \<open>
  The gates between workers in the daemon: \<open>Admission\<close> (\<open>pkg/runtime/admission.go\<close>), which
  drains running operations before a restart, and \<open>SyncPause\<close> (\<open>pkg/runtime/sync_pause.go\<close>),
  which pauses synchronisation by hand or while an announcement is edited. Every critical
  section is one step; the completions handed out and not yet called, and the callers waiting
  in \<open>Quiesce\<close>, are part of the state of a run, so a run is any interleaving of goroutines.
\<close>

section \<open>Admission\<close>

text \<open>
  A drain is a heap object with two channels. Closing a channel twice is a panic in Go, which
  the state remembers.
\<close>

record admission =
  ad_active :: int
  ad_drain :: "nat option"
  ad_next :: nat
  ad_done :: "nat set"
  ad_resumed :: "nat set"
  ad_panic :: bool

definition close_done :: "nat \<Rightarrow> admission \<Rightarrow> admission" where
  "close_done d a = a\<lparr>ad_panic := (ad_panic a \<or> d \<in> ad_done a), ad_done := insert d (ad_done a)\<rparr>"

definition close_resumed :: "nat \<Rightarrow> admission \<Rightarrow> admission" where
  "close_resumed d a = a\<lparr>ad_panic := (ad_panic a \<or> d \<in> ad_resumed a), ad_resumed := insert d (ad_resumed a)\<rparr>"

definition enterLocked :: "admission \<Rightarrow> admission" where
  "enterLocked a = a\<lparr>ad_active := ad_active a + 1\<rparr>"

text \<open>\<open>Enter\<close> and one round of \<open>EnterContext\<close>: admitted, or refused while a drain is set.\<close>

definition Enter_adm :: "admission \<Rightarrow> admission option" where
  "Enter_adm a = (if ad_drain a \<noteq> None then None else Some (enterLocked a))"

definition release_adm :: "admission \<Rightarrow> admission" where
  "release_adm a =
     (let a1 = a\<lparr>ad_active := ad_active a - 1\<rparr> in
      case ad_drain a1 of
        Some d \<Rightarrow> if ad_active a1 = 0 then close_done d a1 else a1
      | None \<Rightarrow> a1)"

text \<open>The first critical section of \<open>Quiesce\<close>; the result is the new drain.\<close>

definition Quiesce :: "admission \<Rightarrow> (nat \<times> admission) option" where
  "Quiesce a =
     (if ad_drain a \<noteq> None then None
      else
       (let d = ad_next a;
            a1 = a\<lparr>ad_next := Suc d, ad_drain := Some d\<rparr> in
        Some (d, if ad_active a1 = 0 then close_done d a1 else a1)))"

definition resume_adm :: "nat \<Rightarrow> admission \<Rightarrow> admission" where
  "resume_adm d a = (if ad_drain a = Some d then close_resumed d (a\<lparr>ad_drain := None\<rparr>) else a)"

definition Snapshot_adm :: "admission \<Rightarrow> int \<times> bool" where
  "Snapshot_adm a = (ad_active a, ad_drain a \<noteq> None)"

text \<open>
  Runs. \<open>am_open\<close> are the admitted operations not yet released, \<open>am_waiting\<close> the callers of
  \<open>Quiesce\<close> in their \<open>select\<close>, \<open>am_holding\<close> those to which it returned success.
\<close>

record adm_run =
  am_gate :: admission
  am_open :: "nat set"
  am_waiting :: "nat set"
  am_holding :: "nat set"

inductive adm_step :: "adm_run \<Rightarrow> adm_run \<Rightarrow> bool" where
  enter: "Enter_adm (am_gate r) = Some a \<Longrightarrow> k \<notin> am_open r
    \<Longrightarrow> adm_step r (r\<lparr>am_gate := a, am_open := insert k (am_open r)\<rparr>)"
| leave: "k \<in> am_open r \<Longrightarrow> adm_step r (r\<lparr>am_gate := release_adm (am_gate r), am_open := am_open r - {k}\<rparr>)"
| quiesce: "Quiesce (am_gate r) = Some (d, a)
    \<Longrightarrow> adm_step r (r\<lparr>am_gate := a, am_waiting := insert d (am_waiting r)\<rparr>)"
| cancelled: "d \<in> am_waiting r
    \<Longrightarrow> adm_step r (r\<lparr>am_gate := resume_adm d (am_gate r), am_waiting := am_waiting r - {d}\<rparr>)"
| drained: "d \<in> am_waiting r \<Longrightarrow> d \<in> ad_done (am_gate r)
    \<Longrightarrow> adm_step r (r\<lparr>am_waiting := am_waiting r - {d}, am_holding := insert d (am_holding r)\<rparr>)"
| resumed: "d \<in> am_holding r
    \<Longrightarrow> adm_step r (r\<lparr>am_gate := resume_adm d (am_gate r), am_holding := am_holding r - {d}\<rparr>)"

definition adm_init :: "adm_run \<Rightarrow> bool" where
  "adm_init r \<longleftrightarrow> r = \<lparr>am_gate = \<lparr>ad_active = 0, ad_drain = None, ad_next = 0, ad_done = {}, ad_resumed = {}, ad_panic = False\<rparr>,
     am_open = {}, am_waiting = {}, am_holding = {}\<rparr>"

text \<open>Every caller in \<open>Quiesce\<close> or past it owns the drain that is set; a closed drain means nobody is inside.\<close>

definition adm_inv :: "adm_run \<Rightarrow> bool" where
  "adm_inv r \<longleftrightarrow> (let a = am_gate r in
     \<not> ad_panic a \<and> finite (am_open r) \<and> ad_active a = int (card (am_open r))
     \<and> am_waiting r \<union> am_holding r = set_option (ad_drain a) \<and> am_waiting r \<inter> am_holding r = {}
     \<and> (\<forall>d \<in> set_option (ad_drain a). d < ad_next a \<and> d \<notin> ad_resumed a \<and> (d \<in> ad_done a \<longleftrightarrow> am_open r = {}))
     \<and> am_holding r \<subseteq> ad_done a
     \<and> (\<forall>d \<in> ad_done a \<union> ad_resumed a. d < ad_next a))"

lemmas gate_defs = Enter_adm_def enterLocked_def release_adm_def Quiesce_def resume_adm_def close_done_def close_resumed_def Let_def

lemma adm_waiting:
  assumes "adm_inv r" "d \<in> am_waiting r"
  shows "ad_drain (am_gate r) = Some d" "am_waiting r = {d}" "am_holding r = {}"
proof -
  have u: "am_waiting r \<union> am_holding r = set_option (ad_drain (am_gate r))" "am_waiting r \<inter> am_holding r = {}"
    using assms(1) by (simp_all add: adm_inv_def Let_def)
  have "d \<in> set_option (ad_drain (am_gate r))" using u(1) assms(2) by blast
  then show "ad_drain (am_gate r) = Some d" by simp
  with u assms(2) show "am_waiting r = {d}" "am_holding r = {}" by auto
qed

lemma adm_holding:
  assumes "adm_inv r" "d \<in> am_holding r"
  shows "ad_drain (am_gate r) = Some d" "am_holding r = {d}" "am_waiting r = {}" "am_open r = {}"
proof -
  have u: "am_waiting r \<union> am_holding r = set_option (ad_drain (am_gate r))" "am_waiting r \<inter> am_holding r = {}"
    using assms(1) by (simp_all add: adm_inv_def Let_def)
  have "d \<in> set_option (ad_drain (am_gate r))" using u(1) assms(2) by blast
  then show dr: "ad_drain (am_gate r) = Some d" by simp
  with u assms(2) show "am_holding r = {d}" "am_waiting r = {}" by auto
  show "am_open r = {}" using assms dr by (auto simp: adm_inv_def Let_def)
qed

lemma adm_leave:
  assumes inv: "adm_inv r" and k: "k \<in> am_open r"
  shows "adm_inv (r\<lparr>am_gate := release_adm (am_gate r), am_open := am_open r - {k}\<rparr>)"
proof -
  have fin: "finite (am_open r)" using inv by (simp add: adm_inv_def Let_def)
  have card: "int (card (am_open r - {k})) = int (card (am_open r)) - 1"
    using card.remove [OF fin k] by simp
  have zero: "int (card (am_open r - {k})) = 0 \<longleftrightarrow> am_open r - {k} = {}" using fin by simp
  show ?thesis
  proof (cases "ad_drain (am_gate r)")
    case None
    then show ?thesis using inv card by (auto simp: adm_inv_def gate_defs)
  next
    case (Some d)
    then have "d \<notin> ad_done (am_gate r)" using inv k by (auto simp: adm_inv_def Let_def)
    then show ?thesis using inv Some card zero k by (auto simp: adm_inv_def gate_defs)
  qed
qed

interpretation admitted: invariant_system adm_init adm_step adm_inv
proof
  show "adm_init r \<Longrightarrow> adm_inv r" for r by (simp add: adm_init_def adm_inv_def)
  show "adm_inv r'" if inv: "adm_inv r" and st: "adm_step r r'" for r r'
    using st
  proof (cases rule: adm_step.cases)
    case (enter a k)
    then show ?thesis using inv by (auto simp: adm_inv_def gate_defs split: if_splits)
  next
    case (leave k)
    then show ?thesis using adm_leave [OF inv] by blast
  next
    case (quiesce d a)
    then show ?thesis using inv by (auto simp: adm_inv_def gate_defs less_Suc_eq split: if_splits)
  next
    case (cancelled d)
    then show ?thesis using inv adm_waiting [OF inv] by (auto simp: adm_inv_def gate_defs)
  next
    case (drained d)
    then show ?thesis using inv adm_waiting [OF inv] by (auto simp: adm_inv_def gate_defs)
  next
    case (resumed d)
    then show ?thesis using inv adm_holding [OF inv] by (auto simp: adm_inv_def gate_defs)
  qed
qed

text \<open>
  C14. When \<open>Quiesce\<close> has returned success, and until the caller resumes, no admitted
  operation is running and none can start; two callers never hold the gate at once; the count
  of running operations is exact; and no channel is ever closed twice.
\<close>

theorem admission_sealed:
  assumes "reach adm_init adm_step r"
  shows "\<not> ad_panic (am_gate r) \<and> ad_active (am_gate r) = int (card (am_open r))
    \<and> (d \<in> am_holding r \<longrightarrow> am_holding r = {d} \<and> am_waiting r = {} \<and> am_open r = {} \<and> Enter_adm (am_gate r) = None)"
proof -
  have inv: "adm_inv r" by (rule admitted.reach_inv [OF assms])
  then show ?thesis using adm_holding [OF inv] by (auto simp: adm_inv_def Let_def Enter_adm_def)
qed

section \<open>The synchronisation pause\<close>

record pause =
  sp_manual :: bool
  sp_token :: string
  sp_repo :: string
  sp_until :: gotime
  sp_commits :: int
  sp_polls :: int
  sp_publishing :: bool

datatype pause_err = SyncPaused | DraftExpired | CtxErr

abbreviation DraftTTL :: duration where "DraftTTL \<equiv> minute"

definition expire :: "gotime \<Rightarrow> pause \<Rightarrow> pause" where
  "expire now p = (if sp_token p \<noteq> '''' \<and> \<not> now < sp_until p then p\<lparr>sp_token := '''', sp_repo := ''''\<rparr> else p)"

definition SetManual :: "bool \<Rightarrow> pause \<Rightarrow> pause" where
  "SetManual paused p = p\<lparr>sp_manual := paused\<rparr>"

definition Status :: "gotime \<Rightarrow> pause \<Rightarrow> (bool \<times> bool \<times> bool) \<times> pause" where
  "Status now p0 =
     (let p = expire now p0 in
      ((sp_manual p, sp_token p \<noteq> '''' \<or> sp_publishing p,
        (sp_manual p \<and> sp_polls p > 0) \<or> ((sp_manual p \<or> sp_token p \<noteq> '''') \<and> sp_commits p > 0)), p))"

text \<open>\<open>Draft\<close>; the clock is read when the lease expires and again when it is set.\<close>

definition Draft :: "gotime \<Rightarrow> gotime \<Rightarrow> string \<Rightarrow> string \<Rightarrow> string \<Rightarrow> pause \<Rightarrow> (pause_err, bool) result \<times> pause" where
  "Draft now now2 token repo action p0 =
     (let p = expire now p0 in
      if token = '''' \<or> repo = '''' then (Inl DraftExpired, p)
      else if action = ''begin'' then
        (if sp_publishing p \<or> (sp_token p \<noteq> '''' \<and> (sp_token p \<noteq> token \<or> sp_repo p \<noteq> repo)) then (Inl SyncPaused, p)
         else (Inr (sp_commits p = 0), p\<lparr>sp_token := token, sp_repo := repo, sp_until := now2 + DraftTTL\<rparr>))
      else if action = ''renew'' then
        (if sp_token p \<noteq> token \<or> sp_repo p \<noteq> repo then (Inl DraftExpired, p)
         else (Inr (sp_commits p = 0), p\<lparr>sp_until := now2 + DraftTTL\<rparr>))
      else if action = ''end'' then
        (Inr True, if sp_token p = token \<and> sp_repo p = repo then p\<lparr>sp_token := '''', sp_repo := ''''\<rparr> else p)
      else (Inl DraftExpired, p))"

text \<open>\<open>Enter\<close> with the draft token of the caller's context.\<close>

definition Enter_pause :: "gotime \<Rightarrow> bool \<Rightarrow> string \<Rightarrow> string \<Rightarrow> bool \<Rightarrow> pause \<Rightarrow> (pause_err, pause) result \<times> pause" where
  "Enter_pause now live token repo commit p0 =
     (if \<not> live then (Inl CtxErr, p0)
      else
       (let p = expire now p0; own = (token \<noteq> '''') in
        if own \<and> (\<not> commit \<or> sp_token p \<noteq> token \<or> sp_repo p \<noteq> repo \<or> sp_commits p \<noteq> 0) then (Inl DraftExpired, p)
        else if sp_manual p \<or> (commit \<and> (sp_publishing p \<or> (sp_token p \<noteq> '''' \<and> \<not> own))) then (Inl SyncPaused, p)
        else
         (let p1 = (if commit then p\<lparr>sp_commits := sp_commits p + 1\<rparr> else p\<lparr>sp_polls := sp_polls p + 1\<rparr>);
              p2 = (if own then p1\<lparr>sp_publishing := True\<rparr> else p1) in
          (Inr p2, p2))))"

definition leave_pause :: "bool \<Rightarrow> bool \<Rightarrow> pause \<Rightarrow> pause" where
  "leave_pause commit own p =
     (let p1 = (if commit then p\<lparr>sp_commits := sp_commits p - 1\<rparr> else p\<lparr>sp_polls := sp_polls p - 1\<rparr>) in
      if own then p1\<lparr>sp_publishing := False\<rparr> else p1)"

text \<open>Runs. \<open>po_open\<close> lists the cycles admitted and not finished: whether each commits, and whether it is the editor's own.\<close>

record pause_run =
  po_gate :: pause
  po_open :: "(bool \<times> bool) list"

inductive pause_step :: "pause_run \<Rightarrow> pause_run \<Rightarrow> bool" where
  manual: "pause_step r (r\<lparr>po_gate := SetManual b (po_gate r)\<rparr>)"
| status: "pause_step r (r\<lparr>po_gate := snd (Status now (po_gate r))\<rparr>)"
| draft: "pause_step r (r\<lparr>po_gate := snd (Draft now now2 token repo action (po_gate r))\<rparr>)"
| refused: "Enter_pause now live token repo commit (po_gate r) = (Inl e, p) \<Longrightarrow> pause_step r (r\<lparr>po_gate := p\<rparr>)"
| entered: "Enter_pause now live token repo commit (po_gate r) = (Inr p, p)
    \<Longrightarrow> pause_step r (r\<lparr>po_gate := p, po_open := (commit, token \<noteq> '''') # po_open r\<rparr>)"
| left: "(commit, own) \<in> set (po_open r)
    \<Longrightarrow> pause_step r (r\<lparr>po_gate := leave_pause commit own (po_gate r), po_open := remove1 (commit, own) (po_open r)\<rparr>)"

definition pause_init :: "pause_run \<Rightarrow> bool" where
  "pause_init r \<longleftrightarrow> r = \<lparr>po_gate = \<lparr>sp_manual = False, sp_token = '''', sp_repo = '''', sp_until = 0, sp_commits = 0,
     sp_polls = 0, sp_publishing = False\<rparr>, po_open = []\<rparr>"

text \<open>The counters and the flag as functions of the open cycles; an own commit is the only commit.\<close>

definition tally :: "(bool \<times> bool) list \<Rightarrow> int \<times> int \<times> bool" where
  "tally xs = (int (length (filter fst xs)), int (length (filter (Not \<circ> fst) xs)), list_ex snd xs)"

definition lone :: "(bool \<times> bool) list \<Rightarrow> bool" where
  "lone xs \<longleftrightarrow> list_ex snd xs \<longrightarrow> filter fst xs = [(True, True)] \<and> list_all (\<lambda>x. snd x \<longrightarrow> fst x) xs"

definition counters :: "pause \<Rightarrow> int \<times> int \<times> bool" where
  "counters p = (sp_commits p, sp_polls p, sp_publishing p)"

definition pause_inv :: "pause_run \<Rightarrow> bool" where
  "pause_inv r \<longleftrightarrow> counters (po_gate r) = tally (po_open r) \<and> lone (po_open r)"

lemma counters_expire [simp]: "counters (expire now p) = counters p"
  by (simp add: expire_def counters_def)

lemma counters_frame [simp]:
  "counters (SetManual b p) = counters p" "counters (snd (Status now p)) = counters p"
  "counters (snd (Draft now now2 token repo action p)) = counters p"
proof -
  show "counters (SetManual b p) = counters p" by (simp add: SetManual_def counters_def)
  show "counters (snd (Status now p)) = counters p" by (simp add: Status_def Let_def)
  have upd: "counters (q\<lparr>sp_token := a, sp_repo := b, sp_until := u\<rparr>) = counters q"
    "counters (q\<lparr>sp_until := u\<rparr>) = counters q" "counters (q\<lparr>sp_token := a, sp_repo := b\<rparr>) = counters q" for q a b u
    by (simp_all add: counters_def)
  show "counters (snd (Draft now now2 token repo action p)) = counters p"
    unfolding Draft_def Let_def by (simp add: upd)
qed

lemma enter_refused: "Enter_pause now live token repo commit p = (Inl e, q) \<Longrightarrow> counters q = counters p"
  by (auto simp: Enter_pause_def Let_def split: if_splits)

lemma enter_counts:
  assumes "Enter_pause now live token repo commit p = (Inr q, q')"
  shows "counters q = (if commit then sp_commits p + 1 else sp_commits p, if commit then sp_polls p else sp_polls p + 1,
      sp_publishing p \<or> token \<noteq> '''')"
    "token \<noteq> '''' \<Longrightarrow> commit \<and> sp_commits p = 0" "commit \<Longrightarrow> \<not> sp_publishing p"
proof -
  have e: "sp_commits (expire now p) = sp_commits p" "sp_polls (expire now p) = sp_polls p"
    "sp_publishing (expire now p) = sp_publishing p" using counters_expire [of now p] by (simp_all add: counters_def)
  show "counters q = (if commit then sp_commits p + 1 else sp_commits p, if commit then sp_polls p else sp_polls p + 1,
      sp_publishing p \<or> token \<noteq> '''')" "token \<noteq> '''' \<Longrightarrow> commit \<and> sp_commits p = 0" "commit \<Longrightarrow> \<not> sp_publishing p"
    using assms e by (auto simp: Enter_pause_def Let_def counters_def split: if_splits)
qed

lemma tally_Cons: "tally ((c, o') # xs) =
  (case tally xs of (a, b, f) \<Rightarrow> (if c then a + 1 else a, if c then b else b + 1, f \<or> o'))"
  by (auto simp: tally_def)

lemma lone_enter:
  assumes "lone xs" "own \<Longrightarrow> commit \<and> filter fst xs = []" "commit \<Longrightarrow> \<not> list_ex snd xs"
  shows "lone ((commit, own) # xs)"
  using assms by (cases own; cases commit) (auto simp: lone_def list_ex_iff list_all_iff filter_empty_conv)

lemma filter_remove1_in: "x \<in> set xs \<Longrightarrow> length (filter P (remove1 x xs)) + (if P x then 1 else 0) = length (filter P xs)"
  by (induction xs) auto

lemma own_ex: "list_ex snd xs \<longleftrightarrow> (\<exists>c. (c, True) \<in> set xs)"
  by (force simp: list_ex_iff)

lemma lone_leave:
  assumes "lone xs" "(c, own) \<in> set xs"
  shows "list_ex snd (remove1 (c, own) xs) \<longleftrightarrow> list_ex snd xs \<and> \<not> own" "lone (remove1 (c, own) xs)"
proof -
  have f: "filter fst (remove1 (c, own) xs) = remove1 (c, own) (filter fst xs)" by (rule filter_remove1)
  have sub: "set (remove1 (c, own) xs) \<subseteq> set xs" by (rule set_remove1_subset)
  have own: "\<not> list_ex snd (remove1 (c, own) xs)" if own
  proof -
    have ex: "list_ex snd xs" using assms(2) that by (auto simp: own_ex)
    with assms(1) have l: "filter fst xs = [(True, True)]" "list_all (\<lambda>x. snd x \<longrightarrow> fst x) xs" by (simp_all add: lone_def)
    then have "(c, own) = (True, True)" using assms(2) that by (auto simp: list_all_iff)
    then have "filter fst (remove1 (c, own) xs) = []" using f l(1) by simp
    then show ?thesis using l(2) sub by (auto simp: list_ex_iff list_all_iff filter_empty_conv)
  qed
  have keep: "list_ex snd xs" if "\<not> own" "list_ex snd (remove1 (c, own) xs)"
    using that sub by (auto simp: list_ex_iff)
  have stay: "list_ex snd (remove1 (c, own) xs)" if "\<not> own" "list_ex snd xs"
  proof -
    from that(2) obtain x where "x \<in> set xs" "snd x" by (auto simp: list_ex_iff)
    then have "x \<in> set (remove1 (c, own) xs)" using that(1) by (intro in_set_remove1 [THEN iffD2]) auto
    then show ?thesis using \<open>snd x\<close> by (auto simp: list_ex_iff)
  qed
  show "list_ex snd (remove1 (c, own) xs) \<longleftrightarrow> list_ex snd xs \<and> \<not> own" using own keep stay by blast
  then show "lone (remove1 (c, own) xs)"
    using assms(1) f sub by (auto simp: lone_def list_all_iff)
qed

lemma pause_leave:
  assumes "pause_inv r" "(c, own) \<in> set (po_open r)"
  shows "pause_inv (r\<lparr>po_gate := leave_pause c own (po_gate r), po_open := remove1 (c, own) (po_open r)\<rparr>)"
proof -
  let ?xs = "po_open r"
  have inv: "counters (po_gate r) = tally ?xs" "lone ?xs" using assms(1) by (simp_all add: pause_inv_def)
  have len: "int (length (filter fst (remove1 (c, own) ?xs))) = int (length (filter fst ?xs)) - (if c then 1 else 0)"
    "int (length (filter (Not \<circ> fst) (remove1 (c, own) ?xs))) = int (length (filter (Not \<circ> fst) ?xs)) - (if c then 0 else 1)"
    using filter_remove1_in [OF assms(2), of fst] filter_remove1_in [OF assms(2), of "Not \<circ> fst"] by (auto split: if_splits)
  have "counters (leave_pause c own (po_gate r)) = tally (remove1 (c, own) ?xs)"
    using inv(1) lone_leave(1) [OF inv(2) assms(2)] unfolding tally_def len
    by (auto simp: leave_pause_def counters_def Let_def)
  then show ?thesis using lone_leave(2) [OF inv(2) assms(2)] by (simp add: pause_inv_def)
qed

lemma pause_enter:
  assumes "pause_inv r" "Enter_pause now live token repo commit (po_gate r) = (Inr p, p)"
  shows "pause_inv (r\<lparr>po_gate := p, po_open := (commit, token \<noteq> '''') # po_open r\<rparr>)"
proof -
  have inv: "counters (po_gate r) = tally (po_open r)" "lone (po_open r)" using assms(1) by (simp_all add: pause_inv_def)
  note cnt = enter_counts [OF assms(2)]
  have "lone ((commit, token \<noteq> '''') # po_open r)"
    using inv cnt(2,3) by (intro lone_enter) (auto simp: counters_def tally_def)
  moreover have "counters p = tally ((commit, token \<noteq> '''') # po_open r)"
    using cnt(1) inv(1) by (auto simp: tally_Cons counters_def split: prod.splits)
  ultimately show ?thesis by (simp add: pause_inv_def)
qed

interpretation paused: invariant_system pause_init pause_step pause_inv
proof
  show "pause_init r \<Longrightarrow> pause_inv r" for r by (simp add: pause_init_def pause_inv_def counters_def tally_def lone_def)
  show "pause_inv r'" if inv: "pause_inv r" and st: "pause_step r r'" for r r'
    using st
  proof (cases rule: pause_step.cases)
    case (entered now live token repo commit p)
    then show ?thesis using pause_enter [OF inv] by blast
  next
    case (left commit own)
    then show ?thesis using pause_leave [OF inv] by blast
  next
    case (refused now live token repo commit e p)
    then show ?thesis using inv enter_refused by (simp add: pause_inv_def)
  qed (use inv in \<open>simp_all add: pause_inv_def\<close>)
qed

text \<open>
  C29. In every interleaving the counters of running commits and polls are exact; while an
  editor publishes, its commit is the only commit running; and as long as an editor holds an
  unexpired lease, the only commit that can enter is that editor's own, and only when no
  other commit is still running.
\<close>

theorem pause_exclusive:
  assumes "reach pause_init pause_step r"
  shows "sp_commits (po_gate r) = int (length (filter fst (po_open r)))
    \<and> sp_polls (po_gate r) = int (length (filter (Not \<circ> fst) (po_open r)))
    \<and> (sp_publishing (po_gate r) \<longleftrightarrow> (\<exists>commit. (commit, True) \<in> set (po_open r)))
    \<and> (sp_publishing (po_gate r) \<longrightarrow> filter fst (po_open r) = [(True, True)])
    \<and> (sp_token (po_gate r) \<noteq> '''' \<and> now < sp_until (po_gate r) \<and> Enter_pause now live token repo True (po_gate r) = (Inr p, p)
        \<longrightarrow> token = sp_token (po_gate r) \<and> repo = sp_repo (po_gate r) \<and> filter fst (po_open r) = [])"
proof -
  have inv: "counters (po_gate r) = tally (po_open r)" "lone (po_open r)"
    using paused.reach_inv [OF assms] by (simp_all add: pause_inv_def)
  have "token = sp_token (po_gate r) \<and> repo = sp_repo (po_gate r) \<and> sp_commits (po_gate r) = 0"
    if "sp_token (po_gate r) \<noteq> ''''" "now < sp_until (po_gate r)" "Enter_pause now live token repo True (po_gate r) = (Inr p, p)"
    using that by (auto simp: Enter_pause_def expire_def Let_def split: if_splits)
  then show ?thesis using inv by (auto simp: counters_def tally_def lone_def own_ex)
qed

section \<open>Examples\<close>

definition sample_gate :: admission where
  "sample_gate = \<lparr>ad_active = 0, ad_drain = None, ad_next = 0, ad_done = {}, ad_resumed = {}, ad_panic = False\<rparr>"

definition sample_sealed :: adm_run where
  "sample_sealed = \<lparr>am_gate = sample_gate\<lparr>ad_next := 1, ad_drain := Some 0, ad_panic := False, ad_done := {0}\<rparr>,
     am_open = {}, am_waiting = {}, am_holding = {0}\<rparr>"

lemma sample_sealed_reach: "reach adm_init adm_step sample_sealed"
proof -
  define r0 where "r0 = \<lparr>am_gate = sample_gate, am_open = {}, am_waiting = {}, am_holding = {}\<rparr>"
  define r1 where "r1 = r0\<lparr>am_gate := sample_gate\<lparr>ad_active := 1\<rparr>, am_open := {7}\<rparr>"
  define r2 where "r2 = r1\<lparr>am_gate := sample_gate\<lparr>ad_active := 1, ad_next := 1, ad_drain := Some 0\<rparr>, am_waiting := {0}\<rparr>"
  define r3 where "r3 = r2\<lparr>am_gate := sample_gate\<lparr>ad_next := 1, ad_drain := Some 0, ad_panic := False, ad_done := {0}\<rparr>, am_open := {}\<rparr>"
  note defs = r0_def r1_def r2_def r3_def sample_gate_def gate_defs
  have "reach adm_init adm_step r0" by (rule reach_init) (simp add: adm_init_def defs)
  moreover have "adm_step r0 r1" using adm_step.enter [of r0 _ 7] by (simp add: defs)
  moreover have "adm_step r1 r2" using adm_step.quiesce [of r1 0] by (simp add: defs)
  moreover have "adm_step r2 r3" using adm_step.leave [of 7 r2] by (simp add: defs)
  moreover have "adm_step r3 sample_sealed" using adm_step.drained [of 0 r3] by (simp add: sample_sealed_def defs)
  ultimately show ?thesis by (blast intro: reach_step)
qed

theorem admission_sealed_witness:
  "0 \<in> am_holding sample_sealed \<and> am_open sample_sealed = {} \<and> Enter_adm (am_gate sample_sealed) = None"
  using admission_sealed [OF sample_sealed_reach, of 0] by (simp add: sample_sealed_def)

definition sample_pause :: pause where
  "sample_pause = \<lparr>sp_manual = False, sp_token = '''', sp_repo = '''', sp_until = 0, sp_commits = 0, sp_polls = 0, sp_publishing = False\<rparr>"

definition sample_leased :: pause_run where
  "sample_leased = \<lparr>po_gate = sample_pause\<lparr>sp_token := ''t'', sp_repo := ''r'', sp_until := 60000000001\<rparr>, po_open = []\<rparr>"

lemma sample_leased_reach: "reach pause_init pause_step sample_leased"
proof -
  define r0 where "r0 = \<lparr>po_gate = sample_pause, po_open = []\<rparr>"
  have "reach pause_init pause_step r0" by (rule reach_init) (simp add: pause_init_def r0_def sample_pause_def)
  moreover have "pause_step r0 sample_leased"
    using pause_step.draft [of r0 1 1 "''t''" "''r''" "''begin''"]
    by (simp add: r0_def sample_leased_def sample_pause_def Draft_def expire_def)
  ultimately show ?thesis by (blast intro: reach_step)
qed

definition sample_publishing :: pause where
  "sample_publishing = (po_gate sample_leased)\<lparr>sp_commits := 1, sp_publishing := True\<rparr>"

lemma sample_own: "Enter_pause 2 True ''t'' ''r'' True (po_gate sample_leased) = (Inr sample_publishing, sample_publishing)"
  by (simp add: Enter_pause_def expire_def sample_leased_def sample_pause_def sample_publishing_def Let_def)

theorem pause_exclusive_witness:
  "Enter_pause 2 True ''t'' ''r'' True (po_gate sample_leased) = (Inr sample_publishing, sample_publishing)
   \<and> ''r'' = sp_repo (po_gate sample_leased) \<and> filter fst (po_open sample_leased) = []"
proof -
  have "sp_token (po_gate sample_leased) \<noteq> ''''" "2 < sp_until (po_gate sample_leased)" by (simp_all add: sample_leased_def)
  then show ?thesis
    using pause_exclusive [OF sample_leased_reach, of 2 True "''t''" "''r''" sample_publishing] sample_own by blast
qed

end
