(* ===== verification/Path_Ownership.thy ===== *)
theory Path_Ownership
  imports Go_Lib
begin

text \<open>
  The identity of repository objects, reconstructed from the log
  (\<open>pkg/pathownership/history.go\<close>). The hexadecimal SHA-256 digest is the parameter
  \<open>sha\<close>; \<open>cx\<close> says whether the context is found cancelled at a check (by the number of
  the check in the source, the revision and the node). Trees are association lists from paths
  to objects.
\<close>

section \<open>Data\<close>

record svn_change =
  cg_path :: string
  cg_action :: string
  cg_kind :: string
  cg_copy_from :: string
  cg_copy_rev :: int

record svn_revision =
  rv_number :: int
  rv_author :: string
  rv_changes :: "svn_change list"

record svn_object =
  ob_id :: string
  ob_created :: int
  ob_committer :: string
  ob_kind :: string

record own_entry =
  en_path :: string
  en_object :: svn_object

record own_snapshot =
  sh_revision :: int
  sh_entries :: "own_entry list"

type_synonym tree = "(string, svn_object) assoc"

datatype own_err =
    InvalidScope | IncompleteHistory | NonContiguous | InvalidChange | InvalidAncestry | UnknownKind
  | CopyRevisionUnavailable | CopySourceUnavailable | AmbiguousContinuation | NodeBudget | Cancelled

type_synonym cancel = "nat \<Rightarrow> int \<Rightarrow> string \<Rightarrow> bool"

section \<open>Paths and objects\<close>

definition canonical :: "string \<Rightarrow> bool \<Rightarrow> bool" where
  "canonical value allowRoot =
     (has_prefix value ''/'' \<and> go_clean value = value
      \<and> \<not> contains_any value [CHR 0x00, CHR 0x0D, CHR 0x0A, CHR 0x5C] \<and> (allowRoot \<or> value \<noteq> ''/''))"

definition under :: "string \<Rightarrow> string \<Rightarrow> bool" where
  "under value parent = (value = parent \<or> parent = ''/'' \<or> has_prefix value (parent @ ''/''))"

definition newObject :: "(string \<Rightarrow> string) \<Rightarrow> string \<Rightarrow> int \<Rightarrow> string \<Rightarrow> string \<Rightarrow> string \<Rightarrow> svn_object" where
  "newObject sha repo revision author p kind =
     \<lparr>ob_id = sha (repo @ [CHR 0x00] @ format_int revision @ [CHR 0x00] @ p), ob_created = revision,
      ob_committer = author, ob_kind = kind\<rparr>"

section \<open>Checking the log\<close>

definition copy_bad :: "int \<Rightarrow> svn_change \<Rightarrow> bool" where
  "copy_bad number c =
     (cg_copy_from c \<noteq> '''' \<and>
      (\<not> canonical (cg_copy_from c) True \<or> cg_copy_rev c < 0 \<or> cg_copy_rev c \<ge> number
       \<or> (cg_action c \<noteq> ''A'' \<and> cg_action c \<noteq> ''R'')))"

fun check_changes :: "int \<Rightarrow> svn_change list \<Rightarrow> own_err option" where
  "check_changes number [] = None"
| "check_changes number (c # cs) =
     (if \<not> canonical (cg_path c) True
         \<or> (cg_action c \<noteq> ''A'' \<and> cg_action c \<noteq> ''M'' \<and> cg_action c \<noteq> ''D'' \<and> cg_action c \<noteq> ''R'') then Some InvalidChange
      else if copy_bad number c then Some InvalidAncestry
      else check_changes number cs)"

fun check_log :: "cancel \<Rightarrow> int \<Rightarrow> svn_revision list \<Rightarrow> own_err option" where
  "check_log cx i [] = None"
| "check_log cx i (r # revs) =
     (if cx 1 (rv_number r) '''' then Some Cancelled
      else if rv_number r \<noteq> i + 1 then Some NonContiguous
      else (case check_changes (rv_number r) (rv_changes r) of
          Some e \<Rightarrow> Some e
        | None \<Rightarrow> check_log cx (i + 1) revs))"

text \<open>The uses of a revision as the source of copies, in the order of the log.\<close>

definition copy_uses :: "svn_revision list \<Rightarrow> (int \<times> int) list" where
  "copy_uses revs = concat (map (\<lambda>rev. map (\<lambda>c. (cg_copy_rev c, rv_number rev))
     (filter (\<lambda>c. cg_copy_from c \<noteq> '''') (rv_changes rev))) revs)"

definition needed :: "svn_revision list \<Rightarrow> int \<Rightarrow> bool" where
  "needed revs r = (r \<in> fst ` set (copy_uses revs))"

definition lastUse :: "svn_revision list \<Rightarrow> int \<Rightarrow> int" where
  "lastUse revs r = (case map_of (rev (copy_uses revs)) r of None \<Rightarrow> 0 | Some n \<Rightarrow> n)"

section \<open>Applying a revision\<close>

definition removes :: "svn_change \<Rightarrow> bool" where
  "removes c = (cg_action c = ''D'' \<or> cg_action c = ''R'')"

definition delete_under :: "string \<Rightarrow> tree \<Rightarrow> tree" where
  "delete_under path t = filter (\<lambda>(p, _). \<not> under p path) t"

definition deleted :: "svn_change list \<Rightarrow> string \<Rightarrow> bool" where
  "deleted cs p = list_ex (\<lambda>c. removes c \<and> under p (cg_path c)) cs"

definition delete_all :: "svn_change list \<Rightarrow> tree \<Rightarrow> tree" where
  "delete_all cs t = foldl (\<lambda>t c. if removes c then delete_under (cg_path c) t else t) t cs"

text \<open>The identifier under a path; a missing entry reads as the empty one.\<close>

definition id_at :: "tree \<Rightarrow> string \<Rightarrow> string" where
  "id_at t p = (case map_of t p of None \<Rightarrow> '''' | Some o' \<Rightarrow> ob_id o')"

definition history_at :: "(int, tree) assoc \<Rightarrow> int \<Rightarrow> tree" where
  "history_at h r = (case map_of h r of None \<Rightarrow> [] | Some t \<Rightarrow> t)"

definition destination :: "svn_change \<Rightarrow> string \<Rightarrow> string" where
  "destination c p =
     (if cg_copy_from c = ''/'' then go_join [cg_path c, p] else cg_path c @ trim_prefix p (cg_copy_from c))"

definition copies :: "(int, tree) assoc \<Rightarrow> string \<Rightarrow> string \<Rightarrow> svn_change \<Rightarrow> bool" where
  "copies h p ident c =
     (cg_copy_from c \<noteq> '''' \<and> under p (cg_copy_from c) \<and> id_at (history_at h (cg_copy_rev c)) p = ident)"

text \<open>One revision being applied: its number and author, its changes in log order and sorted, the tree before it and the retained trees.\<close>

record rev_ctx =
  rx_rev :: svn_revision
  rx_sorted :: "svn_change list"
  rx_before :: tree
  rx_history :: "(int, tree) assoc"

definition copy_node ::
    "(string \<Rightarrow> string) \<Rightarrow> string \<Rightarrow> rev_ctx \<Rightarrow> svn_change \<Rightarrow> string \<Rightarrow> svn_object \<Rightarrow> tree \<Rightarrow> (own_err, tree) result" where
  "copy_node sha repo x c p old t =
     (if deleted (rv_changes (rx_rev x)) p \<and> id_at (rx_before x) p = ob_id old then
        (if length (filter (copies (rx_history x) p (ob_id old)) (rx_sorted x)) \<noteq> 1 then Inl AmbiguousContinuation
         else Inr (AList.update (destination c p) old t))
      else
        Inr (AList.update (destination c p)
          (newObject sha repo (rv_number (rx_rev x)) (rv_author (rx_rev x)) (destination c p) (ob_kind old)) t))"

fun copy_nodes ::
    "(string \<Rightarrow> string) \<Rightarrow> cancel \<Rightarrow> string \<Rightarrow> rev_ctx \<Rightarrow> svn_change \<Rightarrow> tree \<Rightarrow> tree \<Rightarrow> (own_err, tree) result" where
  "copy_nodes sha cx repo x c [] t = Inr t"
| "copy_nodes sha cx repo x c ((p, old) # source) t =
     (if cx 3 (rv_number (rx_rev x)) p then Inl Cancelled
      else if \<not> under p (cg_copy_from c) then copy_nodes sha cx repo x c source t
      else (case copy_node sha repo x c p old t of
          Inl e \<Rightarrow> Inl e
        | Inr t' \<Rightarrow> copy_nodes sha cx repo x c source t'))"

definition apply_change ::
    "(string \<Rightarrow> string) \<Rightarrow> cancel \<Rightarrow> string \<Rightarrow> rev_ctx \<Rightarrow> svn_change \<Rightarrow> tree \<Rightarrow> (own_err, tree) result" where
  "apply_change sha cx repo x c t0 =
     (let t = (if removes c then delete_under (cg_path c) t0 else t0) in
      if cg_action c \<noteq> ''A'' \<and> cg_action c \<noteq> ''R'' then Inr t
      else if cg_copy_from c = '''' then
        (if cg_kind c \<noteq> ''file'' \<and> cg_kind c \<noteq> ''dir'' then Inl UnknownKind
         else Inr (AList.update (cg_path c)
           (newObject sha repo (rv_number (rx_rev x)) (rv_author (rx_rev x)) (cg_path c) (cg_kind c)) t))
      else (case map_of (rx_history x) (cg_copy_rev c) of
          None \<Rightarrow> Inl CopyRevisionUnavailable
        | Some source \<Rightarrow>
            if map_of source (cg_copy_from c) = None then Inl CopySourceUnavailable
            else copy_nodes sha cx repo x c source t))"

fun apply_changes ::
    "(string \<Rightarrow> string) \<Rightarrow> cancel \<Rightarrow> string \<Rightarrow> rev_ctx \<Rightarrow> svn_change list \<Rightarrow> tree \<Rightarrow> (own_err, tree) result" where
  "apply_changes sha cx repo x [] t = Inr t"
| "apply_changes sha cx repo x (c # cs) t =
     (case apply_change sha cx repo x c t of Inl e \<Rightarrow> Inl e | Inr t' \<Rightarrow> apply_changes sha cx repo x cs t')"

text \<open>The trees kept for later copies, and the number of their nodes.\<close>

record replay_state =
  rp_tree :: tree
  rp_history :: "(int, tree) assoc"
  rp_retained :: int

definition forget_source :: "svn_revision list \<Rightarrow> svn_revision \<Rightarrow> replay_state \<Rightarrow> svn_change \<Rightarrow> replay_state" where
  "forget_source revs r s c =
     (if cg_copy_from c \<noteq> '''' \<and> lastUse revs (cg_copy_rev c) = rv_number r
      then s\<lparr>rp_retained := rp_retained s - int (length (history_at (rp_history s) (cg_copy_rev c))),
             rp_history := AList.delete (cg_copy_rev c) (rp_history s)\<rparr>
      else s)"

definition retain ::
    "svn_revision list \<Rightarrow> svn_revision \<Rightarrow> svn_change list \<Rightarrow> tree \<Rightarrow> replay_state \<Rightarrow> (own_err, replay_state) result" where
  "retain revs r cs t s =
     (let s1 = s\<lparr>rp_tree := t\<rparr> in
      if needed revs (rv_number r) \<and> rp_retained s1 + int (length t) > 500000 then Inl NodeBudget
      else
       (let s2 = (if needed revs (rv_number r)
                  then s1\<lparr>rp_history := AList.update (rv_number r) t (rp_history s1),
                          rp_retained := rp_retained s1 + int (length t)\<rparr> else s1) in
        Inr (foldl (forget_source revs r) s2 cs)))"

definition apply_revision ::
    "(string \<Rightarrow> string) \<Rightarrow> cancel \<Rightarrow> string \<Rightarrow> svn_revision list \<Rightarrow> svn_revision \<Rightarrow> replay_state \<Rightarrow> (own_err, replay_state) result" where
  "apply_revision sha cx repo revs r s =
     (let cs = sort_key cg_path (rv_changes r);
          x = \<lparr>rx_rev = r, rx_sorted = cs, rx_before = rp_tree s, rx_history = rp_history s\<rparr> in
      if cx 2 (rv_number r) '''' then Inl Cancelled
      else (case apply_changes sha cx repo x cs (delete_all (rv_changes r) (rp_tree s)) of
          Inl e \<Rightarrow> Inl e
        | Inr t \<Rightarrow> retain revs r cs t s))"

fun replay_all ::
    "(string \<Rightarrow> string) \<Rightarrow> cancel \<Rightarrow> string \<Rightarrow> svn_revision list \<Rightarrow> svn_revision list \<Rightarrow> replay_state \<Rightarrow> (own_err, replay_state) result" where
  "replay_all sha cx repo revs [] s = Inr s"
| "replay_all sha cx repo revs (r # rs) s =
     (case apply_revision sha cx repo revs r s of Inl e \<Rightarrow> Inl e | Inr s' \<Rightarrow> replay_all sha cx repo revs rs s')"

definition initial_tree :: "(string \<Rightarrow> string) \<Rightarrow> string \<Rightarrow> tree" where
  "initial_tree sha repo = [(''/'', newObject sha repo 0 '''' ''/'' ''dir'')]"

definition entries_of :: "tree \<Rightarrow> own_entry list" where
  "entries_of t = sort_key en_path
     (map (\<lambda>(p, o'). \<lparr>en_path = trim_prefix p ''/'', en_object = o'\<rparr>) (filter (\<lambda>(p, o'). ob_kind o' = ''file'') t))"

definition Replay ::
    "(string \<Rightarrow> string) \<Rightarrow> cancel \<Rightarrow> string \<Rightarrow> int \<Rightarrow> svn_revision list \<Rightarrow> (own_err, own_snapshot) result" where
  "Replay sha cx repo head log =
     (if repo = '''' \<or> head < 0 then Inl InvalidScope
      else
       (let revs = sort_key rv_number log;
            t = initial_tree sha repo in
        if int (length revs) \<noteq> head then Inl IncompleteHistory
        else (case check_log cx 0 revs of
            Some e \<Rightarrow> Inl e
          | None \<Rightarrow>
             (case replay_all sha cx repo revs revs \<lparr>rp_tree = t, rp_history = [(0, t)], rp_retained = 1\<rparr> of
                Inl e \<Rightarrow> Inl e
              | Inr s \<Rightarrow> Inr \<lparr>sh_revision = head, sh_entries = entries_of (rp_tree s)\<rparr>))))"

end
