(* ===== verification/Path_Ownership_Inv.thy ===== *)
theory Path_Ownership_Inv
  imports Path_Ownership "HOL-Library.Multiset"
begin

text \<open>
  Replaying a log never confuses two objects: identifiers stay unique in the tree because an
  identifier names the revision and the path of a birth, and a copied object keeps its
  identifier only when its source disappears in the same revision and nothing else copies it.
\<close>

section \<open>Identifiers\<close>

definition oid :: "(string \<Rightarrow> string) \<Rightarrow> string \<Rightarrow> int \<Rightarrow> string \<Rightarrow> string" where
  "oid sha repo r p = sha (repo @ [CHR 0x00] @ format_int r @ [CHR 0x00] @ p)"

lemma oid_inj:
  assumes "inj sha" "0 \<le> r" "0 \<le> r'" "oid sha repo r p = oid sha repo r' p'"
  shows "r = r' \<and> p = p'"
proof -
  have "repo @ [CHR 0x00] @ format_int r @ [CHR 0x00] @ p = repo @ [CHR 0x00] @ format_int r' @ [CHR 0x00] @ p'"
    using assms(1,4) by (auto simp: oid_def dest: injD)
  then have "format_nat (nat r) @ CHR 0x00 # p = format_nat (nat r') @ CHR 0x00 # p'"
    using assms(2,3) by (simp add: format_int_def)
  then have "format_nat (nat r) = format_nat (nat r') \<and> p = p'"
    by (intro separator_split) (simp_all add: format_nat_no_zero)
  then have "nat r = nat r' \<and> p = p'" by (metis dec_value_format)
  then show ?thesis using assms(2,3) by (simp add: eq_nat_nat_iff)
qed

lemma newObject_sel [simp]:
  "ob_id (newObject sha repo r a p k) = oid sha repo r p" "ob_created (newObject sha repo r a p k) = r"
  "ob_committer (newObject sha repo r a p k) = a" "ob_kind (newObject sha repo r a p k) = k"
  by (simp_all add: newObject_def oid_def)

section \<open>Well-formed trees\<close>

definition obj_ok :: "(string \<Rightarrow> string) \<Rightarrow> string \<Rightarrow> svn_revision list \<Rightarrow> int \<Rightarrow> svn_object \<Rightarrow> bool" where
  "obj_ok sha repo revs n o' \<longleftrightarrow> 0 \<le> ob_created o' \<and> ob_created o' \<le> n
     \<and> (\<exists>q. ob_id o' = oid sha repo (ob_created o') q) \<and> (ob_created o' = 0 \<longrightarrow> ob_kind o' = ''dir'')
     \<and> (0 < ob_created o' \<longrightarrow> (\<exists>r \<in> set revs. rv_number r = ob_created o' \<and> rv_author r = ob_committer o'))"

definition tree_ok :: "(string \<Rightarrow> string) \<Rightarrow> string \<Rightarrow> svn_revision list \<Rightarrow> int \<Rightarrow> tree \<Rightarrow> bool" where
  "tree_ok sha repo revs n t \<longleftrightarrow> wf_assoc t \<and> (\<forall>p o'. (p, o') \<in> set t \<longrightarrow> has_prefix p ''/'' \<and> obj_ok sha repo revs n o')"

definition uniq :: "tree \<Rightarrow> bool" where
  "uniq t \<longleftrightarrow> (\<forall>p o' q o''. (p, o') \<in> set t \<longrightarrow> (q, o'') \<in> set t \<longrightarrow> ob_id o' = ob_id o'' \<longrightarrow> p = q)"

lemma obj_ok_later: "obj_ok sha repo revs n o' \<Longrightarrow> n \<le> m \<Longrightarrow> obj_ok sha repo revs m o'"
  by (auto simp: obj_ok_def)

lemma tree_ok_later: "tree_ok sha repo revs n t \<Longrightarrow> n \<le> m \<Longrightarrow> tree_ok sha repo revs m t"
  unfolding tree_ok_def using obj_ok_later by blast

text \<open>
  Why an entry may stand in the tree while revision \<open>n\<close> is applied: born in it under this
  path; kept from before; or moved here by the only copy of its deleted source.
\<close>

definition kept :: "rev_ctx \<Rightarrow> string \<Rightarrow> svn_object \<Rightarrow> bool" where
  "kept x q o' \<longleftrightarrow> (q, o') \<in> set (rx_before x) \<and> \<not> deleted (rv_changes (rx_rev x)) q"

definition moved :: "rev_ctx \<Rightarrow> string \<Rightarrow> string \<Rightarrow> bool" where
  "moved x q ident \<longleftrightarrow>
     (\<exists>c p. c \<in> set (rx_sorted x) \<and> copies (rx_history x) p ident c \<and> id_at (rx_before x) p = ident
        \<and> deleted (rv_changes (rx_rev x)) p
        \<and> length (filter (copies (rx_history x) p ident) (rx_sorted x)) = 1 \<and> q = destination c p)"

definition justified :: "(string \<Rightarrow> string) \<Rightarrow> string \<Rightarrow> rev_ctx \<Rightarrow> string \<Rightarrow> svn_object \<Rightarrow> bool" where
  "justified sha repo x q o' \<longleftrightarrow>
     ob_created o' = rv_number (rx_rev x) \<and> ob_id o' = oid sha repo (rv_number (rx_rev x)) q
   \<or> kept x q o' \<or> ob_created o' < rv_number (rx_rev x) \<and> moved x q (ob_id o')"

lemma length_filter_one:
  assumes "length (filter P xs) = 1" "a \<in> set xs" "P a" "b \<in> set xs" "P b"
  shows "a = b"
proof -
  obtain y where "filter P xs = [y]" using assms(1) by (auto simp: length_Suc_conv)
  moreover have "a \<in> set (filter P xs)" "b \<in> set (filter P xs)" using assms by auto
  ultimately show ?thesis by simp
qed

lemma id_at_entry: "wf_assoc t \<Longrightarrow> id_at t p = i \<Longrightarrow> i \<noteq> '''' \<Longrightarrow> \<exists>o'. (p, o') \<in> set t \<and> ob_id o' = i"
  by (auto simp: id_at_def wf_assoc_in_map_of split: option.splits)

lemma id_at_unique:
  assumes "uniq t" "wf_assoc t" "id_at t p = i" "id_at t q = i" "i \<noteq> ''''"
  shows "p = q"
  using id_at_entry [OF assms(2,3,5)] id_at_entry [OF assms(2,4,5)] assms(1) unfolding uniq_def by blast

lemma id_at_in: "wf_assoc t \<Longrightarrow> (p, o') \<in> set t \<Longrightarrow> id_at t p = ob_id o'"
  by (simp add: id_at_def wf_assoc_in_map_of)

lemma moved_once:
  assumes "uniq (rx_before x)" "wf_assoc (rx_before x)" "i \<noteq> ''''" "moved x q i" "moved x q' i"
  shows "q = q'"
proof -
  from assms(4) obtain c p where c: "c \<in> set (rx_sorted x)" "copies (rx_history x) p i c" "id_at (rx_before x) p = i"
      "length (filter (copies (rx_history x) p i) (rx_sorted x)) = 1" "q = destination c p"
    unfolding moved_def by blast
  from assms(5) obtain d p' where d: "d \<in> set (rx_sorted x)" "copies (rx_history x) p' i d" "id_at (rx_before x) p' = i"
      "q' = destination d p'" unfolding moved_def by blast
  have "p = p'" using id_at_unique [OF assms(1,2) c(3) d(3) assms(3)] .
  then have "c = d" using length_filter_one [OF c(4,1,2) d(1)] d(2) by simp
  then show ?thesis using c(5) d(4) \<open>p = p'\<close> by simp
qed

lemma kept_not_moved:
  assumes "uniq (rx_before x)" "wf_assoc (rx_before x)" "ob_id o' \<noteq> ''''" "kept x q o'" "moved x q' (ob_id o')"
  shows False
proof -
  from assms(5) obtain p where p: "id_at (rx_before x) p = ob_id o'" "deleted (rv_changes (rx_rev x)) p"
    unfolding moved_def by blast
  have "id_at (rx_before x) q = ob_id o'" using assms(2,4) by (simp add: kept_def id_at_in)
  then have "p = q" using id_at_unique [OF assms(1,2) p(1) _ assms(3)] by blast
  then show False using p(2) assms(4) by (simp add: kept_def)
qed

lemma justified_unique:
  assumes inj: "inj sha" and ne: "\<And>s. sha s \<noteq> ''''" and n: "rv_number (rx_rev x) = n + 1" "0 \<le> n"
    and before: "tree_ok sha repo revs n (rx_before x)" "uniq (rx_before x)"
    and ok: "obj_ok sha repo revs (n + 1) o1" "obj_ok sha repo revs (n + 1) o2"
    and just: "justified sha repo x q1 o1" "justified sha repo x q2 o2" and same: "ob_id o1 = ob_id o2"
  shows "q1 = q2"
proof -
  have wf: "wf_assoc (rx_before x)" using before(1) by (simp add: tree_ok_def)
  have created: "ob_created o1 = ob_created o2"
    using ok same oid_inj [OF inj] unfolding obj_ok_def by metis
  obtain s where "ob_id o1 = sha s" using ok(1) by (auto simp: obj_ok_def oid_def)
  then have nonempty: "ob_id o1 \<noteq> ''''" using ne by simp
  have old: "ob_created o' \<le> n" if "kept x q o'" for q o'
    using before(1) that by (auto simp: kept_def tree_ok_def obj_ok_def)
  show ?thesis
  proof (cases "ob_created o1 = n + 1")
    case True
    then have "\<not> kept x q1 o1" "\<not> kept x q2 o2" using old created by fastforce+
    then have "ob_id o1 = oid sha repo (n + 1) q1" "ob_id o2 = oid sha repo (n + 1) q2"
      using just True created n by (auto simp: justified_def)
    then show ?thesis using same oid_inj [OF inj, of "n + 1" "n + 1" repo q1 q2] n(2) by simp
  next
    case False
    then have j: "kept x q1 o1 \<or> moved x q1 (ob_id o1)" "kept x q2 o2 \<or> moved x q2 (ob_id o1)"
      using just created same n unfolding justified_def by auto
    have "q1 = q2" if "kept x q1 o1" "kept x q2 o2"
      using that before(2) same unfolding kept_def uniq_def by blast
    then show ?thesis
      using j moved_once [OF before(2) wf nonempty] kept_not_moved [OF before(2) wf] nonempty same by metis
  qed
qed

section \<open>Applying a revision\<close>

definition sound_tree :: "(string \<Rightarrow> string) \<Rightarrow> string \<Rightarrow> svn_revision list \<Rightarrow> rev_ctx \<Rightarrow> tree \<Rightarrow> bool" where
  "sound_tree sha repo revs x t \<longleftrightarrow> tree_ok sha repo revs (rv_number (rx_rev x)) t
     \<and> (\<forall>q o'. (q, o') \<in> set t \<longrightarrow> justified sha repo x q o')"

lemma sound_update:
  assumes "sound_tree sha repo revs x t" "has_prefix q ''/''" "obj_ok sha repo revs (rv_number (rx_rev x)) o'" "justified sha repo x q o'"
  shows "sound_tree sha repo revs x (AList.update q o' t)"
  using assms unfolding sound_tree_def tree_ok_def by (auto dest!: set_update_cases)

lemma sound_delete: "sound_tree sha repo revs x t \<Longrightarrow> sound_tree sha repo revs x (delete_under p t)"
  unfolding sound_tree_def tree_ok_def delete_under_def by auto

lemma destination_abs: "has_prefix (cg_path c) ''/'' \<Longrightarrow> has_prefix (destination c p) ''/''"
proof (cases "cg_copy_from c = ''/''")
  case True
  assume h: "has_prefix (cg_path c) ''/''"
  then have "cg_path c \<noteq> []" "is_abs (join ''/'' [cg_path c, p])" by (auto simp: is_abs_def has_prefix_iff)
  then show ?thesis using True go_clean_abs [of "join ''/'' [cg_path c, p]"]
    by (simp add: destination_def go_join_def has_prefix_def)
next
  case False
  assume "has_prefix (cg_path c) ''/''"
  then show ?thesis using False by (auto simp: destination_def has_prefix_iff)
qed

lemma born:
  assumes "rx_rev x \<in> set revs" "0 < rv_number (rx_rev x)" "has_prefix q ''/''" "sound_tree sha repo revs x t"
  shows "sound_tree sha repo revs x
    (AList.update q (newObject sha repo (rv_number (rx_rev x)) (rv_author (rx_rev x)) q k) t)"
  using assms by (intro sound_update) (auto simp: obj_ok_def justified_def)

definition history_ok :: "(string \<Rightarrow> string) \<Rightarrow> string \<Rightarrow> svn_revision list \<Rightarrow> int \<Rightarrow> (int, tree) assoc \<Rightarrow> bool" where
  "history_ok sha repo revs n h \<longleftrightarrow> (\<forall>r t. map_of h r = Some t \<longrightarrow> tree_ok sha repo revs n t)"

text \<open>What the context of revision \<open>n + 1\<close> provides.\<close>

definition ctx_ok :: "(string \<Rightarrow> string) \<Rightarrow> string \<Rightarrow> svn_revision list \<Rightarrow> int \<Rightarrow> rev_ctx \<Rightarrow> bool" where
  "ctx_ok sha repo revs n x \<longleftrightarrow> 0 \<le> n \<and> rv_number (rx_rev x) = n + 1 \<and> rx_rev x \<in> set revs
     \<and> history_ok sha repo revs n (rx_history x)
     \<and> (\<forall>c \<in> set (rx_sorted x). has_prefix (cg_path c) ''/'')"

lemma copy_node_sound:
  assumes x: "ctx_ok sha repo revs n x" and c: "c \<in> set (rx_sorted x)" "cg_copy_from c \<noteq> ''''" "under p (cg_copy_from c)"
    and src: "map_of (rx_history x) (cg_copy_rev c) = Some source" "(p, old) \<in> set source"
    and t: "sound_tree sha repo revs x t" and r: "copy_node sha repo x c p old t = Inr t'"
  shows "sound_tree sha repo revs x t'"
proof -
  have ok: "tree_ok sha repo revs n source" using x src(1) by (auto simp: ctx_ok_def history_ok_def)
  then have old: "obj_ok sha repo revs n old" and wf: "wf_assoc source" using src(2) by (auto simp: tree_ok_def)
  have n: "rv_number (rx_rev x) = n + 1" "0 \<le> n" "rx_rev x \<in> set revs" using x by (auto simp: ctx_ok_def)
  have abs: "has_prefix (destination c p) ''/''" using x c(1) by (intro destination_abs) (simp add: ctx_ok_def)
  show ?thesis
  proof (cases "deleted (rv_changes (rx_rev x)) p \<and> id_at (rx_before x) p = ob_id old")
    case True
    then have one: "length (filter (copies (rx_history x) p (ob_id old)) (rx_sorted x)) = 1" "t' = AList.update (destination c p) old t"
      using r by (simp_all add: copy_node_def split: if_splits)
    have "copies (rx_history x) p (ob_id old) c"
      using c src wf by (simp add: copies_def history_at_def id_at_in)
    then have "moved x (destination c p) (ob_id old)" unfolding moved_def using c(1) True one(1) by blast
    moreover have "ob_created old < rv_number (rx_rev x)" using old n by (simp add: obj_ok_def)
    ultimately have "justified sha repo x (destination c p) old" by (simp add: justified_def)
    moreover have "obj_ok sha repo revs (rv_number (rx_rev x)) old" using obj_ok_later [OF old] n by simp
    ultimately show ?thesis using one(2) sound_update [OF t abs] by simp
  next
    case False
    then have "t' = AList.update (destination c p)
        (newObject sha repo (rv_number (rx_rev x)) (rv_author (rx_rev x)) (destination c p) (ob_kind old)) t"
      using r by (auto simp: copy_node_def)
    then show ?thesis using born [OF n(3) _ abs t] n by simp
  qed
qed

lemma copy_nodes_sound:
  assumes x: "ctx_ok sha repo revs n x" and c: "c \<in> set (rx_sorted x)" "cg_copy_from c \<noteq> ''''"
    and src: "map_of (rx_history x) (cg_copy_rev c) = Some source" and sub: "set part \<subseteq> set source"
    and t: "sound_tree sha repo revs x t" and r: "copy_nodes sha cx repo x c part t = Inr t'"
  shows "sound_tree sha repo revs x t'"
  using sub t r
proof (induction part arbitrary: t)
  case (Cons a part)
  obtain p old where a: "a = (p, old)" by (cases a)
  show ?case
  proof (cases "under p (cg_copy_from c)")
    case True
    obtain u where u: "copy_node sha repo x c p old t = Inr u" "copy_nodes sha cx repo x c part u = Inr t'"
      using Cons.prems(3) a True by (auto split: if_splits sum.splits)
    have "sound_tree sha repo revs x u"
      using copy_node_sound [OF x c True src _ Cons.prems(2) u(1)] Cons.prems(1) a by simp
    then show ?thesis using Cons.IH u(2) Cons.prems(1) by simp
  next
    case False
    then show ?thesis using Cons.IH [of t] Cons.prems a by (auto split: if_splits)
  qed
qed simp

lemma apply_change_sound:
  assumes x: "ctx_ok sha repo revs n x" and c: "c \<in> set (rx_sorted x)"
    and t: "sound_tree sha repo revs x t" and r: "apply_change sha cx repo x c t = Inr t'"
  shows "sound_tree sha repo revs x t'"
proof -
  define u where "u = (if removes c then delete_under (cg_path c) t else t)"
  have u: "sound_tree sha repo revs x u" using t sound_delete by (simp add: u_def)
  have n: "rv_number (rx_rev x) = n + 1" "0 \<le> n" "rx_rev x \<in> set revs" "has_prefix (cg_path c) ''/''"
    using x c by (auto simp: ctx_ok_def)
  show ?thesis
  proof (cases "cg_action c \<noteq> ''A'' \<and> cg_action c \<noteq> ''R''")
    case True
    then show ?thesis using r u by (simp add: apply_change_def flip: u_def)
  next
    case A: False
    show ?thesis
    proof (cases "cg_copy_from c = ''''")
      case True
      then have "t' = AList.update (cg_path c)
          (newObject sha repo (rv_number (rx_rev x)) (rv_author (rx_rev x)) (cg_path c) (cg_kind c)) u"
        using r A by (auto simp: apply_change_def simp flip: u_def split: if_splits)
      then show ?thesis using born [OF n(3) _ n(4) u] n by simp
    next
      case False
      then obtain source where s: "map_of (rx_history x) (cg_copy_rev c) = Some source" "copy_nodes sha cx repo x c source u = Inr t'"
        using r A by (auto simp: apply_change_def simp flip: u_def split: option.splits if_splits)
      show ?thesis by (rule copy_nodes_sound [OF x c False s(1) subset_refl u s(2)])
    qed
  qed
qed

lemma apply_changes_sound:
  assumes "ctx_ok sha repo revs n x" "set cs \<subseteq> set (rx_sorted x)" "sound_tree sha repo revs x t"
    "apply_changes sha cx repo x cs t = Inr t'"
  shows "sound_tree sha repo revs x t'"
  using assms(2-4)
proof (induction cs arbitrary: t)
  case (Cons c cs)
  obtain u where u: "apply_change sha cx repo x c t = Inr u" "apply_changes sha cx repo x cs u = Inr t'"
    using Cons.prems(3) by (auto split: sum.splits)
  have "sound_tree sha repo revs x u" using apply_change_sound [OF assms(1) _ Cons.prems(2) u(1)] Cons.prems(1) by simp
  then show ?case using Cons.IH u(2) Cons.prems(1) by simp
qed simp

lemma set_delete_all: "set (delete_all cs t) = {(p, o') \<in> set t. \<not> deleted cs p}"
proof (induction cs arbitrary: t)
  case Nil
  then show ?case by (simp add: delete_all_def deleted_def)
next
  case (Cons c cs)
  have "delete_all (c # cs) t = delete_all cs (if removes c then delete_under (cg_path c) t else t)"
    by (simp add: delete_all_def)
  then show ?case using Cons.IH by (auto simp: deleted_def delete_under_def)
qed

lemma wf_delete_all: "wf_assoc t \<Longrightarrow> wf_assoc (delete_all cs t)"
proof (induction cs arbitrary: t)
  case (Cons c cs)
  have "delete_all (c # cs) t = delete_all cs (if removes c then delete_under (cg_path c) t else t)"
    by (simp add: delete_all_def)
  then show ?case using Cons by (simp add: delete_under_def)
qed (simp add: delete_all_def)

section \<open>Replaying the log\<close>

definition replay_ok :: "(string \<Rightarrow> string) \<Rightarrow> string \<Rightarrow> svn_revision list \<Rightarrow> int \<Rightarrow> replay_state \<Rightarrow> bool" where
  "replay_ok sha repo revs n s \<longleftrightarrow> tree_ok sha repo revs n (rp_tree s) \<and> uniq (rp_tree s)
     \<and> history_ok sha repo revs n (rp_history s)"

lemma forget_ok:
  "history_ok sha repo revs n (rp_history s) \<Longrightarrow>
   rp_tree (foldl (forget_source rs r) s cs) = rp_tree s \<and> history_ok sha repo revs n (rp_history (foldl (forget_source rs r) s cs))"
proof (induction cs arbitrary: s)
  case (Cons c cs)
  have "rp_tree (forget_source rs r s c) = rp_tree s" "history_ok sha repo revs n (rp_history (forget_source rs r s c))"
    using Cons.prems by (auto simp: forget_source_def history_ok_def)
  then show ?case using Cons.IH [of "forget_source rs r s c"] by simp
qed simp

lemma retain_ok:
  assumes "retain rs r cs t s = Inr s'" "tree_ok sha repo revs n t" "history_ok sha repo revs n (rp_history s)"
  shows "rp_tree s' = t" "history_ok sha repo revs n (rp_history s')"
proof -
  obtain u where u: "s' = foldl (forget_source rs r) u cs" "rp_tree u = t" "history_ok sha repo revs n (rp_history u)"
    using assms by (auto simp: retain_def Let_def history_ok_def split: if_splits)
  then show "rp_tree s' = t" "history_ok sha repo revs n (rp_history s')"
    using forget_ok [OF u(3), of rs r cs] by simp_all
qed

lemma apply_revision_ok:
  assumes inj: "inj sha" and ne: "\<And>s. sha s \<noteq> ''''" and n: "0 \<le> n" "rv_number r = n + 1" "r \<in> set revs"
    and abs: "\<forall>c \<in> set (rv_changes r). has_prefix (cg_path c) ''/''"
    and s: "replay_ok sha repo revs n s" and step: "apply_revision sha cx repo rs r s = Inr s'"
  shows "replay_ok sha repo revs (n + 1) s'"
proof -
  define cs where "cs = sort_key cg_path (rv_changes r)"
  define x where "x = \<lparr>rx_rev = r, rx_sorted = cs, rx_before = rp_tree s, rx_history = rp_history s\<rparr>"
  obtain t where t: "apply_changes sha cx repo x cs (delete_all (rv_changes r) (rp_tree s)) = Inr t" "retain rs r cs t s = Inr s'"
    using step by (auto simp: apply_revision_def Let_def x_def cs_def split: if_splits sum.splits)
  have tr: "tree_ok sha repo revs n (rp_tree s)" "uniq (rp_tree s)" "history_ok sha repo revs n (rp_history s)"
    using s by (simp_all add: replay_ok_def)
  have x: "ctx_ok sha repo revs n x" using n abs tr(3) by (simp add: ctx_ok_def x_def cs_def)
  have "sound_tree sha repo revs x (delete_all (rv_changes r) (rp_tree s))"
    using tree_ok_later [OF tr(1), of "n + 1"] wf_delete_all n(2)
    by (auto simp: sound_tree_def tree_ok_def set_delete_all justified_def kept_def x_def)
  then have sound: "sound_tree sha repo revs x t" using apply_changes_sound [OF x _ _ t(1)] by (simp add: x_def)
  have ok: "tree_ok sha repo revs (n + 1) t" using sound n(2) by (simp add: sound_tree_def x_def)
  have "uniq t"
    unfolding uniq_def
  proof (intro allI impI)
    fix p o' q o''
    assume e: "(p, o') \<in> set t" "(q, o'') \<in> set t" "ob_id o' = ob_id o''"
    show "p = q"
      by (rule justified_unique [OF inj ne, of x n repo revs o' o''])
        (use e ok sound tr n in \<open>auto simp: tree_ok_def sound_tree_def x_def\<close>)
  qed
  moreover have "history_ok sha repo revs (n + 1) (rp_history s)"
    using tr(3) tree_ok_later unfolding history_ok_def by (metis add_increasing2 order_refl zero_le_one)
  ultimately show ?thesis using ok retain_ok [OF t(2) ok] by (simp add: replay_ok_def)
qed

lemma check_changes_abs: "check_changes m cs = None \<Longrightarrow> \<forall>c \<in> set cs. has_prefix (cg_path c) ''/''"
  by (induction cs) (auto simp: canonical_def split: if_splits)

lemma check_log_Cons:
  assumes "check_log cx i (r # rs) = None"
  shows "rv_number r = i + 1" "\<forall>c \<in> set (rv_changes r). has_prefix (cg_path c) ''/''" "check_log cx (i + 1) rs = None"
  using assms check_changes_abs [of "rv_number r" "rv_changes r"] by (auto split: if_splits option.splits)

lemma replay_all_ok:
  assumes inj: "inj sha" and ne: "\<And>s. sha s \<noteq> ''''"
  shows "0 \<le> n \<Longrightarrow> set rs \<subseteq> set revs \<Longrightarrow> check_log cx n rs = None \<Longrightarrow> replay_ok sha repo revs n s
    \<Longrightarrow> replay_all sha cx repo all rs s = Inr s' \<Longrightarrow> replay_ok sha repo revs (n + int (length rs)) s'"
proof (induction rs arbitrary: n s)
  case (Cons r rs)
  obtain u where u: "apply_revision sha cx repo all r s = Inr u" "replay_all sha cx repo all rs u = Inr s'"
    using Cons.prems(5) by (auto split: sum.splits)
  note ch = check_log_Cons [OF Cons.prems(3)]
  have "replay_ok sha repo revs (n + 1) u"
    using apply_revision_ok [OF inj ne Cons.prems(1) ch(1) _ ch(2) Cons.prems(4) u(1)] Cons.prems(2) by simp
  then show ?case using Cons.IH [of "n + 1" u] Cons.prems(1,2) ch(3) u(2) by (simp add: add.assoc)
qed simp

lemma initial_ok:
  "replay_ok sha repo revs 0 \<lparr>rp_tree = initial_tree sha repo, rp_history = [(0, initial_tree sha repo)], rp_retained = 1\<rparr>"
proof -
  have "tree_ok sha repo revs 0 (initial_tree sha repo)"
    by (auto simp: tree_ok_def initial_tree_def obj_ok_def has_prefix_def wf_assoc_def)
  moreover have "uniq (initial_tree sha repo)" by (simp add: uniq_def initial_tree_def)
  ultimately show ?thesis by (simp add: replay_ok_def history_ok_def)
qed

section \<open>The reported entries\<close>

lemma distinct_map_sort: "distinct (map f (sort_key k xs)) = distinct (map f xs)"
proof -
  have "mset (map f (sort_key k xs)) = mset (map f xs)" by simp
  then show ?thesis by (rule mset_eq_imp_distinct_iff)
qed

lemma set_entries:
  "e \<in> set (entries_of t) \<longleftrightarrow> (\<exists>p. (p, en_object e) \<in> set t \<and> ob_kind (en_object e) = ''file'' \<and> en_path e = trim_prefix p ''/'')"
  by (cases e) (auto simp: entries_of_def image_iff)

lemma trim_root_inj: "has_prefix p ''/'' \<Longrightarrow> has_prefix q ''/'' \<Longrightarrow> trim_prefix p ''/'' = trim_prefix q ''/'' \<Longrightarrow> p = q"
  by (auto simp: trim_prefix_def has_prefix_iff)

lemma entries_distinct:
  assumes "tree_ok sha repo revs n t" "uniq t"
  shows "distinct (map en_path (entries_of t))" "distinct (map (\<lambda>e. ob_id (en_object e)) (entries_of t))"
proof -
  let ?xs = "filter (\<lambda>(p, o'). ob_kind o' = ''file'') t"
  have wf: "distinct (map fst ?xs)" using assms(1) wf_assoc_filter unfolding tree_ok_def wf_assoc_def by blast
  then have d: "distinct ?xs" by (simp add: distinct_map)
  have pre: "has_prefix (fst a) ''/''" if "a \<in> set ?xs" for a
    using assms(1) that unfolding tree_ok_def by (cases a) auto
  have "inj_on (\<lambda>x. trim_prefix (fst x) ''/'') (set ?xs)"
  proof (rule inj_onI)
    fix a b
    assume a: "a \<in> set ?xs" and b: "b \<in> set ?xs" and eq: "trim_prefix (fst a) ''/'' = trim_prefix (fst b) ''/''"
    have "fst a = fst b" using trim_root_inj [OF pre pre eq] a b by simp
    then show "a = b" using wf a b by (meson distinct_map inj_onD)
  qed
  then have "distinct (map (\<lambda>x. trim_prefix (fst x) ''/'') ?xs)" using d by (simp only: distinct_map simp_thms)
  then show "distinct (map en_path (entries_of t))"
    by (simp add: entries_of_def distinct_map_sort o_def case_prod_unfold)
  have "inj_on (\<lambda>x. ob_id (snd x)) (set ?xs)"
  proof (rule inj_onI)
    fix a b
    assume a: "a \<in> set ?xs" and b: "b \<in> set ?xs" and eq: "ob_id (snd a) = ob_id (snd b)"
    have "(fst a, snd a) \<in> set t" "(fst b, snd b) \<in> set t" using a b by simp_all
    then have "fst a = fst b" using assms(2) eq unfolding uniq_def by blast
    then show "a = b" using wf a b by (meson distinct_map inj_onD)
  qed
  then have "distinct (map (\<lambda>x. ob_id (snd x)) ?xs)" using d by (simp only: distinct_map simp_thms)
  then show "distinct (map (\<lambda>e. ob_id (en_object e)) (entries_of t))"
    by (simp add: entries_of_def distinct_map_sort o_def case_prod_unfold)
qed

text \<open>
  C3. With a digest free of collisions, a log that is accepted gives every file of the head
  revision one identity: paths and object identifiers are distinct, an identifier is the digest
  of the birth of the object, and the first committer reported is the author of the revision
  in which it was born.
\<close>

theorem ownership_unambiguous:
  assumes inj: "inj sha" and ne: "\<And>s. sha s \<noteq> ''''" and ok: "Replay sha cx repo head log = Inr snap"
  shows "distinct (map en_path (sh_entries snap)) \<and> distinct (map (\<lambda>e. ob_id (en_object e)) (sh_entries snap))
    \<and> (\<forall>e \<in> set (sh_entries snap). 1 \<le> ob_created (en_object e) \<and> ob_created (en_object e) \<le> head
        \<and> (\<exists>birth. en_object e = newObject sha repo (ob_created (en_object e)) (ob_committer (en_object e)) birth ''file'')
        \<and> (\<exists>r \<in> set log. rv_number r = ob_created (en_object e) \<and> rv_author r = ob_committer (en_object e)))"
proof -
  let ?revs = "sort_key rv_number log"
  obtain s where s: "check_log cx 0 ?revs = None" "int (length ?revs) = head"
      "replay_all sha cx repo ?revs ?revs \<lparr>rp_tree = initial_tree sha repo, rp_history = [(0, initial_tree sha repo)], rp_retained = 1\<rparr> = Inr s"
      "sh_entries snap = entries_of (rp_tree s)"
    using ok by (auto simp: Replay_def Let_def split: if_splits option.splits sum.splits)
  have "replay_ok sha repo ?revs head s"
    using replay_all_ok [OF inj ne _ _ s(1) initial_ok s(3)] s(2) by simp
  then have t: "tree_ok sha repo ?revs head (rp_tree s)" "uniq (rp_tree s)" by (simp_all add: replay_ok_def)
  have "1 \<le> ob_created (en_object e) \<and> ob_created (en_object e) \<le> head
      \<and> (\<exists>birth. en_object e = newObject sha repo (ob_created (en_object e)) (ob_committer (en_object e)) birth ''file'')
      \<and> (\<exists>r \<in> set log. rv_number r = ob_created (en_object e) \<and> rv_author r = ob_committer (en_object e))"
    if e: "e \<in> set (sh_entries snap)" for e
  proof -
    obtain p where p: "(p, en_object e) \<in> set (rp_tree s)" "ob_kind (en_object e) = ''file''"
      using e s(4) by (auto simp: set_entries)
    then have o: "obj_ok sha repo ?revs head (en_object e)" using t(1) by (auto simp: tree_ok_def)
    then have "ob_created (en_object e) \<noteq> 0" using p(2) by (auto simp: obj_ok_def)
    moreover from o obtain q where "ob_id (en_object e) = oid sha repo (ob_created (en_object e)) q" by (auto simp: obj_ok_def)
    then have "en_object e = newObject sha repo (ob_created (en_object e)) (ob_committer (en_object e)) q ''file''"
      using p(2) by (simp add: svn_object.equality)
    ultimately show ?thesis using o by (auto simp: obj_ok_def)
  qed
  then show ?thesis using entries_distinct [OF t] s(4) by simp
qed

section \<open>Examples\<close>

text \<open>A file is added, then renamed in the next revision: the object keeps its identity.\<close>

definition sample_log :: "svn_revision list" where
  "sample_log =
     [\<lparr>rv_number = 2, rv_author = ''y'', rv_changes =
        [\<lparr>cg_path = ''/a'', cg_action = ''D'', cg_kind = ''file'', cg_copy_from = '''', cg_copy_rev = 0\<rparr>,
         \<lparr>cg_path = ''/b'', cg_action = ''A'', cg_kind = ''file'', cg_copy_from = ''/a'', cg_copy_rev = 1\<rparr>]\<rparr>,
      \<lparr>rv_number = 1, rv_author = ''x'', rv_changes =
        [\<lparr>cg_path = ''/a'', cg_action = ''A'', cg_kind = ''file'', cg_copy_from = '''', cg_copy_rev = 0\<rparr>]\<rparr>]"

definition sample_sha :: "string \<Rightarrow> string" where
  "sample_sha s = CHR ''h'' # s"

definition sample_ownership :: own_snapshot where
  "sample_ownership = \<lparr>sh_revision = 2, sh_entries =
     [\<lparr>en_path = ''b'', en_object = newObject sample_sha ''u'' 1 ''x'' ''/a'' ''file''\<rparr>]\<rparr>"

lemma sample_replay: "Replay sample_sha (\<lambda>k r p. False) ''u'' 2 sample_log = Inr sample_ownership"
  by code_simp

theorem ownership_unambiguous_witness:
  "Replay sample_sha (\<lambda>k r p. False) ''u'' 2 sample_log = Inr sample_ownership
   \<and> distinct (map (\<lambda>e. ob_id (en_object e)) (sh_entries sample_ownership))
   \<and> (\<exists>r \<in> set sample_log. rv_number r = 1 \<and> rv_author r = ''x'')"
proof -
  have "inj sample_sha" "\<And>s. sample_sha s \<noteq> ''''" by (simp_all add: inj_def sample_sha_def)
  from ownership_unambiguous [OF this sample_replay]
  have "distinct (map (\<lambda>e. ob_id (en_object e)) (sh_entries sample_ownership))"
    "\<exists>r \<in> set sample_log. rv_number r = 1 \<and> rv_author r = ''x''"
    by (simp_all add: sample_ownership_def)
  then show ?thesis using sample_replay by blast
qed

end
