(* ===== verification/Whale_Contract.thy ===== *)
theory Whale_Contract
  imports Go_Lib
begin

text \<open>
  The contract of Whale transfers of large files (\<open>pkg/whale/v1\<close>): the immutable identity of
  a generation, the states of a transfer, requests with their validation, and the framing of
  headers on the wire. The canonical form of a UUID is the parameter \<open>uuid\<close>; JSON is not
  modelled, a header is its bytes.
\<close>

section \<open>Identity\<close>

datatype whale_err =
    WInvalid | WAccessDenied | WOffsetConflict | WDigestMismatch | WGenerationConflict
  | WBusy nat | WInsufficientSpace int int | WMissing | WTerminal | WIncomplete | WIo

record identity =
  wi_repo :: string
  wi_path :: string
  wi_generation :: string
  wi_size :: int
  wi_sha256 :: string

definition ReservedNamespace :: string where "ReservedNamespace = ''.filees-whales''"
definition MaxLogicalPathBytes :: nat where "MaxLogicalPathBytes = 4096"
definition MaxObjectBytes :: int where "MaxObjectBytes = 100 * 1024 * 1024 * 1024"

definition control_byte :: "char \<Rightarrow> bool" where
  "control_byte c = ((of_char c :: nat) < 32 \<or> (of_char c :: nat) = 127)"

definition ValidateLogicalPath :: "string \<Rightarrow> bool" where
  "ValidateLogicalPath value =
     (value \<noteq> [] \<and> length value \<le> MaxLogicalPathBytes \<and> utf8_valid value
      \<and> \<not> has_prefix value ''/'' \<and> \<not> has_suffix value ''/'' \<and> CHR 0x5C \<notin> set value \<and> go_clean value = value
      \<and> \<not> list_ex control_byte value
      \<and> hd (split_on CHR 0x2F value) \<noteq> ReservedNamespace
      \<and> list_all (\<lambda>s. s \<noteq> [] \<and> s \<noteq> ''.'' \<and> s \<noteq> ''..'') (split_on CHR 0x2F value))"

definition hex_digit :: "char \<Rightarrow> bool" where
  "hex_digit c = (c \<in> set ''0123456789abcdef'')"

definition Validate_identity :: "(string \<Rightarrow> bool) \<Rightarrow> identity \<Rightarrow> bool" where
  "Validate_identity uuid i =
     (uuid (wi_repo i) \<and> ValidateLogicalPath (wi_path i) \<and> uuid (wi_generation i)
      \<and> 1 \<le> wi_size i \<and> wi_size i \<le> MaxObjectBytes
      \<and> length (wi_sha256 i) = 64 \<and> list_all hex_digit (wi_sha256 i))"

definition StoragePath :: "(string \<Rightarrow> bool) \<Rightarrow> identity \<Rightarrow> (whale_err, string) result" where
  "StoragePath uuid i =
     (if \<not> Validate_identity uuid i then Inl WInvalid else Inr (ReservedNamespace @ ''/'' @ wi_path i))"

definition ValidateOffset :: "int \<Rightarrow> int \<Rightarrow> bool" where
  "ValidateOffset offset expectedSize =
     (1 \<le> expectedSize \<and> expectedSize \<le> MaxObjectBytes \<and> 0 \<le> offset \<and> offset \<le> expectedSize)"

section \<open>States of a transfer\<close>

datatype direction = DirectionPut | DirectionGet | DirectionUnknown

datatype wstate =
    StateReceiving | StateValidating | StateCommitting | StatePublished
  | StateAwaitingConfirmation | StateMaterializing | StateVerifying | StateLocal
  | StateRejected | StateCancelled | StateUnknown

definition Terminal :: "wstate \<Rightarrow> bool" where
  "Terminal s = (s = StatePublished \<or> s = StateLocal \<or> s = StateRejected \<or> s = StateCancelled)"

definition InitialState :: "direction \<Rightarrow> wstate option" where
  "InitialState d =
     (case d of DirectionPut \<Rightarrow> Some StateReceiving | DirectionGet \<Rightarrow> Some StateAwaitingConfirmation
      | DirectionUnknown \<Rightarrow> None)"

definition CanTransition :: "direction \<Rightarrow> wstate \<Rightarrow> wstate \<Rightarrow> bool" where
  "CanTransition d from to =
     (if from = to then True
      else if Terminal from then False
      else if to = StateRejected \<or> to = StateCancelled then True
      else if d = DirectionPut then
        (from = StateReceiving \<and> to = StateValidating)
        \<or> (from = StateValidating \<and> to = StateCommitting)
        \<or> (from = StateCommitting \<and> to = StatePublished)
      else if d = DirectionGet then
        (from = StateAwaitingConfirmation \<and> to = StateMaterializing)
        \<or> (from = StateMaterializing \<and> to = StateVerifying)
        \<or> (from = StateVerifying \<and> to = StateLocal)
      else False)"

section \<open>Requests\<close>

datatype woperation =
    OpPutWindow | OpPutCommit | OpPutStatus | OpGetDiscover | OpGetQuote | OpGetWindow | OpGetRelease | OpUnknown

record wrequest =
  wq_schema :: string
  wq_request_id :: string
  wq_operation :: woperation
  wq_identity :: identity
  wq_revision :: int
  wq_transfer :: string
  wq_token :: string
  wq_offset :: int
  wq_payload :: int

definition Schema_whale :: string where "Schema_whale = ''filees.whale/v1''"
definition MaxWindowBytes :: int where "MaxWindowBytes = 1024 * 1024 * 1024"
definition MaxHeaderBytes :: nat where "MaxHeaderBytes = 64 * 1024"
definition maxLineBytes :: nat where "maxLineBytes = 64"

text \<open>The window both directions ask for.\<close>

definition window_fits :: "wrequest \<Rightarrow> bool" where
  "window_fits r =
     (ValidateOffset (wq_offset r) (wi_size (wq_identity r))
      \<and> 1 \<le> wq_payload r \<and> wq_payload r \<le> MaxWindowBytes \<and> wq_payload r \<le> wi_size (wq_identity r) - wq_offset r)"

definition Validate_request :: "(string \<Rightarrow> bool) \<Rightarrow> wrequest \<Rightarrow> bool" where
  "Validate_request uuid r =
     (wq_schema r = Schema_whale \<and> uuid (wq_request_id r)
      \<and> (if wq_operation r = OpGetDiscover then
           uuid (wi_repo (wq_identity r)) \<and> ValidateLogicalPath (wi_path (wq_identity r))
           \<and> wi_generation (wq_identity r) = [] \<and> wi_size (wq_identity r) = 0 \<and> wi_sha256 (wq_identity r) = []
         else Validate_identity uuid (wq_identity r))
      \<and> (case wq_operation r of
           OpGetDiscover \<Rightarrow> 1 \<le> wq_revision r \<and> wq_transfer r = [] \<and> wq_token r = [] \<and> wq_offset r = 0 \<and> wq_payload r = 0
         | OpPutWindow \<Rightarrow> wq_revision r = 0 \<and> wq_transfer r = [] \<and> wq_token r = [] \<and> window_fits r
         | OpPutCommit \<Rightarrow> wq_revision r = 0 \<and> wq_transfer r = [] \<and> wq_token r = [] \<and> wq_offset r = 0 \<and> wq_payload r = 0
         | OpPutStatus \<Rightarrow> wq_revision r = 0 \<and> wq_transfer r = [] \<and> wq_token r = [] \<and> wq_offset r = 0 \<and> wq_payload r = 0
         | OpGetQuote \<Rightarrow> 1 \<le> wq_revision r \<and> wq_transfer r = [] \<and> wq_token r = [] \<and> wq_offset r = 0 \<and> wq_payload r = 0
         | OpGetWindow \<Rightarrow> 1 \<le> wq_revision r \<and> uuid (wq_transfer r) \<and> uuid (wq_token r) \<and> window_fits r
         | OpGetRelease \<Rightarrow> 1 \<le> wq_revision r \<and> uuid (wq_transfer r) \<and> uuid (wq_token r) \<and> wq_offset r = 0 \<and> wq_payload r = 0
         | OpUnknown \<Rightarrow> False))"

section \<open>Frames\<close>

definition RequestMagic :: string where "RequestMagic = ''FILEES-WHALE/1''"
definition ResponseMagic :: string where "ResponseMagic = ''FILEES-WHALE-RESULT/1''"

definition WriteFrame :: "string \<Rightarrow> string \<Rightarrow> (whale_err, string) result" where
  "WriteFrame magic header =
     (if length header > MaxHeaderBytes then Inl WInvalid
      else Inr (magic @ [CHR 0x0A] @ format_nat (length header) @ [CHR 0x0A] @ header))"

definition strip_cr :: "string \<Rightarrow> string" where
  "strip_cr line = (if line \<noteq> [] \<and> last line = CHR 0x0D then butlast line else line)"

text \<open>The result is the line and what the reader has left; \<open>Inl\<close> also at the end of input.\<close>

fun readLine :: "string \<Rightarrow> string \<Rightarrow> (whale_err, string \<times> string) result" where
  "readLine line [] = Inl WIo"
| "readLine line (b # bs) =
     (if b = CHR 0x0A then Inr (strip_cr line, bs)
      else if length line = maxLineBytes then Inl WInvalid
      else readLine (line @ [b]) bs)"

definition ReadHeader :: "string \<Rightarrow> string \<Rightarrow> (whale_err, string \<times> string) result" where
  "ReadHeader magic input =
     (case readLine [] input of
        Inl e \<Rightarrow> Inl e
      | Inr (got, input1) \<Rightarrow>
        if got \<noteq> magic then Inl WInvalid
        else (case readLine [] input1 of
            Inl e \<Rightarrow> Inl e
          | Inr (len, input2) \<Rightarrow>
            (case atoi len of
               None \<Rightarrow> Inl WInvalid
             | Some n \<Rightarrow>
               if n < 1 \<or> n > int MaxHeaderBytes then Inl WInvalid
               else if length input2 < nat n then Inl WIo
               else Inr (take (nat n) input2, drop (nat n) input2))))"

section \<open>The state machine\<close>

lemma CanTransition_refl [simp]: "CanTransition d s s"
  by (simp add: CanTransition_def)

lemma CanTransition_terminal: "CanTransition d s t \<Longrightarrow> Terminal s \<Longrightarrow> t = s"
  by (simp add: CanTransition_def split: if_splits)

section \<open>Frames read back\<close>

lemma readLine_line:
  "CHR 0x0A \<notin> set s \<Longrightarrow> length acc + length s \<le> maxLineBytes \<Longrightarrow>
   readLine acc (s @ CHR 0x0A # rest) = Inr (strip_cr (acc @ s), rest)"
proof (induction s arbitrary: acc)
  case (Cons b s)
  then have "b \<noteq> CHR 0x0A" "length acc \<noteq> maxLineBytes" by auto
  then show ?case using Cons.IH [of "acc @ [b]"] Cons.prems by simp
qed simp

lemma digit_not_eol: "is_digit c \<Longrightarrow> c \<noteq> CHR 0x0A \<and> c \<noteq> CHR 0x0D"
  by (auto simp: is_digit_def)

lemma format_nat_no_eol: "CHR 0x0A \<notin> set (format_nat n)" "strip_cr (format_nat n) = format_nat n"
proof -
  have d: "is_digit c" if "c \<in> set (format_nat n)" for c
    using format_nat_digits [of n] that by (simp add: list_all_iff)
  show "CHR 0x0A \<notin> set (format_nat n)" using d digit_not_eol by blast
  show "strip_cr (format_nat n) = format_nat n"
    using d [OF last_in_set [of "format_nat n"]] digit_not_eol by (simp add: strip_cr_def)
qed

text \<open>
  C32. A frame that is written with a header that is not empty reads back: the header is
  returned exactly and the reader stands at the first byte of the payload that follows.
\<close>

theorem frame_roundtrip:
  assumes "magic \<in> {RequestMagic, ResponseMagic}" and "header \<noteq> []" and "WriteFrame magic header = Inr frame"
  shows "ReadHeader magic (frame @ payload) = Inr (header, payload)"
proof -
  have len: "length header \<le> 65536" and f: "frame = magic @ [CHR 0x0A] @ format_nat (length header) @ [CHR 0x0A] @ header"
    using assms(3) by (auto simp: WriteFrame_def MaxHeaderBytes_def split: if_splits)
  have "length (format_nat (length header)) \<le> 5" using len by (intro length_format_nat) auto
  then have 2: "readLine [] (format_nat (length header) @ CHR 0x0A # header @ payload)
      = Inr (format_nat (length header), header @ payload)"
    by (subst readLine_line) (simp_all add: format_nat_no_eol maxLineBytes_def)
  have 1: "readLine [] (magic @ CHR 0x0A # rest) = Inr (magic, rest)" for rest
    using assms(1) by (subst readLine_line) (auto simp: RequestMagic_def ResponseMagic_def maxLineBytes_def strip_cr_def)
  have "0 < length header" using assms(2) by simp
  then show ?thesis using len
    by (simp add: ReadHeader_def f 1 2 atoi_format_nat MaxHeaderBytes_def)
qed

theorem frame_roundtrip_witness:
  "ReadHeader RequestMagic (RequestMagic @ [CHR 0x0A] @ ''2'' @ [CHR 0x0A] @ ''{}'' @ ''abc'') = Inr (''{}'', ''abc'')"
proof -
  have f: "format_nat (Suc (Suc 0)) = ''2''" by code_simp
  have "WriteFrame RequestMagic ''{}'' = Inr (RequestMagic @ [CHR 0x0A] @ ''2'' @ [CHR 0x0A] @ ''{}'')"
    by (simp add: WriteFrame_def MaxHeaderBytes_def f)
  from frame_roundtrip [OF _ _ this, of "''abc''"] show ?thesis by simp
qed

end
