(* ===== verification/Capacity_Reservations.thy ===== *)
theory Capacity_Reservations
  imports Go_Lib "HOL-Library.Word"
begin

text \<open>
  The ledger of storage reservations (\<open>pkg/repoworker/reservation.go\<close>): one file per
  operation with the bytes it needs and its expiry. The ledger is the list of its entries in
  directory order. The UUID parser, the clock, the answer of the capacity checker and the
  outcome of every file operation of one call are the record \<open>res_call\<close>. An expiry that is no
  valid time is \<open>None\<close>. The checker itself (\<open>capacity_math.go\<close>, and the one of the Whale worker
  in \<open>internal/servertool/whale_worker.go\<close>) is modelled from the block counts the operating
  system reports, at 64 bits.
\<close>

section \<open>Capacity\<close>

definition MaxInt64 :: int where "MaxInt64 = 2 ^ 63 - 1"

definition saturatingProduct :: "64 word \<Rightarrow> 64 word \<Rightarrow> int" where
  "saturatingProduct left right =
     (if right \<noteq> 0 \<and> left > word_of_int MaxInt64 div right then MaxInt64 else sint (left * right))"

definition saturatingAdd :: "int \<Rightarrow> int \<Rightarrow> int" where
  "saturatingAdd left right =
     (if right > 0 \<and> left > MaxInt64 - right then MaxInt64 else signed_take_bit 63 (left + right))"

definition capacityDecision :: "int \<Rightarrow> int \<Rightarrow> int \<times> int" where
  "capacityDecision available content =
     (let margin = (if content div 10 > 64 * 2 ^ 20 then content div 10 else 64 * 2 ^ 20) in
      (available, saturatingAdd (saturatingAdd content content) margin))"

text \<open>One file system: \<open>None\<close> is a failed \<open>Statfs\<close>, otherwise its free blocks and block size.\<close>

definition Check_fs :: "(64 word \<times> 64 word) option \<Rightarrow> int \<Rightarrow> (int \<times> int) option" where
  "Check_fs stat content =
     (if content < 0 then None
      else case stat of None \<Rightarrow> None
      | Some (bavail, bsize) \<Rightarrow> Some (capacityDecision (saturatingProduct bavail bsize) content))"

text \<open>The loop over the roots; \<open>first\<close> is \<open>index == 0\<close>.\<close>

fun check_roots :: "bool \<Rightarrow> int \<Rightarrow> int \<Rightarrow> (64 word \<times> 64 word) option list \<Rightarrow> int \<Rightarrow> (int \<times> int) option" where
  "check_roots first available required [] content = Some (available, required)"
| "check_roots first available required (stat # stats) content =
     (case Check_fs stat content of
        None \<Rightarrow> None
      | Some (a, r) \<Rightarrow>
        check_roots False (if first \<or> a < available then a else available)
          (if r > required then r else required) stats content)"

definition Check_whale :: "(64 word \<times> 64 word) option list \<Rightarrow> int \<Rightarrow> (int \<times> int) option" where
  "Check_whale stats content = (if stats = [] then None else check_roots True 0 0 stats content)"

section \<open>Records\<close>

record res_record =
  rv_operation :: string
  rv_content :: int
  rv_required :: int
  rv_expires :: "gotime option"

type_synonym ledger = "(string, res_record stored) assoc"

datatype res_err = ResUnavailable int int | ResInvalid | ResIo

record res_call =
  rc_now :: gotime
  rc_ready :: bool
  rc_uuid :: "string \<Rightarrow> bool"
  rc_check :: "int \<Rightarrow> (int \<times> int) option"
  rc_readdir :: bool
  rc_read :: "string \<Rightarrow> bool"
  rc_remove :: "string \<Rightarrow> bool"
  rc_save :: bool
  rc_ttl :: duration

definition DefaultReservationTTL :: duration where
  "DefaultReservationTTL = 24 * hour"

definition ttl_res :: "res_call \<Rightarrow> duration" where
  "ttl_res c = (if rc_ttl c > 0 then rc_ttl c else DefaultReservationTTL)"

section \<open>Operations\<close>

definition load_reservation :: "res_call \<Rightarrow> string \<Rightarrow> ledger \<Rightarrow> res_record option" where
  "load_reservation c op l =
     (if \<not> rc_read c op then None
      else case map_of l op of
        Some (Stored r) \<Rightarrow> if rv_operation r \<noteq> op \<or> rv_content r < 0 \<or> rv_required r < 0 then None else Some r
      | _ \<Rightarrow> None)"

text \<open>
  The loop of \<open>liveLocked\<close> over the names in the directory: the live reservations of others,
  and the ledger from which the expired ones were removed.
\<close>

fun live_loop :: "res_call \<Rightarrow> string \<Rightarrow> string list \<Rightarrow> res_record list \<Rightarrow> ledger \<Rightarrow> res_record list option \<times> ledger" where
  "live_loop c exclude [] records l = (Some records, l)"
| "live_loop c exclude (op # ops) records l =
     (case load_reservation c op l of
        None \<Rightarrow> (None, l)
      | Some r \<Rightarrow>
        (case rv_expires r of
           None \<Rightarrow> (None, l)
         | Some expires \<Rightarrow>
           if \<not> rc_now c < expires then
             (if \<not> rc_remove c op then (None, l)
              else live_loop c exclude ops records (AList.delete op l))
           else live_loop c exclude ops (if op \<noteq> exclude then records @ [r] else records) l))"

definition live_reservations :: "res_call \<Rightarrow> string \<Rightarrow> ledger \<Rightarrow> res_record list option \<times> ledger" where
  "live_reservations c exclude l =
     (if \<not> rc_readdir c then (None, l) else live_loop c exclude (keys l) [] l)"

text \<open>The loop that subtracts the other reservations and stops at zero.\<close>

fun subtract :: "int \<Rightarrow> res_record list \<Rightarrow> int" where
  "subtract effective [] = effective"
| "subtract effective (r # rs) =
     (if rv_required r \<ge> effective then 0 else subtract (effective - rv_required r) rs)"

text \<open>
  \<open>Reserve\<close> up to its save: what it decided, and the ledger without expired entries. The
  result is the effective space, the required space and the new record.
\<close>

definition reserve_check ::
    "res_call \<Rightarrow> string \<Rightarrow> int \<Rightarrow> ledger \<Rightarrow> (res_err, int \<times> int \<times> res_record) result \<times> ledger" where
  "reserve_check c op content l =
     (if \<not> rc_ready c then (Inl ResIo, l)
      else if \<not> rc_uuid c op then (Inl ResInvalid, l)
      else case rc_check c content of
        None \<Rightarrow> (Inl ResIo, l)
      | Some (available, required) \<Rightarrow>
        (case live_reservations c op l of
           (None, l1) \<Rightarrow> (Inl ResIo, l1)
         | (Some records, l1) \<Rightarrow>
           let effective = subtract available records in
           if effective < required then (Inl (ResUnavailable effective required), l1)
           else (Inr (effective, required,
                  \<lparr>rv_operation = op, rv_content = content, rv_required = required,
                   rv_expires = Some (rc_now c + ttl_res c)\<rparr>), l1)))"

definition save_reservation :: "res_call \<Rightarrow> res_record \<Rightarrow> ledger \<Rightarrow> bool \<times> ledger" where
  "save_reservation c r l =
     (if rc_save c then (True, AList.update (rv_operation r) (Stored r) l) else (False, l))"

definition Reserve :: "res_call \<Rightarrow> string \<Rightarrow> int \<Rightarrow> ledger \<Rightarrow> (res_err, int \<times> int \<times> gotime) result \<times> ledger" where
  "Reserve c op content l =
     (case reserve_check c op content l of
        (Inl e, l1) \<Rightarrow> (Inl e, l1)
      | (Inr (effective, required, r), l1) \<Rightarrow>
        (case save_reservation c r l1 of
           (False, l2) \<Rightarrow> (Inl ResIo, l2)
         | (True, l2) \<Rightarrow> (Inr (effective, required, rc_now c + ttl_res c), l2)))"

text \<open>The loop of \<open>Ensure\<close> fails where the one of \<open>Reserve\<close> stops at zero.\<close>

fun subtract_or_fail :: "int \<Rightarrow> res_record list \<Rightarrow> int option" where
  "subtract_or_fail available [] = Some available"
| "subtract_or_fail available (r # rs) =
     (if rv_required r \<ge> available then None else subtract_or_fail (available - rv_required r) rs)"

definition Ensure :: "res_call \<Rightarrow> string \<Rightarrow> ledger \<Rightarrow> res_err option \<times> ledger" where
  "Ensure c op l =
     (if \<not> rc_ready c then (Some ResIo, l)
      else case load_reservation c op l of
        None \<Rightarrow> (Some (ResUnavailable 0 0), l)
      | Some r \<Rightarrow>
        if rv_expires r = None then (Some ResInvalid, l)
        else (case rc_check c (rv_content r) of
            None \<Rightarrow> (Some ResIo, l)
          | Some (available, required) \<Rightarrow>
            (case live_reservations c op l of
               (None, l1) \<Rightarrow> (Some ResIo, l1)
             | (Some records, l1) \<Rightarrow>
               (case subtract_or_fail available records of
                  None \<Rightarrow> (Some (ResUnavailable 0 0), l1)
                | Some left \<Rightarrow>
                  if left < required then (Some (ResUnavailable 0 0), l1)
                  else (case save_reservation c (r\<lparr>rv_required := required, rv_expires := Some (rc_now c + ttl_res c)\<rparr>) l1 of
                      (False, l2) \<Rightarrow> (Some ResIo, l2)
                    | (True, l2) \<Rightarrow> (None, l2))))))"

definition Release_res :: "res_call \<Rightarrow> string \<Rightarrow> ledger \<Rightarrow> bool \<times> ledger" where
  "Release_res c op l =
     (if \<not> rc_ready c \<or> \<not> rc_uuid c op then (False, l)
      else if map_of l op = None then (True, l)
      else if \<not> rc_remove c op then (False, l)
      else (True, AList.delete op l))"

section \<open>Capacity is exact up to saturation\<close>

lemma div_less_iff:
  fixes m r l :: int
  assumes "0 < r"
  shows "m div r < l \<longleftrightarrow> m < l * r"
proof
  assume "m div r < l"
  then have "(m div r + 1) * r \<le> l * r" using assms by simp
  moreover have "(m div r + 1) * r = m div r * r + r" by (simp add: distrib_right)
  moreover have "m < m div r * r + r"
    using div_mult_mod_eq [of m r] pos_mod_bound [OF assms, of m] by linarith
  ultimately show "m < l * r" by linarith
next
  assume m: "m < l * r"
  have "m div r * r \<le> m" using div_mult_mod_eq [of m r] pos_mod_sign [OF assms, of m] by linarith
  then have "m div r * r < l * r" using m by linarith
  then show "m div r < l" using assms by simp
qed

lemma int64_id: "0 \<le> p \<Longrightarrow> p \<le> MaxInt64 \<Longrightarrow> signed_take_bit 63 p = p"
  by (rule signed_take_bit_int_eq_self) (simp_all add: MaxInt64_def)

lemma saturatingProduct_eq:
  "saturatingProduct left right = min MaxInt64 (uint left * uint right)"
proof (cases "right = 0")
  case False
  then have r: "0 < uint right" using uint_0_iff [of right] uint_ge_0 [of right] by linarith
  have m: "uint (word_of_int MaxInt64 :: 64 word) = MaxInt64" by (simp add: MaxInt64_def)
  have g: "left > word_of_int MaxInt64 div right \<longleftrightarrow> MaxInt64 < uint left * uint right"
    using r by (simp add: word_less_def uint_div m div_less_iff)
  show ?thesis
  proof (cases "MaxInt64 < uint left * uint right")
    case True
    then show ?thesis using False g by (simp add: saturatingProduct_def)
  next
    case f: False
    have n: "0 \<le> uint left * uint right" by simp
    have "uint (left * right) = uint left * uint right"
      using f n by (subst uint_mult_lem [THEN iffD1]) (auto simp: MaxInt64_def)
    moreover have "sint (left * right) = signed_take_bit 63 (uint (left * right))"
      by (simp add: sint_uint)
    moreover have "signed_take_bit 63 (uint left * uint right) = uint left * uint right"
      using f by (intro int64_id [OF n]) simp
    ultimately have "sint (left * right) = uint left * uint right" by simp
    then show ?thesis using False f g by (simp add: saturatingProduct_def)
  qed
qed (simp add: saturatingProduct_def MaxInt64_def)

lemma saturatingAdd_eq:
  "0 \<le> a \<Longrightarrow> 0 \<le> b \<Longrightarrow> a \<le> MaxInt64 \<Longrightarrow> b \<le> MaxInt64 \<Longrightarrow> saturatingAdd a b = min MaxInt64 (a + b)"
  by (auto simp: saturatingAdd_def int64_id min_def)

lemma required_eq:
  assumes "0 \<le> content" "content \<le> MaxInt64"
  shows "snd (capacityDecision available content) = min MaxInt64 (2 * content + max (64 * 2 ^ 20) (content div 10))"
proof -
  have "content div 10 \<le> MaxInt64" using assms by (simp add: MaxInt64_def)
  moreover have "saturatingAdd content content = min MaxInt64 (content + content)"
    using assms saturatingAdd_eq by blast
  ultimately show ?thesis using assms
    by (auto simp: capacityDecision_def saturatingAdd_eq MaxInt64_def Let_def max_def min_def)
qed

lemma Check_fs_bounds:
  assumes "Check_fs stat content = Some (a, r)" "content \<le> MaxInt64"
  shows "0 \<le> a" "64 * 2 ^ 20 \<le> r"
proof -
  obtain x y where xy: "stat = Some (x, y)" "0 \<le> content"
    and ar: "capacityDecision (saturatingProduct x y) content = (a, r)"
    using assms(1) by (auto simp: Check_fs_def split: if_splits option.splits)
  have "a = saturatingProduct x y" using ar by (simp add: capacityDecision_def Let_def)
  then show "0 \<le> a" by (simp add: saturatingProduct_eq MaxInt64_def)
  have "r = min MaxInt64 (2 * content + max (64 * 2 ^ 20) (content div 10))"
    using required_eq [OF xy(2) assms(2), of "saturatingProduct x y"] ar by simp
  then show "64 * 2 ^ 20 \<le> r" using xy(2) by (simp add: MaxInt64_def)
qed

lemma check_roots_bounds:
  "check_roots first available required stats content = Some (a, r) \<Longrightarrow> content \<le> MaxInt64 \<Longrightarrow> 0 \<le> available \<Longrightarrow>
   0 \<le> a \<and> required \<le> r \<and> (stats \<noteq> [] \<longrightarrow> 64 * 2 ^ 20 \<le> r)"
proof (induction stats arbitrary: first available required)
  case (Cons stat stats)
  from Cons.prems(1) obtain x y where c: "Check_fs stat content = Some (x, y)" by (auto split: option.splits)
  define av where "av = (if first \<or> x < available then x else available)"
  define rq where "rq = (if y > required then y else required)"
  have "check_roots False av rq stats content = Some (a, r)"
    using Cons.prems(1) c by (simp add: av_def rq_def)
  moreover have "0 \<le> av" "required \<le> rq" "64 * 2 ^ 20 \<le> rq"
    using Check_fs_bounds [OF c Cons.prems(2)] Cons.prems(3) by (auto simp: av_def rq_def)
  ultimately show ?case using Cons.IH [of False av rq] Cons.prems(2) by auto
qed simp

lemma Check_whale_bounds:
  "Check_whale stats content = Some (a, r) \<Longrightarrow> content \<le> MaxInt64 \<Longrightarrow> 0 \<le> a \<and> 0 < r"
  using check_roots_bounds [of True 0 0 stats content a r] by (auto simp: Check_whale_def split: if_splits)

section \<open>What is reserved\<close>

text \<open>The entries that count at a moment, and the bytes they hold.\<close>

definition unexpired :: "gotime \<Rightarrow> string \<times> res_record stored \<Rightarrow> bool" where
  "unexpired now e = (case snd e of Stored r \<Rightarrow> (case rv_expires r of Some t \<Rightarrow> now < t | None \<Rightarrow> False) | Garbage \<Rightarrow> False)"

definition held :: "string \<times> res_record stored \<Rightarrow> int" where
  "held e = (case snd e of Stored r \<Rightarrow> rv_required r | Garbage \<Rightarrow> 0)"

definition reserved :: "ledger \<Rightarrow> int" where
  "reserved l = sum_list (map held l)"

lemma subtract_eq:
  "0 \<le> a \<Longrightarrow> \<forall>r \<in> set rs. 0 \<le> rv_required r \<Longrightarrow> subtract a rs = max 0 (a - sum_list (map rv_required rs))"
proof (induction a rs rule: subtract.induct)
  case (2 a r rs)
  have "0 \<le> sum_list (map rv_required rs)" using 2(3) by (intro sum_list_nonneg) auto
  then show ?case using 2 by auto
qed simp

lemma load_reservationD:
  "load_reservation c op l = Some r \<Longrightarrow> map_of l op = Some (Stored r) \<and> 0 \<le> rv_required r"
  by (auto simp: load_reservation_def split: if_splits option.splits stored.splits)

definition amount :: "gotime \<Rightarrow> string \<Rightarrow> string \<times> res_record stored \<Rightarrow> int" where
  "amount now op e = (if fst e \<noteq> op \<and> unexpired now e then held e else 0)"

lemma live_loop_spec:
  "live_loop c op ops records l1 = (Some rs, l') \<Longrightarrow> distinct ops \<Longrightarrow> \<forall>k \<in> set ops. map_of l1 k = map_of l k \<Longrightarrow>
   \<forall>r \<in> set records. 0 \<le> rv_required r \<Longrightarrow>
   sum_list (map rv_required rs) = sum_list (map rv_required records)
      + sum_list (map (\<lambda>k. amount (rc_now c) op (k, the (map_of l k))) ops)
   \<and> l' = filter (\<lambda>e. fst e \<in> set ops \<longrightarrow> unexpired (rc_now c) (fst e, the (map_of l (fst e)))) l1
   \<and> (\<forall>r \<in> set rs. 0 \<le> rv_required r)"
proof (induction ops arbitrary: records l1)
  case (Cons k ops)
  from Cons.prems(1) obtain r where r: "load_reservation c k l1 = Some r" by (auto split: option.splits)
  then have m: "map_of l k = Some (Stored r)" and n: "0 \<le> rv_required r"
    using load_reservationD [OF r] Cons.prems(3) by auto
  from Cons.prems(1) r obtain t where t: "rv_expires r = Some t" by (auto split: option.splits)
  show ?case
  proof (cases "rc_now c < t")
    case True
    then have u: "unexpired (rc_now c) (k, Stored r)" by (simp add: unexpired_def t)
    define records' where "records' = (if k \<noteq> op then records @ [r] else records)"
    have d: "live_loop c op ops records' l1 = (Some rs, l')"
      using Cons.prems(1) r t True by (simp add: records'_def)
    have "\<forall>r \<in> set records'. 0 \<le> rv_required r" using Cons.prems(4) n by (auto simp: records'_def)
    from Cons.IH [OF d _ _ this] Cons.prems(2,3)
    have ih: "sum_list (map rv_required rs) = sum_list (map rv_required records')
        + sum_list (map (\<lambda>k. amount (rc_now c) op (k, the (map_of l k))) ops)"
      "l' = filter (\<lambda>e. fst e \<in> set ops \<longrightarrow> unexpired (rc_now c) (fst e, the (map_of l (fst e)))) l1"
      "\<forall>r \<in> set rs. 0 \<le> rv_required r" by simp_all
    have "l' = filter (\<lambda>e. fst e \<in> set (k # ops) \<longrightarrow> unexpired (rc_now c) (fst e, the (map_of l (fst e)))) l1"
      unfolding ih(2) using u m by (intro filter_cong) auto
    then show ?thesis using ih(1,3) u m by (simp add: amount_def held_def records'_def)
  next
    case False
    then have u: "\<not> unexpired (rc_now c) (k, Stored r)" by (simp add: unexpired_def t)
    have d: "live_loop c op ops records (AList.delete k l1) = (Some rs, l')"
      using Cons.prems(1) r t False by (simp split: if_splits)
    have e: "\<forall>k' \<in> set ops. map_of (AList.delete k l1) k' = map_of l k'" using Cons.prems(2,3) by auto
    from Cons.IH [OF d _ e] Cons.prems(2,4)
    have ih: "sum_list (map rv_required rs) = sum_list (map rv_required records)
        + sum_list (map (\<lambda>k. amount (rc_now c) op (k, the (map_of l k))) ops)"
      "l' = filter (\<lambda>e. fst e \<in> set ops \<longrightarrow> unexpired (rc_now c) (fst e, the (map_of l (fst e)))) (AList.delete k l1)"
      "\<forall>r \<in> set rs. 0 \<le> rv_required r" by auto
    have "l' = filter (\<lambda>e. fst e \<in> set (k # ops) \<longrightarrow> unexpired (rc_now c) (fst e, the (map_of l (fst e)))) l1"
      unfolding ih(2) AList.delete_eq filter_filter using u m by (intro filter_cong) auto
    then show ?thesis using ih(1,3) u m by (simp add: amount_def)
  qed
qed simp

lemma sum_list_filter_if: "sum_list (map f (filter P xs)) = sum_list (map (\<lambda>x. if P x then f x else (0::int)) xs)"
  by (induction xs) auto

lemma live_reservations_spec:
  assumes "live_reservations c op l = (Some rs, l')" "wf_assoc l"
  shows "sum_list (map rv_required rs) = reserved (filter (\<lambda>e. fst e \<noteq> op \<and> unexpired (rc_now c) e) l)"
    and "l' = filter (unexpired (rc_now c)) l"
    and "\<forall>r \<in> set rs. 0 \<le> rv_required r"
proof -
  have e: "the (map_of l (fst e)) = snd e" if "e \<in> set l" for e
    using that assms(2) by (metis option.sel prod.collapse wf_assoc_in_map_of)
  have d: "distinct (keys l)" using assms(2) by (simp add: wf_assoc_def)
  have r: "live_loop c op (keys l) [] l = (Some rs, l')"
    using assms(1) by (simp add: live_reservations_def split: if_splits)
  note s = live_loop_spec [OF r d, of l, simplified]
  have "sum_list (map (\<lambda>k. amount (rc_now c) op (k, the (map_of l k))) (keys l)) = sum_list (map (amount (rc_now c) op) l)"
    unfolding map_map by (intro arg_cong [of _ _ sum_list] map_cong) (auto simp: e)
  also have "\<dots> = reserved (filter (\<lambda>e. fst e \<noteq> op \<and> unexpired (rc_now c) e) l)"
    unfolding reserved_def sum_list_filter_if by (intro arg_cong [of _ _ sum_list] map_cong) (auto simp: amount_def)
  finally show "sum_list (map rv_required rs) = reserved (filter (\<lambda>e. fst e \<noteq> op \<and> unexpired (rc_now c) e) l)"
    using s by (simp add: comp_def)
  show "l' = filter (unexpired (rc_now c)) l"
    using s e by (metis (no_types, lifting) filter_cong image_eqI prod.collapse)
  show "\<forall>r \<in> set rs. 0 \<le> rv_required r" using s by blast
qed

lemma reserved_delete: "wf_assoc l \<Longrightarrow> reserved (AList.update k v l) = held (k, v) + reserved (filter (\<lambda>e. fst e \<noteq> k) l)"
proof (induction l)
  case (Cons e l)
  obtain k' v' where e: "e = (k', v')" by force
  have w: "wf_assoc l" using Cons.prems by (simp add: wf_assoc_def)
  show ?case
  proof (cases "k' = k")
    case True
    then have "filter (\<lambda>e. fst e \<noteq> k) l = l"
      using Cons.prems by (auto simp: wf_assoc_def e filter_id_conv)
    then show ?thesis using True by (simp add: e reserved_def)
  next
    case False
    then show ?thesis using Cons.IH [OF w] by (simp add: e reserved_def)
  qed
qed (simp add: reserved_def)

lemma reserve_checkD:
  assumes "reserve_check c op content l = (Inr (effective, required, r), l1)"
  obtains av rs where "rc_check c content = Some (av, required)" "live_reservations c op l = (Some rs, l1)"
    "effective = subtract av rs" "required \<le> effective"
    "r = \<lparr>rv_operation = op, rv_content = content, rv_required = required, rv_expires = Some (rc_now c + ttl_res c)\<rparr>"
proof -
  obtain av rq where ck: "rc_check c content = Some (av, rq)"
    using assms by (cases "rc_check c content") (auto simp: reserve_check_def split: if_splits)
  obtain x l2 where lv: "live_reservations c op l = (x, l2)" by force
  show thesis
    using assms ck lv that by (cases x) (auto simp: reserve_check_def Let_def split: if_splits)
qed

lemma ReserveD:
  assumes "Reserve c op content l = (Inr (effective, required, expires), l')"
  obtains r l1 where "reserve_check c op content l = (Inr (effective, required, r), l1)"
    "l' = AList.update (rv_operation r) (Stored r) l1" "expires = rc_now c + ttl_res c"
proof -
  obtain x l1 where "reserve_check c op content l = (x, l1)" by force
  then show thesis
    using assms that by (cases x) (auto simp: Reserve_def save_reservation_def split: if_splits)
qed

text \<open>
  C23. When a reservation is admitted, everything reserved fits into the space that was
  measured: the reservations in the ledger, the new one with twice its content and a margin
  included, add up to at most the space available on the fullest file system. The ledger
  then has the new record and the unexpired records of the others, unchanged.
\<close>

theorem reserve_fits:
  assumes "wf_assoc l" and "content \<le> MaxInt64" and "rc_check c = Check_whale stats"
    and "Reserve c op content l = (Inr (effective, required, expires), l')"
  shows "\<exists>available. Check_whale stats content = Some (available, required) \<and> reserved l' \<le> available
    \<and> l' = AList.update op (Stored \<lparr>rv_operation = op, rv_content = content, rv_required = required, rv_expires = Some expires\<rparr>)
             (filter (unexpired (rc_now c)) l)"
proof -
  obtain r l1 where rc: "reserve_check c op content l = (Inr (effective, required, r), l1)"
    and l1: "l' = AList.update (rv_operation r) (Stored r) l1" "expires = rc_now c + ttl_res c"
    by (rule ReserveD [OF assms(4)])
  obtain av rs where ck: "Check_whale stats content = Some (av, required)"
    and lv: "live_reservations c op l = (Some rs, l1)"
    and eff: "effective = subtract av rs" "required \<le> effective"
    and r: "r = \<lparr>rv_operation = op, rv_content = content, rv_required = required, rv_expires = Some expires\<rparr>"
    using reserve_checkD [OF rc] l1(2) assms(3) by metis
  have l': "l' = AList.update op (Stored r) (filter (unexpired (rc_now c)) l)"
    using l1(1) r live_reservations_spec(2) [OF lv assms(1)] by simp
  note b = Check_whale_bounds [OF ck assms(2)]
  define others where "others = reserved (filter (\<lambda>e. fst e \<noteq> op \<and> unexpired (rc_now c) e) l)"
  have "subtract av rs = max 0 (av - others)"
    unfolding others_def live_reservations_spec(1) [OF lv assms(1), symmetric]
    using b live_reservations_spec(3) [OF lv assms(1)] by (intro subtract_eq) auto
  then have "required + others \<le> av" using eff b by linarith
  moreover have "reserved l' = required + others"
    unfolding l' others_def using assms(1) by (simp add: reserved_delete held_def r conj_commute)
  ultimately show ?thesis using ck l' r by auto
qed

section \<open>A concrete ledger\<close>

text \<open>One file system with 128 MiB free, and content of one byte, which needs 64 MiB and two bytes.\<close>

definition sample_stats :: "(64 word \<times> 64 word) option list" where
  "sample_stats = [Some (32768, 4096)]"

definition sample_res_call :: res_call where
  "sample_res_call = \<lparr>rc_now = 5, rc_ready = True, rc_uuid = (\<lambda>_. True), rc_check = Check_whale sample_stats,
     rc_readdir = True, rc_read = (\<lambda>_. True), rc_remove = (\<lambda>_. True), rc_save = True, rc_ttl = 10\<rparr>"

definition sample_reservation :: "string \<Rightarrow> res_record" where
  "sample_reservation op = \<lparr>rv_operation = op, rv_content = 1, rv_required = 67108866, rv_expires = Some 15\<rparr>"

lemma sample_check: "Check_whale sample_stats 1 = Some (134217728, 67108866)"
  by (simp add: Check_whale_def sample_stats_def Check_fs_def capacityDecision_def saturatingProduct_eq
      saturatingAdd_eq MaxInt64_def Let_def)

lemma sample_reserve_check:
  "reserve_check sample_res_call op 1 [] = (Inr (134217728, 67108866, sample_reservation op), [])"
  by (simp add: reserve_check_def sample_res_call_def sample_check live_reservations_def ttl_res_def
      sample_reservation_def Let_def)

lemma sample_save:
  "save_reservation sample_res_call (sample_reservation op) l = (True, AList.update op (Stored (sample_reservation op)) l)"
  by (simp add: save_reservation_def sample_res_call_def sample_reservation_def)

theorem reserve_fits_witness:
  "reserved [(''a'', Stored (sample_reservation ''a''))] \<le> 134217728 \<and> Check_whale sample_stats 1 = Some (134217728, 67108866)"
proof -
  have "Reserve sample_res_call ''a'' 1 [] = (Inr (134217728, 67108866, 15), [(''a'', Stored (sample_reservation ''a''))])"
    by (simp add: Reserve_def sample_reserve_check sample_save) (simp add: sample_res_call_def ttl_res_def)
  from reserve_fits [OF _ _ _ this, of sample_stats]
  obtain available where "Check_whale sample_stats 1 = Some (available, 67108866)"
    "reserved [(''a'', Stored (sample_reservation ''a''))] \<le> available"
    by (auto simp: MaxInt64_def sample_res_call_def)
  then show ?thesis by (simp add: sample_check)
qed

text \<open>
  The mutex of the ledger orders the calls of one process only. Two processes that share the
  directory can both check before either has saved: both are admitted, and what is reserved
  then exceeds the space.
\<close>

theorem reserve_race:
  "\<exists>c op1 op2 content available required r1 r2 l1 l2.
     op1 \<noteq> op2 \<and> rc_check c content = Some (available, required)
   \<and> reserve_check c op1 content [] = (Inr (available, required, r1), [])
   \<and> reserve_check c op2 content [] = (Inr (available, required, r2), [])
   \<and> save_reservation c r1 [] = (True, l1) \<and> save_reservation c r2 l1 = (True, l2) \<and> available < reserved l2"
proof -
  have "''a'' \<noteq> ''b'' \<and> rc_check sample_res_call 1 = Some (134217728, 67108866)
   \<and> reserve_check sample_res_call ''a'' 1 [] = (Inr (134217728, 67108866, sample_reservation ''a''), [])
   \<and> reserve_check sample_res_call ''b'' 1 [] = (Inr (134217728, 67108866, sample_reservation ''b''), [])
   \<and> save_reservation sample_res_call (sample_reservation ''a'') [] = (True, [(''a'', Stored (sample_reservation ''a''))])
   \<and> save_reservation sample_res_call (sample_reservation ''b'') [(''a'', Stored (sample_reservation ''a''))]
       = (True, [(''a'', Stored (sample_reservation ''a'')), (''b'', Stored (sample_reservation ''b''))])
   \<and> 134217728 < reserved [(''a'', Stored (sample_reservation ''a'')), (''b'', Stored (sample_reservation ''b''))]"
    by (simp add: sample_reserve_check sample_save)
      (simp add: sample_res_call_def sample_check reserved_def held_def sample_reservation_def)
  then show ?thesis by (intro exI)
qed

end
