(* ===== verification/Whale_Worker.thy ===== *)
theory Whale_Worker
  imports Whale_Contract Capacity_Reservations
begin

text \<open>
  The server side of Whale uploads (\<open>internal/whaleworker\<close>): the journal of generations, the
  queue of each logical path, the upload service, and its publisher into Subversion. Every
  request is served by a process of its own, so all state is on disk: the world of the model
  is the journal, the partial payloads, the queues, the ledger of reservations and the
  repositories. What one request reads from its surroundings is the record \<open>whale_call\<close>: the
  clock, the access the authority grants, and the outcome of every file operation and of every
  Subversion program. SHA-256 and the canonical form of UUIDs are the parameter \<open>whale_env\<close>.
  A process that dies leaves what an error at that point leaves. The text printed by \<open>svnlook\<close>
  and \<open>svnadmin\<close> is not parsed: the model reads the revision or transaction they report on.
\<close>

section \<open>State on disk\<close>

record wrecord =
  ws_schema :: string
  ws_identity :: identity
  ws_direction :: direction
  ws_state :: wstate
  ws_bytes :: int
  ws_base :: int
  ws_base_known :: bool
  ws_revision :: int
  ws_created :: "gotime option"
  ws_updated :: "gotime option"

record queue_record =
  qr_schema :: string
  qr_repo :: string
  qr_path :: string
  qr_holder :: string
  qr_waiting :: "string list"

text \<open>
  A revision with its two Whale properties and what it put; revision \<open>n\<close> of a repository is
  element \<open>n - 1\<close>. A transaction is a revision that is not committed, under its name.
\<close>

record whale_rev =
  wv_generation :: "string option"
  wv_sha256 :: "string option"
  wv_mkdirs :: "string list"
  wv_put :: "(string \<times> string) option"

record whale_repo =
  wp_revisions :: "whale_rev list"
  wp_txns :: "(string \<times> whale_rev) list"

record whale_world =
  ww_journal :: "string \<Rightarrow> wrecord stored option"
  ww_payload :: "string \<Rightarrow> string option"
  ww_queue :: "string \<Rightarrow> queue_record stored option"
  ww_ledger :: ledger
  ww_repo :: "string \<Rightarrow> whale_repo"

section \<open>Surroundings\<close>

record whale_env =
  we_uuid :: "string \<Rightarrow> bool"
  we_sha256 :: "string \<Rightarrow> string"
  we_root :: string
  we_complete :: bool

text \<open>
  \<open>svnmucc\<close> fails, possibly leaving a transaction behind; or it commits, and its answer is
  lost or arrives. A transaction is read, is gone by then, or cannot be read.
\<close>

datatype mucc_outcome = MuccFail "string option" | MuccLost | MuccOk
datatype txn_answer = TxnRead | TxnGone | TxnError

record svn_answers =
  si_youngest :: "nat \<Rightarrow> bool"
  si_props :: "nat \<Rightarrow> int \<Rightarrow> bool"
  si_lstxns :: bool
  si_txn :: "string \<Rightarrow> txn_answer"
  si_rmtxns :: "string \<Rightarrow> bool"
  si_tree :: "(string \<Rightarrow> bool) option"
  si_mucc :: mucc_outcome
  si_foreign :: "nat \<Rightarrow> whale_rev list"
  si_orphans :: "string list"

record whale_call =
  wc_now :: gotime
  wc_access :: "string option"
  wc_load :: "nat \<Rightarrow> bool"
  wc_prepare :: bool
  wc_rename :: bool
  wc_sync :: bool
  wc_save :: "nat \<Rightarrow> save_outcome"
  wc_qlock :: bool
  wc_qread :: bool
  wc_qsave :: save_outcome
  wc_qremove :: bool
  wc_lock :: bool
  wc_reserve :: res_call
  wc_release :: res_call
  wc_ready :: bool
  wc_open :: bool
  wc_truncate :: bool
  wc_seek :: bool
  wc_stream :: string
  wc_written :: "nat option"
  wc_fsync :: bool
  wc_digest :: bool
  wc_svn :: svn_answers

section \<open>Journal\<close>

definition GenerationSchema :: string where "GenerationSchema = ''filees.whale-generation/v1''"

definition known_state :: "wrecord \<Rightarrow> bool" where
  "known_state r =
     (Some (ws_state r) = InitialState (ws_direction r) \<or> ws_state r = StateRejected \<or> ws_state r = StateCancelled
      \<or> ws_direction r = DirectionPut \<and> ws_state r \<in> {StateValidating, StateCommitting, StatePublished}
      \<or> ws_direction r = DirectionGet \<and> ws_state r \<in> {StateMaterializing, StateVerifying, StateLocal})"

definition validateRecord :: "whale_env \<Rightarrow> wrecord \<Rightarrow> bool" where
  "validateRecord E r =
     (ws_schema r = GenerationSchema \<and> Validate_identity (we_uuid E) (ws_identity r)
      \<and> ws_created r \<noteq> None \<and> ws_updated r \<noteq> None
      \<and> ValidateOffset (ws_bytes r) (wi_size (ws_identity r))
      \<and> InitialState (ws_direction r) \<noteq> None \<and> known_state r
      \<and> \<not> (ws_direction r = DirectionPut \<and> ws_state r \<in> {StateValidating, StateCommitting, StatePublished}
            \<and> ws_bytes r \<noteq> wi_size (ws_identity r))
      \<and> \<not> (ws_direction r = DirectionGet \<and> ws_state r \<in> {StateVerifying, StateLocal}
            \<and> ws_bytes r \<noteq> wi_size (ws_identity r))
      \<and> \<not> (ws_base r < 0 \<or> (\<not> ws_base_known r \<and> ws_base r \<noteq> 0) \<or> ws_revision r < 0
            \<or> (ws_state r = StatePublished \<and> (\<not> ws_base_known r \<or> ws_revision r = 0 \<or> ws_revision r \<le> ws_base r))))"

definition load_journal :: "whale_env \<Rightarrow> whale_call \<Rightarrow> nat \<Rightarrow> string \<Rightarrow> whale_world \<Rightarrow> (whale_err, wrecord option) result" where
  "load_journal E c site g w =
     (if \<not> we_complete E then Inl WInvalid
      else if \<not> Validate_identity (we_uuid E)
        \<lparr>wi_repo = g, wi_path = ''x'', wi_generation = g, wi_size = 1, wi_sha256 = replicate 64 CHR ''0''\<rparr> then Inl WInvalid
      else if \<not> wc_load c site then Inl WIo
      else case ww_journal w g of
        None \<Rightarrow> Inr None
      | Some Garbage \<Rightarrow> Inl WInvalid
      | Some (Stored r) \<Rightarrow>
        if \<not> validateRecord E r \<or> wi_generation (ws_identity r) \<noteq> g then Inl WInvalid else Inr (Some r))"

definition write_record :: "save_outcome \<Rightarrow> wrecord \<Rightarrow> whale_world \<Rightarrow> bool \<times> whale_world" where
  "write_record out r w =
     (let w' = w\<lparr>ww_journal := (ww_journal w)(wi_generation (ws_identity r) := Some (Stored r))\<rparr> in
      case out of SaveOk \<Rightarrow> (True, w') | SaveFail \<Rightarrow> (False, w) | SaveUnsynced \<Rightarrow> (False, w'))"

text \<open>What \<open>Create\<close> answers when the generation exists already.\<close>

definition same_generation :: "identity \<Rightarrow> direction \<Rightarrow> wrecord \<Rightarrow> (whale_err, wrecord) result" where
  "same_generation i d r =
     (if ws_identity r \<noteq> i \<or> ws_direction r \<noteq> d then Inl WGenerationConflict else Inr r)"

definition new_record :: "whale_call \<Rightarrow> identity \<Rightarrow> direction \<Rightarrow> wstate \<Rightarrow> wrecord" where
  "new_record c i d s =
     \<lparr>ws_schema = GenerationSchema, ws_identity = i, ws_direction = d, ws_state = s, ws_bytes = 0, ws_base = 0,
      ws_base_known = False, ws_revision = 0, ws_created = Some (wc_now c), ws_updated = Some (wc_now c)\<rparr>"

definition Create_journal ::
    "whale_env \<Rightarrow> whale_call \<Rightarrow> identity \<Rightarrow> direction \<Rightarrow> whale_world \<Rightarrow> (whale_err, wrecord) result \<times> whale_world" where
  "Create_journal E c i d w =
     (if \<not> we_complete E \<or> \<not> Validate_identity (we_uuid E) i then (Inl WInvalid, w)
      else case InitialState d of
        None \<Rightarrow> (Inl WInvalid, w)
      | Some s \<Rightarrow>
        (case load_journal E c 0 (wi_generation i) w of
           Inl e \<Rightarrow> (Inl e, w)
         | Inr (Some r) \<Rightarrow> (same_generation i d r, w)
         | Inr None \<Rightarrow>
           let r = new_record c i d s in
           if \<not> validateRecord E r then (Inl WInvalid, w)
           else if \<not> wc_prepare c then (Inl WIo, w)
           else if \<not> wc_rename c then
             ((case load_journal E c 1 (wi_generation i) w of
                 Inr (Some r1) \<Rightarrow> same_generation i d r1
               | _ \<Rightarrow> Inl WIo), w)
           else (let w1 = snd (write_record SaveOk r w) in
                 if \<not> wc_sync c then (Inl WIo, w1) else (Inr r, w1))))"

definition Save_journal :: "whale_env \<Rightarrow> whale_call \<Rightarrow> nat \<Rightarrow> wrecord \<Rightarrow> whale_world \<Rightarrow> whale_err option \<times> whale_world" where
  "Save_journal E c site next w =
     (case load_journal E c (10 + site) (wi_generation (ws_identity next)) w of
        Inl e \<Rightarrow> (Some e, w)
      | Inr None \<Rightarrow> (Some WMissing, w)
      | Inr (Some current) \<Rightarrow>
        if ws_identity current \<noteq> ws_identity next \<or> ws_direction current \<noteq> ws_direction next
           \<or> ws_created current \<noteq> ws_created next then (Some WGenerationConflict, w)
        else if ws_revision next < ws_revision current
           \<or> (ws_revision current \<noteq> 0 \<and> ws_revision next \<noteq> ws_revision current) then (Some WInvalid, w)
        else if ws_base_known current \<and> (\<not> ws_base_known next \<or> ws_base next \<noteq> ws_base current) then (Some WInvalid, w)
        else if ws_bytes next < ws_bytes current then (Some WInvalid, w)
        else if \<not> CanTransition (ws_direction next) (ws_state current) (ws_state next) then (Some WInvalid, w)
        else let next' = next\<lparr>ws_schema := GenerationSchema, ws_updated := Some (wc_now c)\<rparr> in
          if \<not> validateRecord E next' then (Some WInvalid, w)
          else (case write_record (wc_save c site) next' w of
              (True, w') \<Rightarrow> (None, w') | (False, w') \<Rightarrow> (Some WIo, w')))"

section \<open>Queue of a path\<close>

definition queue_key :: "whale_env \<Rightarrow> identity \<Rightarrow> string" where
  "queue_key E i = we_sha256 E (wi_repo i @ [CHR 0x00] @ wi_path i)"

definition load_wqueue :: "whale_env \<Rightarrow> whale_call \<Rightarrow> identity \<Rightarrow> whale_world \<Rightarrow> (whale_err, queue_record option) result" where
  "load_wqueue E c i w =
     (if \<not> wc_qread c then Inl WIo
      else case ww_queue w (queue_key E i) of
        None \<Rightarrow> Inr None
      | Some Garbage \<Rightarrow> Inl WInvalid
      | Some (Stored q) \<Rightarrow>
        if qr_schema q \<noteq> GenerationSchema \<or> qr_repo q \<noteq> wi_repo i \<or> qr_path q \<noteq> wi_path i \<or> qr_holder q = []
        then Inl WInvalid else Inr (Some q))"

definition save_wqueue :: "whale_env \<Rightarrow> whale_call \<Rightarrow> identity \<Rightarrow> queue_record \<Rightarrow> whale_world \<Rightarrow> bool \<times> whale_world" where
  "save_wqueue E c i q w =
     (let w' = w\<lparr>ww_queue := (ww_queue w)(queue_key E i := Some (Stored q))\<rparr> in
      case wc_qsave c of SaveOk \<Rightarrow> (True, w') | SaveFail \<Rightarrow> (False, w) | SaveUnsynced \<Rightarrow> (False, w'))"

text \<open>The result is the position in the queue; zero is the holder.\<close>

definition Claim :: "whale_env \<Rightarrow> whale_call \<Rightarrow> identity \<Rightarrow> whale_world \<Rightarrow> (whale_err, nat) result \<times> whale_world" where
  "Claim E c i w =
     (if \<not> we_complete E \<or> \<not> Validate_identity (we_uuid E) i then (Inl WInvalid, w)
      else if \<not> wc_qlock c then (Inl WIo, w)
      else case load_wqueue E c i w of
        Inl e \<Rightarrow> (Inl e, w)
      | Inr None \<Rightarrow>
        (case save_wqueue E c i \<lparr>qr_schema = GenerationSchema, qr_repo = wi_repo i, qr_path = wi_path i,
                qr_holder = wi_generation i, qr_waiting = []\<rparr> w of
           (True, w') \<Rightarrow> (Inr 0, w') | (False, w') \<Rightarrow> (Inl WIo, w'))
      | Inr (Some q) \<Rightarrow>
        if qr_holder q = wi_generation i then (Inr 0, w)
        else if wi_generation i \<in> set (qr_waiting q) then
          (Inr (Suc (length (takeWhile (\<lambda>g. g \<noteq> wi_generation i) (qr_waiting q)))), w)
        else (case save_wqueue E c i (q\<lparr>qr_waiting := qr_waiting q @ [wi_generation i]\<rparr>) w of
            (True, w') \<Rightarrow> (Inr (Suc (length (qr_waiting q))), w') | (False, w') \<Rightarrow> (Inl WIo, w')))"

definition Release_path :: "whale_env \<Rightarrow> whale_call \<Rightarrow> identity \<Rightarrow> whale_world \<Rightarrow> whale_err option \<times> whale_world" where
  "Release_path E c i w =
     (if \<not> we_complete E then (Some WInvalid, w)
      else if \<not> wc_qlock c then (Some WIo, w)
      else case load_wqueue E c i w of
        Inl e \<Rightarrow> (Some e, w)
      | Inr None \<Rightarrow> (None, w)
      | Inr (Some q) \<Rightarrow>
        if qr_holder q \<noteq> wi_generation i then
          (if wi_generation i \<in> set (qr_waiting q) then (Some WInvalid, w) else (None, w))
        else (case qr_waiting q of
            [] \<Rightarrow> if wc_qremove c then (None, w\<lparr>ww_queue := (ww_queue w)(queue_key E i := None)\<rparr>) else (Some WIo, w)
          | g # gs \<Rightarrow>
            (case save_wqueue E c i (q\<lparr>qr_holder := g, qr_waiting := gs\<rparr>) w of
               (True, w') \<Rightarrow> (None, w') | (False, w') \<Rightarrow> (Some WIo, w'))))"

section \<open>Receiving windows\<close>

record put_result =
  pr_generation :: string
  pr_offset :: int
  pr_state :: wstate
  pr_revision :: int

definition result_of :: "wrecord \<Rightarrow> put_result" where
  "result_of r = \<lparr>pr_generation = wi_generation (ws_identity r), pr_offset = ws_bytes r, pr_state = ws_state r,
     pr_revision = ws_revision r\<rparr>"

text \<open>\<open>ResolveWhale\<close> places a repository under the root by its identifier.\<close>

definition repository_path :: "whale_env \<Rightarrow> string \<Rightarrow> string" where
  "repository_path E repo = go_join [we_root E, repo]"

definition authorize_put :: "whale_env \<Rightarrow> whale_call \<Rightarrow> string \<Rightarrow> bool \<Rightarrow> (whale_err, string) result" where
  "authorize_put E c repo write =
     (if \<not> we_complete E then Inl WInvalid
      else case wc_access c of
        None \<Rightarrow> Inl WAccessDenied
      | Some access \<Rightarrow>
        if (write \<and> access \<noteq> ''rw'') \<or> \<not> is_abs (repository_path E repo) then Inl WAccessDenied
        else Inr (repository_path E repo))"

definition requireRecord :: "whale_env \<Rightarrow> whale_call \<Rightarrow> identity \<Rightarrow> whale_world \<Rightarrow> (whale_err, wrecord) result" where
  "requireRecord E c i w =
     (if \<not> Validate_identity (we_uuid E) i then Inl WInvalid
      else case load_journal E c 2 (wi_generation i) w of
        Inl e \<Rightarrow> Inl e
      | Inr None \<Rightarrow> Inl WMissing
      | Inr (Some r) \<Rightarrow> if ws_identity r \<noteq> i \<or> ws_direction r \<noteq> DirectionPut then Inl WGenerationConflict else Inr r)"

definition reserve_put :: "whale_call \<Rightarrow> string \<Rightarrow> int \<Rightarrow> whale_world \<Rightarrow> whale_err option \<times> whale_world" where
  "reserve_put c op content w =
     (case Reserve (wc_reserve c) op content (ww_ledger w) of
        (Inl (ResUnavailable available required), l) \<Rightarrow> (Some (WInsufficientSpace available required), w\<lparr>ww_ledger := l\<rparr>)
      | (Inl e, l) \<Rightarrow> (Some WIo, w\<lparr>ww_ledger := l\<rparr>)
      | (Inr v, l) \<Rightarrow> (None, w\<lparr>ww_ledger := l\<rparr>))"

definition PayloadPath :: "whale_env \<Rightarrow> whale_call \<Rightarrow> string \<Rightarrow> whale_world \<Rightarrow> whale_err option" where
  "PayloadPath E c g w = (case load_journal E c 3 g w of Inl e \<Rightarrow> Some e | Inr _ \<Rightarrow> None)"

text \<open>
  The partial file after the call, and whether all of the window was written and synced. What
  lies beyond the durable offset is cut off first; \<open>wc_written\<close> is the number of bytes after
  which writing failed.
\<close>

definition appendWindow :: "whale_call \<Rightarrow> string option \<Rightarrow> int \<Rightarrow> int \<Rightarrow> bool \<times> string option" where
  "appendWindow c old offset count =
     (if \<not> wc_open c then (False, old)
      else let file = (case old of None \<Rightarrow> [] | Some b \<Rightarrow> b) in
        if int (length file) < offset then (False, Some file)
        else if int (length file) > offset \<and> \<not> wc_truncate c then (False, Some file)
        else let file1 = take (nat offset) file in
          if \<not> wc_seek c then (False, Some file1)
          else let n = min (nat count) (length (wc_stream c));
                   m = (case wc_written c of None \<Rightarrow> n | Some k \<Rightarrow> min k n) in
            (m = nat count \<and> wc_written c = None \<and> wc_fsync c, Some (file1 @ take m (wc_stream c))))"

definition digestFile :: "whale_env \<Rightarrow> whale_call \<Rightarrow> string option \<Rightarrow> (string \<times> int) option" where
  "digestFile E c file =
     (if \<not> wc_digest c then None
      else case file of None \<Rightarrow> None | Some b \<Rightarrow> Some (we_sha256 E b, int (length b)))"

definition release_put :: "whale_call \<Rightarrow> string \<Rightarrow> whale_world \<Rightarrow> bool \<times> whale_world" where
  "release_put c op w =
     (let (ok, l) = Release_res (wc_release c) op (ww_ledger w) in (ok, w\<lparr>ww_ledger := l\<rparr>))"

definition cleanup :: "whale_env \<Rightarrow> whale_call \<Rightarrow> identity \<Rightarrow> whale_world \<Rightarrow> whale_err option \<times> whale_world" where
  "cleanup E c i w =
     (case release_put c (wi_generation i) w of
        (ok, w1) \<Rightarrow>
        (case Release_path E c i w1 of
           (e, w2) \<Rightarrow> (if \<not> ok then Some WIo else e, w2)))"

text \<open>The record in memory after the call is returned with the error, as in the code.\<close>

definition check_digest :: "whale_env \<Rightarrow> whale_call \<Rightarrow> wrecord \<Rightarrow> whale_world \<Rightarrow> whale_err option \<times> wrecord \<times> whale_world" where
  "check_digest E c r w =
     (case digestFile E c (ww_payload w (wi_generation (ws_identity r))) of
        None \<Rightarrow> (Some WIo, r, w)
      | Some (digest, n) \<Rightarrow>
        if n \<noteq> wi_size (ws_identity r) \<or> digest \<noteq> wi_sha256 (ws_identity r) then
          (let r1 = r\<lparr>ws_state := StateRejected\<rparr> in
           case Save_journal E c 2 r1 w of
             (Some e, w1) \<Rightarrow> (Some e, r1, w1)
           | (None, w1) \<Rightarrow> (Some WDigestMismatch, r1, snd (cleanup E c (ws_identity r) w1)))
        else
          (let r1 = r\<lparr>ws_state := StateCommitting\<rparr> in
           case Save_journal E c 3 r1 w of (e, w1) \<Rightarrow> (e, r1, w1)))"

definition prepareCommit :: "whale_env \<Rightarrow> whale_call \<Rightarrow> wrecord \<Rightarrow> whale_world \<Rightarrow> whale_err option \<times> wrecord \<times> whale_world" where
  "prepareCommit E c r w =
     (if ws_state r = StateReceiving then
        (let r1 = r\<lparr>ws_state := StateValidating\<rparr> in
         case Save_journal E c 1 r1 w of
           (Some e, w1) \<Rightarrow> (Some e, r1, w1)
         | (None, w1) \<Rightarrow> check_digest E c r1 w1)
      else check_digest E c r w)"

text \<open>\<open>ServeWindow\<close> up to the claim, and its part under the lock of the generation.\<close>

definition serve_begin :: "whale_env \<Rightarrow> whale_call \<Rightarrow> wrequest \<Rightarrow> whale_world \<Rightarrow> whale_err option \<times> whale_world" where
  "serve_begin E c rq w =
     (if wq_operation rq \<noteq> OpPutWindow \<or> \<not> Validate_request (we_uuid E) rq then (Some WInvalid, w)
      else case authorize_put E c (wi_repo (wq_identity rq)) True of
        Inl e \<Rightarrow> (Some e, w)
      | Inr _ \<Rightarrow>
        (case Create_journal E c (wq_identity rq) DirectionPut w of
           (Inl e, w1) \<Rightarrow> (Some e, w1)
         | (Inr r, w1) \<Rightarrow> if ws_state r \<noteq> StateReceiving then (Some WOffsetConflict, w1) else (None, w1)))"

definition append_locked :: "whale_env \<Rightarrow> whale_call \<Rightarrow> wrequest \<Rightarrow> wrecord \<Rightarrow> whale_world \<Rightarrow> (whale_err, put_result) result \<times> whale_world" where
  "append_locked E c rq r w =
     (let g = wi_generation (ws_identity r) in
      case appendWindow c (ww_payload w g) (ws_bytes r) (wq_payload rq) of
        (False, file) \<Rightarrow> (Inl WIo, w\<lparr>ww_payload := (ww_payload w)(g := file)\<rparr>)
      | (True, file) \<Rightarrow>
        let w1 = w\<lparr>ww_payload := (ww_payload w)(g := file)\<rparr>;
            r1 = r\<lparr>ws_bytes := ws_bytes r + wq_payload rq\<rparr> in
        (case Save_journal E c 0 r1 w1 of
           (Some e, w2) \<Rightarrow> (Inl e, w2)
         | (None, w2) \<Rightarrow>
           if ws_bytes r1 = wi_size (ws_identity r1) then
             (case prepareCommit E c r1 w2 of
                (Some e, _, w3) \<Rightarrow> (Inl e, w3)
              | (None, r2, w3) \<Rightarrow> (Inr (result_of r2), w3))
           else (Inr (result_of r1), w2)))"

definition window_locked :: "whale_env \<Rightarrow> whale_call \<Rightarrow> wrequest \<Rightarrow> whale_world \<Rightarrow> (whale_err, put_result) result \<times> whale_world" where
  "window_locked E c rq w =
     (if \<not> wc_lock c then (Inl WIo, w)
      else case requireRecord E c (wq_identity rq) w of
        Inl e \<Rightarrow> (Inl e, w)
      | Inr r \<Rightarrow>
        if ws_state r \<noteq> StateReceiving \<or> ws_bytes r \<noteq> wq_offset rq then (Inl WOffsetConflict, w)
        else (case reserve_put c (wi_generation (ws_identity r)) (wi_size (ws_identity r)) w of
            (Some e, w1) \<Rightarrow> (Inl e, w1)
          | (None, w1) \<Rightarrow>
            if \<not> wc_ready c then (Inl WIo, w1)
            else (case PayloadPath E c (wi_generation (ws_identity r)) w1 of
                Some e \<Rightarrow> (Inl e, w1)
              | None \<Rightarrow> append_locked E c rq r w1)))"

text \<open>The whole request, with the surroundings of each of its three parts.\<close>

definition ServeWindow ::
    "whale_env \<Rightarrow> whale_call \<Rightarrow> whale_call \<Rightarrow> whale_call \<Rightarrow> wrequest \<Rightarrow> whale_world \<Rightarrow> (whale_err, put_result) result \<times> whale_world" where
  "ServeWindow E c1 c2 c3 rq w =
     (case serve_begin E c1 rq w of
        (Some e, w1) \<Rightarrow> (Inl e, w1)
      | (None, w1) \<Rightarrow>
        (case Claim E c2 (wq_identity rq) w1 of
           (Inl e, w2) \<Rightarrow> (Inl e, w2)
         | (Inr position, w2) \<Rightarrow>
           if position \<noteq> 0 then (Inl (WBusy position), w2) else window_locked E c3 rq w2))"

section \<open>Publication\<close>

definition youngest :: "whale_repo \<Rightarrow> int" where
  "youngest p = int (length (wp_revisions p))"

definition commit_foreign :: "whale_call \<Rightarrow> nat \<Rightarrow> string \<Rightarrow> whale_world \<Rightarrow> whale_world" where
  "commit_foreign c phase path w =
     w\<lparr>ww_repo := (ww_repo w)(path := (ww_repo w path)
        \<lparr>wp_revisions := wp_revisions (ww_repo w path) @ si_foreign (wc_svn c) phase\<rparr>)\<rparr>"

text \<open>The loop of \<open>findGeneration\<close> over the revisions from \<open>n\<close> on; zero is not found.\<close>

fun find_loop :: "(int \<Rightarrow> bool) \<Rightarrow> string \<Rightarrow> int \<Rightarrow> whale_rev list \<Rightarrow> int option" where
  "find_loop ok g n [] = Some 0"
| "find_loop ok g n (v # vs) =
     (if \<not> ok n then None else if wv_generation v = Some g then Some n else find_loop ok g (n + 1) vs)"

definition findGeneration :: "whale_call \<Rightarrow> nat \<Rightarrow> whale_repo \<Rightarrow> int \<Rightarrow> string \<Rightarrow> int option" where
  "findGeneration c site p first g =
     (if \<not> si_youngest (wc_svn c) site then None
      else find_loop (si_props (wc_svn c) site) g first (drop (nat (first - 1)) (wp_revisions p)))"

text \<open>The transactions left after the loop; \<open>False\<close> when it returned an error.\<close>

fun remove_loop :: "svn_answers \<Rightarrow> string \<Rightarrow> string list \<Rightarrow> (string \<times> whale_rev) list \<Rightarrow> bool \<times> (string \<times> whale_rev) list" where
  "remove_loop a g [] txns = (True, txns)"
| "remove_loop a g (t # ts) txns =
     (case si_txn a t of
        TxnError \<Rightarrow> (False, txns)
      | TxnGone \<Rightarrow> remove_loop a g ts txns
      | TxnRead \<Rightarrow>
        if Option.bind (map_of txns t) wv_generation \<noteq> Some g then remove_loop a g ts txns
        else if si_rmtxns a t then remove_loop a g ts (filter (\<lambda>x. fst x \<noteq> t) txns)
        else (False, txns))"

definition removeAbandoned :: "whale_call \<Rightarrow> string \<Rightarrow> whale_repo \<Rightarrow> bool \<times> whale_repo" where
  "removeAbandoned c g p =
     (if \<not> si_lstxns (wc_svn c) then (False, p)
      else let (ok, txns) = remove_loop (wc_svn c) g (map fst (wp_txns p)) (wp_txns p) in (ok, p\<lparr>wp_txns := txns\<rparr>))"

text \<open>A process that outlived its worker commits the transaction it was building.\<close>

definition commit_txn :: "string \<Rightarrow> whale_repo \<Rightarrow> whale_repo" where
  "commit_txn t p =
     (case map_of (wp_txns p) t of
        None \<Rightarrow> p
      | Some v \<Rightarrow> p\<lparr>wp_revisions := wp_revisions p @ [v], wp_txns := filter (\<lambda>x. fst x \<noteq> t) (wp_txns p)\<rparr>)"

definition mkdir_args :: "(string \<Rightarrow> bool) \<Rightarrow> string \<Rightarrow> string list" where
  "mkdir_args existing storage =
     filter (\<lambda>d. \<not> existing (d @ ''/''))
       (map (\<lambda>n. join ''/'' (take n (split_on CHR 0x2F storage))) [1 ..< length (split_on CHR 0x2F storage)])"

definition svnmucc :: "mucc_outcome \<Rightarrow> whale_rev \<Rightarrow> whale_repo \<Rightarrow> bool \<times> whale_repo" where
  "svnmucc out v p =
     (case out of
        MuccFail None \<Rightarrow> (False, p)
      | MuccFail (Some t) \<Rightarrow> (False, p\<lparr>wp_txns := wp_txns p @ [(t, v)]\<rparr>)
      | MuccLost \<Rightarrow> (False, p\<lparr>wp_revisions := wp_revisions p @ [v]\<rparr>)
      | MuccOk \<Rightarrow> (True, p\<lparr>wp_revisions := wp_revisions p @ [v]\<rparr>))"

definition set_repo :: "string \<Rightarrow> whale_repo \<Rightarrow> whale_world \<Rightarrow> whale_world" where
  "set_repo path p w = w\<lparr>ww_repo := (ww_repo w)(path := p)\<rparr>"

definition whale_revision :: "(string \<Rightarrow> bool) \<Rightarrow> string \<Rightarrow> identity \<Rightarrow> string \<Rightarrow> whale_rev" where
  "whale_revision existing storage i bytes =
     \<lparr>wv_generation = Some (wi_generation i), wv_sha256 = Some (wi_sha256 i),
      wv_mkdirs = mkdir_args existing storage, wv_put = Some (storage, bytes)\<rparr>"

text \<open>The part of \<open>PublishWhale\<close> that found no revision of the generation.\<close>

definition publish_new ::
    "whale_env \<Rightarrow> whale_call \<Rightarrow> string \<Rightarrow> string \<Rightarrow> wrecord \<Rightarrow> whale_world \<Rightarrow> (whale_err, int) result \<times> whale_world" where
  "publish_new E c path storage r w =
     (let g = wi_generation (ws_identity r);
          p0 = foldl (\<lambda>p t. commit_txn t p) (ww_repo w path) (si_orphans (wc_svn c)) in
      case removeAbandoned c g p0 of
        (False, p1) \<Rightarrow> (Inl WIo, set_repo path p1 w)
      | (True, p1) \<Rightarrow>
        let w1 = commit_foreign c 2 path (set_repo path p1 w) in
        (case si_tree (wc_svn c) of
           None \<Rightarrow> (Inl WIo, w1)
         | Some existing \<Rightarrow>
           (case ww_payload w1 g of
              None \<Rightarrow> (Inl WIo, w1)
            | Some bytes \<Rightarrow>
              (case svnmucc (si_mucc (wc_svn c)) (whale_revision existing storage (ws_identity r) bytes) (ww_repo w1 path) of
                 (False, p2) \<Rightarrow> (Inl WIo, set_repo path p2 w1)
               | (True, p2) \<Rightarrow>
                 let w2 = commit_foreign c 3 path (set_repo path p2 w1) in
                 (case findGeneration c 2 (ww_repo w2 path) (ws_base r + 1) g of
                    None \<Rightarrow> (Inl WIo, w2)
                  | Some n \<Rightarrow> if n = 0 then (Inl WInvalid, w2) else (Inr n, w2))))))"

definition PublishWhale ::
    "whale_env \<Rightarrow> whale_call \<Rightarrow> string \<Rightarrow> wrecord \<Rightarrow> whale_world \<Rightarrow> (whale_err, int \<times> wrecord) result \<times> whale_world" where
  "PublishWhale E c path r w =
     (if ws_state r \<noteq> StateCommitting \<or> \<not> is_abs path \<or> \<not> we_complete E then (Inl WInvalid, w)
      else case StoragePath (we_uuid E) (ws_identity r) of
        Inl e \<Rightarrow> (Inl e, w)
      | Inr storage \<Rightarrow>
        let w0 = commit_foreign c 0 path w;
            r1 = (if ws_base_known r then r else r\<lparr>ws_base := youngest (ww_repo w0 path), ws_base_known := True\<rparr>) in
        if \<not> ws_base_known r \<and> \<not> si_youngest (wc_svn c) 0 then (Inl WIo, w0)
        else (case (if ws_base_known r then (None, w0) else Save_journal E c 4 r1 w0) of
            (Some e, w1) \<Rightarrow> (Inl e, w1)
          | (None, w1) \<Rightarrow>
            let w2 = commit_foreign c 1 path w1 in
            (case findGeneration c 1 (ww_repo w2 path) (ws_base r1 + 1) (wi_generation (ws_identity r1)) of
               None \<Rightarrow> (Inl WIo, w2)
             | Some n \<Rightarrow>
               if n \<noteq> 0 then (Inr (n, r1), w2)
               else (case publish_new E c path storage r1 w2 of
                   (Inl e, w3) \<Rightarrow> (Inl e, w3)
                 | (Inr m, w3) \<Rightarrow> (Inr (m, r1), w3)))))"

section \<open>Commit and status\<close>

definition publish_locked :: "whale_env \<Rightarrow> whale_call \<Rightarrow> string \<Rightarrow> wrecord \<Rightarrow> whale_world \<Rightarrow> (whale_err, put_result) result \<times> whale_world" where
  "publish_locked E c path r w =
     (if ws_state r \<noteq> StateCommitting then (Inl WInvalid, w)
      else case PublishWhale E c path r w of
        (Inl e, w1) \<Rightarrow> (Inl e, w1)
      | (Inr (n, r1), w1) \<Rightarrow>
        let r2 = r1\<lparr>ws_revision := n, ws_state := StatePublished\<rparr> in
        (case Save_journal E c 5 r2 w1 of
           (Some e, w2) \<Rightarrow> (Inl e, w2)
         | (None, w2) \<Rightarrow>
           (case cleanup E c (ws_identity r2) w2 of
              (Some e, w3) \<Rightarrow> (Inl e, w3)
            | (None, w3) \<Rightarrow> (Inr (result_of r2), w3))))"

definition commitLocked :: "whale_env \<Rightarrow> whale_call \<Rightarrow> identity \<Rightarrow> whale_world \<Rightarrow> (whale_err, put_result) result \<times> whale_world" where
  "commitLocked E c i w =
     (case authorize_put E c (wi_repo i) True of
        Inl e \<Rightarrow> (Inl e, w)
      | Inr path \<Rightarrow>
        (case requireRecord E c i w of
           Inl e \<Rightarrow> (Inl e, w)
         | Inr r \<Rightarrow>
           if ws_state r = StatePublished then
             (case cleanup E c (ws_identity r) w of
                (Some e, w1) \<Rightarrow> (Inl e, w1)
              | (None, w1) \<Rightarrow> (Inr (result_of r), w1))
           else if Terminal (ws_state r) then (Inl WTerminal, w)
           else (case reserve_put c (wi_generation (ws_identity r)) (wi_size (ws_identity r)) w of
               (Some e, w1) \<Rightarrow> (Inl e, w1)
             | (None, w1) \<Rightarrow>
               (case PayloadPath E c (wi_generation (ws_identity r)) w1 of
                  Some e \<Rightarrow> (Inl e, w1)
                | None \<Rightarrow>
                  if ws_state r = StateReceiving \<or> ws_state r = StateValidating then
                    (if ws_bytes r \<noteq> wi_size (ws_identity r) then (Inl WIncomplete, w1)
                     else case prepareCommit E c r w1 of
                       (Some e, _, w2) \<Rightarrow> (Inl e, w2)
                     | (None, r1, w2) \<Rightarrow> publish_locked E c path r1 w2)
                  else publish_locked E c path r w1))))"

definition Commit_put :: "whale_env \<Rightarrow> whale_call \<Rightarrow> identity \<Rightarrow> whale_world \<Rightarrow> (whale_err, put_result) result \<times> whale_world" where
  "Commit_put E c i w =
     (if \<not> Validate_identity (we_uuid E) i then (Inl WInvalid, w)
      else if \<not> wc_lock c then (Inl WIo, w)
      else commitLocked E c i w)"

definition Status_put :: "whale_env \<Rightarrow> whale_call \<Rightarrow> identity \<Rightarrow> whale_world \<Rightarrow> (whale_err, put_result) result" where
  "Status_put E c i w =
     (case authorize_put E c (wi_repo i) False of
        Inl e \<Rightarrow> Inl e
      | Inr _ \<Rightarrow> (case requireRecord E c i w of Inl e \<Rightarrow> Inl e | Inr r \<Rightarrow> Inr (result_of r)))"

end
