(* ===== verification/Whale_Inv.thy ===== *)
theory Whale_Inv
  imports Whale_Worker
begin

text \<open>
  Runs of the Whale upload service, and their invariant. A run interleaves the parts of
  requests that are atomic: the creation of a generation, the claim of a path under the queue
  lock, and what happens under the lock of a generation; between them, and inside a
  publication, others commit to the repositories. Each part is a sequence of elementary
  effects, and every elementary effect keeps the invariant.
\<close>

section \<open>Views of the world\<close>

definition rec_at :: "whale_world \<Rightarrow> string \<Rightarrow> wrecord option" where
  "rec_at w g = (case ww_journal w g of Some (Stored r) \<Rightarrow> Some r | _ \<Rightarrow> None)"

definition bytes_of :: "whale_world \<Rightarrow> string \<Rightarrow> string" where
  "bytes_of w g = (case ww_payload w g of None \<Rightarrow> [] | Some b \<Rightarrow> b)"

definition holds_path :: "whale_env \<Rightarrow> identity \<Rightarrow> whale_world \<Rightarrow> bool" where
  "holds_path E i w \<longleftrightarrow> (\<exists>q. ww_queue w (queue_key E i) = Some (Stored q) \<and> qr_repo q = wi_repo i
     \<and> qr_path q = wi_path i \<and> qr_holder q = wi_generation i)"

text \<open>The payload of a generation is what its identity declares.\<close>

definition declared :: "whale_env \<Rightarrow> identity \<Rightarrow> string \<Rightarrow> bool" where
  "declared E i b \<longleftrightarrow> int (length b) = wi_size i \<and> we_sha256 E b = wi_sha256 i"

definition of_generation :: "string \<Rightarrow> whale_rev \<Rightarrow> bool" where
  "of_generation g v \<longleftrightarrow> wv_generation v = Some g"

definition published_revs :: "string \<Rightarrow> whale_repo \<Rightarrow> whale_rev list" where
  "published_revs g p = filter (of_generation g) (wp_revisions p)"

definition open_txns :: "string \<Rightarrow> whale_repo \<Rightarrow> (string \<times> whale_rev) list" where
  "open_txns g p = filter (\<lambda>x. of_generation g (snd x)) (wp_txns p)"

definition revision_is :: "string \<Rightarrow> int \<Rightarrow> whale_repo \<Rightarrow> bool" where
  "revision_is g n p \<longleftrightarrow> 1 \<le> n \<and> n \<le> youngest p \<and> of_generation g (wp_revisions p ! nat (n - 1))"

abbreviation gen_of :: "wrecord \<Rightarrow> string" where
  "gen_of r \<equiv> wi_generation (ws_identity r)"

abbreviation home :: "whale_env \<Rightarrow> wrecord \<Rightarrow> string" where
  "home E r \<equiv> repository_path E (wi_repo (ws_identity r))"

section \<open>Elementary effects\<close>

text \<open>
  What a save of the journal may change. The first group is checked by \<open>Save\<close> itself, the
  second is what its callers have established: bytes are only added while the path is held,
  committing starts with the declared payload, and publication ends with a revision.
\<close>

definition advances :: "whale_env \<Rightarrow> whale_world \<Rightarrow> wrecord \<Rightarrow> wrecord \<Rightarrow> bool" where
  "advances E w r r' \<longleftrightarrow>
     ws_identity r' = ws_identity r \<and> ws_direction r' = ws_direction r \<and> validateRecord E r'
   \<and> ws_bytes r \<le> ws_bytes r' \<and> CanTransition (ws_direction r) (ws_state r) (ws_state r')
   \<and> (ws_base_known r \<longrightarrow> ws_base_known r' \<and> ws_base r' = ws_base r)
   \<and> (ws_revision r \<noteq> 0 \<or> ws_state r' \<noteq> StatePublished \<longrightarrow> ws_revision r' = ws_revision r)
   \<and> (ws_bytes r < ws_bytes r' \<longrightarrow> ws_state r = StateReceiving \<and> holds_path E (ws_identity r) w
        \<and> ws_bytes r' \<le> int (length (bytes_of w (gen_of r))))
   \<and> (ws_state r = StateReceiving \<and> ws_state r' \<noteq> StateReceiving \<longrightarrow> ws_bytes r = wi_size (ws_identity r))
   \<and> (ws_state r' = StateCommitting \<and> ws_state r \<noteq> StateCommitting \<longrightarrow> declared E (ws_identity r) (bytes_of w (gen_of r)))
   \<and> (\<not> ws_base_known r \<and> ws_base_known r' \<longrightarrow> ws_base r' \<le> youngest (ww_repo w (home E r)))
   \<and> (ws_state r' = StatePublished \<and> ws_state r \<noteq> StatePublished \<longrightarrow> revision_is (gen_of r) (ws_revision r') (ww_repo w (home E r)))
   \<and> (ws_state r = StateCommitting \<longrightarrow> ws_state r' \<in> {StateCommitting, StatePublished})
   \<and> ws_state r' \<noteq> StateCancelled"

definition put_record :: "wrecord \<Rightarrow> whale_world \<Rightarrow> whale_world" where
  "put_record r w = w\<lparr>ww_journal := (ww_journal w)(gen_of r := Some (Stored r))\<rparr>"

definition put_payload :: "string \<Rightarrow> string option \<Rightarrow> whale_world \<Rightarrow> whale_world" where
  "put_payload g file w = w\<lparr>ww_payload := (ww_payload w)(g := file)\<rparr>"

definition keeps_prefix :: "int \<Rightarrow> string \<Rightarrow> string \<Rightarrow> bool" where
  "keeps_prefix n old new \<longleftrightarrow> new = old \<or> n \<le> int (length new) \<and> take (nat n) new = take (nat n) old"

inductive effect :: "whale_env \<Rightarrow> bool \<Rightarrow> whale_world \<Rightarrow> whale_world \<Rightarrow> bool" for E calm where
  ledger: "effect E calm w (w\<lparr>ww_ledger := l\<rparr>)"
| create: "ww_journal w (gen_of r) = None \<Longrightarrow> validateRecord E r \<Longrightarrow> ws_direction r = DirectionPut
    \<Longrightarrow> ws_state r = StateReceiving \<Longrightarrow> ws_bytes r = 0 \<Longrightarrow> \<not> ws_base_known r \<Longrightarrow> ws_revision r = 0
    \<Longrightarrow> effect E calm w (put_record r w)"
| claim: "effect E calm w (snd (Claim E c i w))"
| partial: "rec_at w g = Some r \<Longrightarrow> ws_state r = StateReceiving \<Longrightarrow> ws_bytes r < wi_size (ws_identity r)
    \<Longrightarrow> keeps_prefix (ws_bytes r) (bytes_of w g) (bytes_of (put_payload g file w) g)
    \<Longrightarrow> effect E calm w (put_payload g file w)"
| save: "rec_at w (gen_of r') = Some r \<Longrightarrow> advances E w r r' \<Longrightarrow> effect E calm w (put_record r' w)"
| release: "rec_at w (wi_generation i) = Some r \<Longrightarrow> ws_identity r = i \<Longrightarrow> Terminal (ws_state r)
    \<Longrightarrow> effect E calm w (snd (Release_path E c i w))"
| foreign: "list_all (\<lambda>v. wv_generation v = None) vs
    \<Longrightarrow> effect E calm w (set_repo path ((ww_repo w path)\<lparr>wp_revisions := wp_revisions (ww_repo w path) @ vs\<rparr>) w)"
| orphan: "effect E calm w (set_repo path (commit_txn t (ww_repo w path)) w)"
| remove: "effect E calm w (set_repo path ((ww_repo w path)\<lparr>wp_txns := filter P (wp_txns (ww_repo w path))\<rparr>) w)"
| mucc: "rec_at w (gen_of r) = Some r \<Longrightarrow> ws_state r = StateCommitting \<Longrightarrow> ws_base_known r
    \<Longrightarrow> StoragePath (we_uuid E) (ws_identity r) = Inr storage
    \<Longrightarrow> (calm \<Longrightarrow> published_revs (gen_of r) (ww_repo w (home E r)) = [] \<and> open_txns (gen_of r) (ww_repo w (home E r)) = [])
    \<Longrightarrow> (\<And>t. out = MuccFail (Some t) \<Longrightarrow> t \<notin> fst ` set (wp_txns (ww_repo w (home E r))))
    \<Longrightarrow> effect E calm w (set_repo (home E r) (snd (svnmucc out
          (whale_revision existing storage (ws_identity r) (bytes_of w (gen_of r))) (ww_repo w (home E r)))) w)"

section \<open>The invariant\<close>

text \<open>A transfer is under way when bytes were accepted or it is past receiving.\<close>

definition under_way :: "wrecord \<Rightarrow> bool" where
  "under_way r \<longleftrightarrow> ws_state r \<in> {StateReceiving, StateValidating, StateCommitting}
     \<and> (0 < ws_bytes r \<or> ws_state r \<noteq> StateReceiving)"

definition record_ok :: "whale_env \<Rightarrow> whale_world \<Rightarrow> string \<Rightarrow> wrecord \<Rightarrow> bool" where
  "record_ok E w g r \<longleftrightarrow> gen_of r = g \<and> validateRecord E r \<and> ws_direction r = DirectionPut
   \<and> ws_state r \<in> {StateReceiving, StateValidating, StateCommitting, StatePublished, StateRejected}
   \<and> ws_bytes r \<le> int (length (bytes_of w g))
   \<and> (ws_state r \<in> {StateCommitting, StatePublished} \<longrightarrow> declared E (ws_identity r) (bytes_of w g))
   \<and> (under_way r \<longrightarrow> holds_path E (ws_identity r) w)
   \<and> (ws_base_known r \<longrightarrow> ws_base r \<le> youngest (ww_repo w (home E r))
        \<and> filter (of_generation g) (take (nat (ws_base r)) (wp_revisions (ww_repo w (home E r)))) = [])
   \<and> (ws_state r = StatePublished \<longrightarrow> revision_is g (ws_revision r) (ww_repo w (home E r)))
   \<and> (ws_state r \<noteq> StatePublished \<longrightarrow> ws_revision r = 0)"

text \<open>Every revision and every transaction of a generation is the declared file.\<close>

definition rev_ok :: "whale_env \<Rightarrow> whale_world \<Rightarrow> string \<Rightarrow> whale_rev \<Rightarrow> bool" where
  "rev_ok E w path v \<longleftrightarrow>
     (\<forall>g. of_generation g v \<longrightarrow>
       (\<exists>r existing. rec_at w g = Some r \<and> ws_state r \<in> {StateCommitting, StatePublished} \<and> ws_base_known r
          \<and> path = home E r
          \<and> v = whale_revision existing (ReservedNamespace @ ''/'' @ wi_path (ws_identity r)) (ws_identity r) (bytes_of w g)))"

definition repo_ok :: "whale_env \<Rightarrow> bool \<Rightarrow> whale_world \<Rightarrow> bool" where
  "repo_ok E calm w \<longleftrightarrow>
     (\<forall>path. list_all (rev_ok E w path) (wp_revisions (ww_repo w path))
        \<and> list_all (\<lambda>x. rev_ok E w path (snd x)) (wp_txns (ww_repo w path))
        \<and> distinct (map fst (wp_txns (ww_repo w path)))
        \<and> (calm \<longrightarrow> (\<forall>g. length (published_revs g (ww_repo w path)) + length (open_txns g (ww_repo w path)) \<le> 1)))"

definition queue_ok :: "queue_record \<Rightarrow> bool" where
  "queue_ok q \<longleftrightarrow> qr_holder q \<notin> set (qr_waiting q) \<and> distinct (qr_waiting q)"

definition world_ok :: "whale_env \<Rightarrow> bool \<Rightarrow> whale_world \<Rightarrow> bool" where
  "world_ok E calm w \<longleftrightarrow>
     (\<forall>g. ww_journal w g \<noteq> Some Garbage) \<and> (\<forall>g r. rec_at w g = Some r \<longrightarrow> record_ok E w g r)
   \<and> repo_ok E calm w
   \<and> (\<forall>k. ww_queue w k \<noteq> Some Garbage) \<and> (\<forall>k q. ww_queue w k = Some (Stored q) \<longrightarrow> queue_ok q)"

section \<open>Frames\<close>

lemma rec_at_put_record [simp]:
  "rec_at (put_record r w) g = (if g = gen_of r then Some r else rec_at w g)"
  by (simp add: rec_at_def put_record_def)

lemma put_record_fields [simp]:
  "bytes_of (put_record r w) = bytes_of w" "ww_queue (put_record r w) = ww_queue w" "ww_repo (put_record r w) = ww_repo w"
  "ww_journal (put_record r w) = (ww_journal w)(gen_of r := Some (Stored r))"
  by (simp_all add: put_record_def bytes_of_def fun_eq_iff)

lemma put_payload_fields [simp]:
  "rec_at (put_payload g f w) = rec_at w" "ww_queue (put_payload g f w) = ww_queue w" "ww_repo (put_payload g f w) = ww_repo w"
  "ww_journal (put_payload g f w) = ww_journal w"
  by (simp_all add: put_payload_def rec_at_def fun_eq_iff)

lemma bytes_of_put_payload: "bytes_of (put_payload g f w) h = (if h = g then (case f of None \<Rightarrow> [] | Some b \<Rightarrow> b) else bytes_of w h)"
  by (simp add: put_payload_def bytes_of_def)

lemma set_repo_fields [simp]:
  "rec_at (set_repo path p w) = rec_at w" "bytes_of (set_repo path p w) = bytes_of w"
  "ww_queue (set_repo path p w) = ww_queue w" "ww_journal (set_repo path p w) = ww_journal w"
  "ww_repo (set_repo path p w) = (ww_repo w)(path := p)"
  by (simp_all add: set_repo_def rec_at_def bytes_of_def fun_eq_iff)

lemma ledger_fields [simp]:
  "rec_at (w\<lparr>ww_ledger := l\<rparr>) = rec_at w" "bytes_of (w\<lparr>ww_ledger := l\<rparr>) = bytes_of w"
  by (simp_all add: rec_at_def bytes_of_def fun_eq_iff)

lemma queue_fields [simp]:
  "rec_at (w\<lparr>ww_queue := q\<rparr>) = rec_at w" "bytes_of (w\<lparr>ww_queue := q\<rparr>) = bytes_of w"
  by (simp_all add: rec_at_def bytes_of_def fun_eq_iff)

lemma of_generation_revision [simp]: "of_generation g (whale_revision ex st i b) \<longleftrightarrow> g = wi_generation i"
  by (auto simp: of_generation_def whale_revision_def)

lemma holds_path_cong: "ww_queue w' = ww_queue w \<Longrightarrow> holds_path E i w' = holds_path E i w"
  by (simp add: holds_path_def)

lemma rev_ok_cong: "rec_at w' = rec_at w \<Longrightarrow> bytes_of w' = bytes_of w \<Longrightarrow> rev_ok E w' = rev_ok E w"
  by (intro ext) (simp add: rev_ok_def)

lemma repo_ok_cong:
  "rec_at w' = rec_at w \<Longrightarrow> bytes_of w' = bytes_of w \<Longrightarrow> ww_repo w' = ww_repo w \<Longrightarrow> repo_ok E calm w' = repo_ok E calm w"
  by (simp add: repo_ok_def rev_ok_cong [of w' w])

lemma record_ok_cong:
  "bytes_of w' = bytes_of w \<Longrightarrow> ww_repo w' = ww_repo w \<Longrightarrow> ww_queue w' = ww_queue w \<Longrightarrow> record_ok E w' = record_ok E w"
  by (intro ext) (simp add: record_ok_def holds_path_cong [of w' w])

lemma record_ok_queue:
  "record_ok E w g r \<Longrightarrow> bytes_of w' = bytes_of w \<Longrightarrow> ww_repo w' = ww_repo w \<Longrightarrow>
   (under_way r \<Longrightarrow> holds_path E (ws_identity r) w \<Longrightarrow> holds_path E (ws_identity r) w') \<Longrightarrow> record_ok E w' g r"
  unfolding record_ok_def by auto

lemma world_okD:
  assumes "world_ok E calm w"
  shows "rec_at w g = Some r \<Longrightarrow> record_ok E w g r" "repo_ok E calm w" "ww_journal w g \<noteq> Some Garbage"
    "ww_queue w k \<noteq> Some Garbage" "ww_queue w k = Some (Stored q) \<Longrightarrow> queue_ok q"
  using assms by (auto simp: world_ok_def)

section \<open>Effects on journal, payload and queue keep the invariant\<close>

lemma effect_ledger: "world_ok E calm w \<Longrightarrow> world_ok E calm (w\<lparr>ww_ledger := l\<rparr>)"
  unfolding world_ok_def
  by (simp add: repo_ok_cong [of "w\<lparr>ww_ledger := l\<rparr>" w] record_ok_cong [of "w\<lparr>ww_ledger := l\<rparr>" w])

lemma no_rev_of:
  assumes "repo_ok E calm w" "\<And>r. rec_at w g = Some r \<Longrightarrow> ws_state r \<in> {StateCommitting, StatePublished} \<Longrightarrow> \<not> ws_base_known r"
  shows "v \<in> set (wp_revisions (ww_repo w path)) \<Longrightarrow> \<not> of_generation g v"
    and "x \<in> set (wp_txns (ww_repo w path)) \<Longrightarrow> \<not> of_generation g (snd x)"
  using assms unfolding repo_ok_def list_all_iff rev_ok_def by metis+

lemma rev_okD:
  assumes "rev_ok E w path v" "of_generation g v"
  obtains r existing where "rec_at w g = Some r" "ws_state r \<in> {StateCommitting, StatePublished}" "ws_base_known r"
    "path = home E r"
    "v = whale_revision existing (ReservedNamespace @ ''/'' @ wi_path (ws_identity r)) (ws_identity r) (bytes_of w g)"
  using assms unfolding rev_ok_def by blast

lemma rev_okI:
  assumes "of_generation g v" "rec_at w g = Some r" "ws_state r \<in> {StateCommitting, StatePublished}" "ws_base_known r"
    "path = home E r"
    "v = whale_revision existing (ReservedNamespace @ ''/'' @ wi_path (ws_identity r)) (ws_identity r) (bytes_of w g)"
  shows "rev_ok E w path v"
  unfolding rev_ok_def
proof (intro allI impI exI conjI)
  fix h assume "of_generation h v"
  then have "h = g" using assms(1) by (simp add: of_generation_def)
  then show "rec_at w h = Some r"
    "v = whale_revision existing (ReservedNamespace @ ''/'' @ wi_path (ws_identity r)) (ws_identity r) (bytes_of w h)"
    using assms(2,6) by simp_all
qed (use assms in simp_all)

text \<open>Changing what belongs to one generation leaves the revisions of the others valid.\<close>

lemma repo_ok_other:
  assumes "repo_ok E calm w" "ww_repo w' = ww_repo w"
    and "\<And>h. h \<noteq> g \<Longrightarrow> rec_at w' h = rec_at w h \<and> bytes_of w' h = bytes_of w h"
    and g: "\<And>path v. rev_ok E w path v \<Longrightarrow> of_generation g v \<Longrightarrow>
      v \<in> set (wp_revisions (ww_repo w path)) \<or> v \<in> snd ` set (wp_txns (ww_repo w path)) \<Longrightarrow> rev_ok E w' path v"
  shows "repo_ok E calm w'"
proof -
  have "rev_ok E w' path v" if "rev_ok E w path v"
    "v \<in> set (wp_revisions (ww_repo w path)) \<or> v \<in> snd ` set (wp_txns (ww_repo w path))" for path v
  proof (cases "of_generation g v")
    case False
    then show ?thesis using that(1) assms(3) unfolding rev_ok_def by metis
  qed (use g that in blast)
  then show ?thesis using assms(1,2) unfolding repo_ok_def list_all_iff by simp
qed

lemma effect_create:
  assumes "world_ok E calm w" "ww_journal w (gen_of r) = None" "validateRecord E r" "ws_direction r = DirectionPut"
    "ws_state r = StateReceiving" "ws_bytes r = 0" "\<not> ws_base_known r" "ws_revision r = 0"
  shows "world_ok E calm (put_record r w)"
proof -
  have n: "rec_at w (gen_of r) = None" using assms(2) by (simp add: rec_at_def)
  have "record_ok E w (gen_of r) r" using assms(3-) by (simp add: record_ok_def under_way_def)
  moreover have "record_ok E (put_record r w) = record_ok E w" by (rule record_ok_cong) simp_all
  moreover have "repo_ok E calm (put_record r w)"
  proof (rule repo_ok_other [where g = "gen_of r"])
    fix path v assume "rev_ok E w path v" "of_generation (gen_of r) v"
    then show "rev_ok E (put_record r w) path v" using n unfolding rev_ok_def by auto
  qed (use assms(1) in \<open>simp_all add: world_ok_def\<close>)
  ultimately show ?thesis using assms(1) unfolding world_ok_def by simp
qed

lemma effect_partial:
  assumes "world_ok E calm w" "rec_at w g = Some r" "ws_state r = StateReceiving"
    and k: "keeps_prefix (ws_bytes r) (bytes_of w g) (bytes_of (put_payload g file w) g)"
  shows "world_ok E calm (put_payload g file w)"
proof -
  let ?w = "put_payload g file w"
  note rg = world_okD(1) [OF assms(1,2)]
  have b: "bytes_of ?w h = bytes_of w h" if "h \<noteq> g" for h using that by (simp add: bytes_of_put_payload)
  have r: "record_ok E ?w h s" if "rec_at w h = Some s" for h s
  proof (cases "h = g")
    case True
    then have [simp]: "s = r" using that assms(2) by simp
    show ?thesis using rg k True assms(3) by (auto simp: record_ok_def keeps_prefix_def holds_path_cong [of ?w w])
  next
    case False
    then show ?thesis using world_okD(1) [OF assms(1) that] b by (simp add: record_ok_def holds_path_cong [of ?w w])
  qed
  have "repo_ok E calm ?w"
  proof (rule repo_ok_other [where g = g])
    fix path v assume "rev_ok E w path v" "of_generation g v"
    then obtain s where "rec_at w g = Some s" "ws_state s \<in> {StateCommitting, StatePublished}" by (rule rev_okD)
    then show "rev_ok E ?w path v" using assms(2,3) by auto
  qed (use assms(1) b in \<open>simp_all add: world_ok_def\<close>)
  with r show ?thesis using assms(1) unfolding world_ok_def by simp
qed

lemma to_published: "CanTransition DirectionPut s StatePublished \<Longrightarrow> s \<in> {StateCommitting, StatePublished}"
  by (cases s) (simp_all add: CanTransition_def Terminal_def)

lemma record_ok_declared:
  "record_ok E w g r \<Longrightarrow> ws_state r \<in> {StateCommitting, StatePublished} \<Longrightarrow> declared E (ws_identity r) (bytes_of w g)"
  unfolding record_ok_def by blast

lemma advances_declared:
  "advances E w r r' \<Longrightarrow> ws_state r' = StateCommitting \<Longrightarrow> ws_state r \<noteq> StateCommitting
   \<Longrightarrow> declared E (ws_identity r) (bytes_of w (gen_of r))"
  unfolding advances_def by blast

lemma advances_committing:
  assumes "advances E w r r'" "ws_state r \<in> {StateCommitting, StatePublished}"
  shows "ws_state r' \<in> {StateCommitting, StatePublished}"
proof (cases "ws_state r = StateCommitting")
  case True
  then show ?thesis using assms(1) unfolding advances_def by blast
next
  case False
  have "CanTransition (ws_direction r) (ws_state r) (ws_state r')" using assms(1) unfolding advances_def by blast
  then show ?thesis using assms(2) False CanTransition_terminal by (fastforce simp: Terminal_def)
qed

lemma record_ok_save:
  assumes r: "record_ok E w g r" and a: "advances E w r r'" and n: "\<not> ws_base_known r \<Longrightarrow>
    filter (of_generation g) (wp_revisions (ww_repo w (home E r))) = []"
  shows "record_ok E w g r'"
proof -
  have i: "ws_identity r' = ws_identity r" "ws_direction r' = DirectionPut" "gen_of r = g" "validateRecord E r'"
    using r a by (simp_all add: record_ok_def advances_def)
  have st: "CanTransition DirectionPut (ws_state r) (ws_state r')" using r a by (simp add: record_ok_def advances_def)
  have size: "1 \<le> wi_size (ws_identity r)" using i(1,4) by (simp add: validateRecord_def Validate_identity_def)
  have s: "ws_state r' \<in> {StateReceiving, StateValidating, StateCommitting, StatePublished, StateRejected}"
    using i(2,4) a by (auto simp: validateRecord_def known_state_def InitialState_def advances_def)
  have b: "ws_bytes r' \<le> int (length (bytes_of w g))"
    using r a by (cases "ws_bytes r < ws_bytes r'") (auto simp: record_ok_def advances_def)
  have d: "declared E (ws_identity r) (bytes_of w g)" if "ws_state r' \<in> {StateCommitting, StatePublished}"
  proof (cases "ws_state r \<in> {StateCommitting, StatePublished}")
    case False
    have "ws_state r' \<noteq> StatePublished" using False st to_published [of "ws_state r"] by (intro notI) simp
    then have "ws_state r' = StateCommitting" "ws_state r \<noteq> StateCommitting" using False that by simp_all
    then show ?thesis using advances_declared [OF a] i(3) by simp
  qed (rule record_ok_declared [OF r])
  have h: "holds_path E (ws_identity r) w" if u: "under_way r'"
  proof (cases "ws_bytes r < ws_bytes r' \<or> under_way r")
    case True
    then show ?thesis using r a by (auto simp: record_ok_def advances_def)
  next
    case False
    then have "ws_state r \<notin> {StateReceiving, StateValidating, StateCommitting} \<or> ws_state r = StateReceiving \<and> ws_bytes r \<le> 0"
      by (auto simp: under_way_def)
    then show ?thesis
    proof
      assume "ws_state r \<notin> {StateReceiving, StateValidating, StateCommitting}"
      then have "Terminal (ws_state r)" using r by (auto simp: record_ok_def Terminal_def)
      then have "ws_state r' = ws_state r" using CanTransition_terminal [OF st] by simp
      then show ?thesis using u \<open>ws_state r \<notin> _\<close> by (simp add: under_way_def)
    next
      assume z: "ws_state r = StateReceiving \<and> ws_bytes r \<le> 0"
      then have "ws_state r' \<noteq> StateReceiving" using u False by (auto simp: under_way_def)
      then have "ws_bytes r = wi_size (ws_identity r)" using z a by (simp add: advances_def)
      then show ?thesis using z size by simp
    qed
  qed
  have base: "ws_base r' \<le> youngest (ww_repo w (home E r))
      \<and> filter (of_generation g) (take (nat (ws_base r')) (wp_revisions (ww_repo w (home E r)))) = []" if "ws_base_known r'"
  proof (cases "ws_base_known r")
    case True
    then show ?thesis using r a by (simp add: record_ok_def advances_def)
  next
    case False
    then show ?thesis using n [OF False] that a by (auto simp: advances_def filter_empty_conv dest: in_set_takeD)
  qed
  have "revision_is g (ws_revision r') (ww_repo w (home E r))" if p: "ws_state r' = StatePublished"
  proof (cases "ws_state r = StatePublished")
    case True
    then have "ws_revision r \<noteq> 0" using r by (simp add: record_ok_def validateRecord_def)
    then show ?thesis using True r a by (simp add: record_ok_def advances_def)
  next
    case False
    then show ?thesis using p a i(3) by (simp add: advances_def)
  qed
  moreover have "ws_revision r' = 0" if p: "ws_state r' \<noteq> StatePublished"
  proof -
    have "ws_state r \<noteq> StatePublished"
      using p CanTransition_terminal [OF st] by (auto simp: Terminal_def)
    then have "ws_revision r = 0" using r unfolding record_ok_def by blast
    moreover have "ws_revision r' = ws_revision r" using a p unfolding advances_def by blast
    ultimately show ?thesis by simp
  qed
  ultimately show ?thesis using i s b d h base by (simp add: record_ok_def)
qed

lemma effect_save:
  assumes "world_ok E calm w" "rec_at w (gen_of r') = Some r" "advances E w r r'"
  shows "world_ok E calm (put_record r' w)"
proof -
  note rg = world_okD(1) [OF assms(1,2)] and rp = world_okD(2) [OF assms(1)]
  have i: "ws_identity r' = ws_identity r" using assms(3) by (simp add: advances_def)
  have "filter (of_generation (gen_of r')) (wp_revisions (ww_repo w (home E r))) = []" if "\<not> ws_base_known r"
    unfolding filter_empty_conv by (intro ballI no_rev_of(1) [OF rp]) (use assms(2) that in simp_all)
  from record_ok_save [OF rg assms(3) this] have "record_ok E w (gen_of r') r'" .
  moreover have "record_ok E (put_record r' w) = record_ok E w" by (rule record_ok_cong) simp_all
  moreover have "repo_ok E calm (put_record r' w)"
  proof (rule repo_ok_other [where g = "gen_of r'"])
    fix path v assume v: "rev_ok E w path v" "of_generation (gen_of r') v"
    from v obtain r0 existing where r0: "rec_at w (gen_of r') = Some r0" "ws_state r0 \<in> {StateCommitting, StatePublished}"
      "ws_base_known r0" "path = home E r0"
      "v = whale_revision existing (ReservedNamespace @ ''/'' @ wi_path (ws_identity r0)) (ws_identity r0) (bytes_of w (gen_of r'))"
      by (rule rev_okD)
    have "r0 = r" using r0(1) assms(2) by simp
    note s = r0(2-4) [unfolded this] and v' = r0(5) [unfolded this]
    have "ws_state r' \<in> {StateCommitting, StatePublished}" by (rule advances_committing [OF assms(3) s(1)])
    moreover have "ws_base_known r'" using s(2) assms(3) by (simp add: advances_def)
    ultimately show "rev_ok E (put_record r' w) path v"
      using s(3) v' i by (intro rev_okI [where g = "gen_of r'" and r = r']) (simp_all add: v(2))
  qed (use assms(1) in \<open>simp_all add: world_ok_def\<close>)
  ultimately show ?thesis using assms(1) unfolding world_ok_def by simp
qed

text \<open>
  The queue of a path changes in three ways: the first claim takes it, a later one waits at
  the end, and its holder passes it on or leaves it empty.
\<close>

inductive queue_change :: "string \<Rightarrow> queue_record option \<Rightarrow> queue_record option \<Rightarrow> bool" for g where
  same: "queue_change g q q"
| take_over: "qr_holder q = g \<Longrightarrow> qr_waiting q = [] \<Longrightarrow> queue_change g None (Some q)"
| wait: "qr_holder q \<noteq> g \<Longrightarrow> g \<notin> set (qr_waiting q) \<Longrightarrow> queue_change g (Some q) (Some (q\<lparr>qr_waiting := qr_waiting q @ [g]\<rparr>))"
| leave: "qr_holder q = g \<Longrightarrow> qr_waiting q = [] \<Longrightarrow> queue_change g (Some q) None"
| pass_on: "qr_holder q = g \<Longrightarrow> qr_waiting q = h # hs \<Longrightarrow> queue_change g (Some q) (Some (q\<lparr>qr_holder := h, qr_waiting := hs\<rparr>))"

definition queue_at :: "whale_world \<Rightarrow> string \<Rightarrow> queue_record option" where
  "queue_at w k = (case ww_queue w k of Some (Stored q) \<Rightarrow> Some q | _ \<Rightarrow> None)"

lemma holds_path_iff:
  "holds_path E i w \<longleftrightarrow> (\<exists>q. queue_at w (queue_key E i) = Some q \<and> qr_repo q = wi_repo i \<and> qr_path q = wi_path i
     \<and> qr_holder q = wi_generation i)"
  by (auto simp: holds_path_def queue_at_def split: option.splits stored.splits)

text \<open>Only the queue changes, and only at the key of the identity.\<close>

definition queue_step :: "whale_env \<Rightarrow> identity \<Rightarrow> whale_world \<Rightarrow> whale_world \<Rightarrow> bool" where
  "queue_step E i w w' \<longleftrightarrow> (\<exists>f. w' = w\<lparr>ww_queue := f\<rparr> \<and> (\<forall>k. k \<noteq> queue_key E i \<longrightarrow> f k = ww_queue w k)
     \<and> (f (queue_key E i) \<noteq> Some Garbage \<or> ww_queue w (queue_key E i) = Some Garbage)
     \<and> queue_change (wi_generation i) (queue_at w (queue_key E i)) (queue_at w' (queue_key E i)))"

lemma queue_step_refl [simp]: "queue_step E i w w"
  unfolding queue_step_def by (rule exI [of _ "ww_queue w"]) (simp add: queue_change.same)

lemma queue_step_put:
  assumes "queue_change (wi_generation i) (queue_at w (queue_key E i)) (Some q)"
  shows "queue_step E i w (w\<lparr>ww_queue := (ww_queue w)(queue_key E i := Some (Stored q))\<rparr>)"
  unfolding queue_step_def by (rule exI [of _ "(ww_queue w)(queue_key E i := Some (Stored q))"]) (use assms in \<open>simp add: queue_at_def\<close>)

lemma queue_step_save:
  assumes "queue_change (wi_generation i) (queue_at w (queue_key E i)) (Some q)"
  shows "queue_step E i w (snd (save_wqueue E c i q w))"
  using queue_step_put [OF assms] by (simp add: save_wqueue_def Let_def split: save_outcome.splits)

lemma load_wqueueD:
  "load_wqueue E c i w = Inr (Some q) \<Longrightarrow> queue_at w (queue_key E i) = Some q \<and> qr_repo q = wi_repo i \<and> qr_path q = wi_path i"
  "load_wqueue E c i w = Inr None \<Longrightarrow> queue_at w (queue_key E i) = None"
  by (auto simp: load_wqueue_def queue_at_def split: if_splits option.splits stored.splits)

lemma snd_case_bool: "snd (case x of (True, w) \<Rightarrow> (a, w) | (False, w) \<Rightarrow> (b, w)) = snd x"
  by (simp split: prod.splits bool.splits)

lemma Claim_step: "queue_step E i w (snd (Claim E c i w))"
proof (cases "load_wqueue E c i w")
  case (Inr qo)
  show ?thesis
  proof (cases qo)
    case None
    then have "queue_at w (queue_key E i) = None" using load_wqueueD(2) Inr by simp
    then show ?thesis using None Inr
      by (auto simp: Claim_def snd_case_bool intro!: queue_step_save queue_change.take_over)
  next
    case (Some q)
    then have "queue_at w (queue_key E i) = Some q" using load_wqueueD(1) Inr by blast
    then show ?thesis using Some Inr
      by (auto simp: Claim_def snd_case_bool intro!: queue_step_save queue_change.wait)
  qed
qed (simp add: Claim_def)

lemma Release_step: "queue_step E i w (snd (Release_path E c i w))"
proof (cases "load_wqueue E c i w")
  case (Inr qo)
  show ?thesis
  proof (cases qo)
    case (Some q)
    then have q: "queue_at w (queue_key E i) = Some q" using load_wqueueD(1) Inr by blast
    have "queue_step E i w (w\<lparr>ww_queue := (ww_queue w)(queue_key E i := None)\<rparr>)"
      if "qr_holder q = wi_generation i" "qr_waiting q = []"
      unfolding queue_step_def
      by (rule exI [of _ "(ww_queue w)(queue_key E i := None)"]) (use that q in \<open>simp add: queue_at_def queue_change.leave\<close>)
    then show ?thesis using Some Inr q
      by (auto simp: Release_path_def snd_case_bool intro!: queue_step_save queue_change.pass_on split: list.splits)
  qed (use Inr in \<open>simp add: Release_path_def\<close>)
qed (simp add: Release_path_def)

lemma queue_step_at: "queue_step E i w w' \<Longrightarrow> k \<noteq> queue_key E i \<Longrightarrow> queue_at w' k = queue_at w k"
  by (auto simp: queue_step_def queue_at_def)

lemma queue_step_frame:
  assumes "queue_step E i w w'"
  shows "rec_at w' = rec_at w" "bytes_of w' = bytes_of w" "ww_repo w' = ww_repo w" "ww_journal w' = ww_journal w"
    "ww_payload w' = ww_payload w"
  using assms by (auto simp: queue_step_def)

lemma queue_change_other:
  "queue_change g x y \<Longrightarrow> x = Some q \<Longrightarrow> qr_holder q \<noteq> g \<Longrightarrow>
   \<exists>q'. y = Some q' \<and> qr_holder q' = qr_holder q \<and> qr_repo q' = qr_repo q \<and> qr_path q' = qr_path q"
  by (cases rule: queue_change.cases) auto

lemma queue_change_ok: "queue_change g x y \<Longrightarrow> (\<And>q. x = Some q \<Longrightarrow> queue_ok q) \<Longrightarrow> y = Some q' \<Longrightarrow> queue_ok q'"
  by (cases rule: queue_change.cases) (auto simp: queue_ok_def)

lemma holds_path_other:
  assumes "queue_step E i w w'" "holds_path E j w" "wi_generation j \<noteq> wi_generation i"
  shows "holds_path E j w'"
proof (cases "queue_key E j = queue_key E i")
  case True
  from assms(1) have c: "queue_change (wi_generation i) (queue_at w (queue_key E i)) (queue_at w' (queue_key E i))"
    by (auto simp: queue_step_def)
  show ?thesis
    using assms(2,3) True queue_change_other [OF c] unfolding holds_path_iff by metis
next
  case False
  then show ?thesis using assms(2) queue_step_at [OF assms(1) False] by (simp add: holds_path_iff)
qed

lemma holds_path_claim:
  assumes "holds_path E j w"
  shows "holds_path E j (snd (Claim E c i w))"
proof (cases "wi_generation j = wi_generation i \<and> queue_key E j = queue_key E i")
  case True
  from assms obtain q where q: "ww_queue w (queue_key E i) = Some (Stored q)" "qr_holder q = wi_generation i"
    using True by (auto simp: holds_path_def)
  then have "snd (Claim E c i w) = w" by (auto simp: Claim_def load_wqueue_def)
  then show ?thesis using assms by simp
next
  case False
  then show ?thesis
    using holds_path_other [OF Claim_step assms] queue_step_at [OF Claim_step] assms
    by (cases "wi_generation j = wi_generation i") (simp_all add: holds_path_iff)
qed

lemma world_ok_queue:
  assumes "world_ok E calm w" "queue_step E i w w'"
    and h: "\<And>r. rec_at w (wi_generation i) = Some r \<Longrightarrow> under_way r \<Longrightarrow> holds_path E (ws_identity r) w \<Longrightarrow> holds_path E (ws_identity r) w'"
  shows "world_ok E calm w'"
proof -
  note f = queue_step_frame [OF assms(2)]
  have "record_ok E w' g r" if r: "rec_at w g = Some r" for g r
  proof -
    have g: "gen_of r = g" using world_okD(1) [OF assms(1) r] by (simp add: record_ok_def)
    have "holds_path E (ws_identity r) w'" if "under_way r" "holds_path E (ws_identity r) w"
      using that h r g holds_path_other [OF assms(2)] by (cases "g = wi_generation i") auto
    then show ?thesis using record_ok_queue [OF world_okD(1) [OF assms(1) r] f(2,3)] by blast
  qed
  moreover have "repo_ok E calm w'" using repo_ok_cong [OF f(1-3)] world_okD(2) [OF assms(1)] by simp
  moreover have "ww_queue w' k \<noteq> Some Garbage" for k
    using assms(2) world_okD(4) [OF assms(1)] by (cases "k = queue_key E i") (auto simp: queue_step_def)
  moreover have "queue_ok q" if "ww_queue w' k = Some (Stored q)" for k q
  proof (cases "k = queue_key E i")
    case True
    have c: "queue_change (wi_generation i) (queue_at w k) (queue_at w' k)" using assms(2) True by (auto simp: queue_step_def)
    have o: "queue_ok q0" if "queue_at w k = Some q0" for q0
      using that world_okD(5) [OF assms(1)] by (auto simp: queue_at_def split: option.splits stored.splits)
    have "queue_at w' k = Some q" using that by (simp add: queue_at_def)
    then show ?thesis using queue_change_ok [OF c o] by blast
  next
    case False
    then show ?thesis using that assms(2) world_okD(5) [OF assms(1)] by (auto simp: queue_step_def)
  qed
  ultimately show ?thesis using world_okD(3) [OF assms(1)] f(1,4) unfolding world_ok_def by simp
qed

lemma effect_claim: "world_ok E calm w \<Longrightarrow> world_ok E calm (snd (Claim E c i w))"
  by (rule world_ok_queue [OF _ Claim_step]) (auto intro: holds_path_claim)

lemma effect_release:
  assumes "world_ok E calm w" "rec_at w (wi_generation i) = Some r" "Terminal (ws_state r)"
  shows "world_ok E calm (snd (Release_path E c i w))"
  by (rule world_ok_queue [OF assms(1) Release_step]) (use assms(2,3) in \<open>auto simp: under_way_def Terminal_def\<close>)

section \<open>Effects on repositories keep the invariant\<close>

lemma revision_is_append:
  "revision_is g n p \<Longrightarrow> wp_revisions p' = wp_revisions p @ vs \<Longrightarrow> revision_is g n p'"
  by (auto simp: revision_is_def youngest_def nth_append)

lemma world_ok_repo:
  assumes "world_ok E calm w" and p: "wp_revisions p = wp_revisions (ww_repo w path) @ vs"
    and "list_all (rev_ok E w path) vs" "list_all (\<lambda>x. rev_ok E w path (snd x)) (wp_txns p)" "distinct (map fst (wp_txns p))"
    and calm: "\<And>g. calm \<Longrightarrow> length (published_revs g p) + length (open_txns g p) \<le> 1"
  shows "world_ok E calm (set_repo path p w)"
proof -
  let ?w = "set_repo path p w"
  have rv: "rev_ok E ?w = rev_ok E w" by (rule rev_ok_cong) simp_all
  have "record_ok E ?w g r" if r: "record_ok E w g r" for g r
  proof (cases "home E r = path")
    case True
    have y: "youngest (ww_repo w path) \<le> youngest p" by (simp add: youngest_def p)
    have t: "take (nat (ws_base r)) (wp_revisions p) = take (nat (ws_base r)) (wp_revisions (ww_repo w path))"
      if "ws_base r \<le> youngest (ww_repo w path)" using that by (simp add: p youngest_def)
    show ?thesis
      using r True y t revision_is_append [OF _ p]
      by (auto simp: record_ok_def holds_path_cong [of ?w w])
  next
    case False
    then show ?thesis using r by (simp add: record_ok_def holds_path_cong [of ?w w])
  qed
  moreover have "repo_ok E calm ?w"
    using world_okD(2) [OF assms(1)] assms(2-5) calm by (simp add: repo_ok_def rv)
  ultimately show ?thesis using assms(1) unfolding world_ok_def by simp
qed

lemma repo_okD:
  assumes "repo_ok E calm w"
  shows "list_all (rev_ok E w path) (wp_revisions (ww_repo w path))"
    "list_all (\<lambda>x. rev_ok E w path (snd x)) (wp_txns (ww_repo w path))" "distinct (map fst (wp_txns (ww_repo w path)))"
    "calm \<Longrightarrow> length (published_revs g (ww_repo w path)) + length (open_txns g (ww_repo w path)) \<le> 1"
  using assms by (auto simp: repo_ok_def)

lemma effect_foreign:
  assumes "world_ok E calm w" "list_all (\<lambda>v. wv_generation v = None) vs"
  shows "world_ok E calm (set_repo path ((ww_repo w path)\<lparr>wp_revisions := wp_revisions (ww_repo w path) @ vs\<rparr>) w)"
proof -
  have n: "\<not> of_generation g v" if "v \<in> set vs" for g v
    using assms(2) that by (simp add: list_all_iff of_generation_def)
  then have "filter (of_generation g) vs = []" for g by (simp add: filter_empty_conv)
  moreover have "list_all (rev_ok E w path) vs" using n by (simp add: list_all_iff rev_ok_def)
  ultimately show ?thesis
    using repo_okD [OF world_okD(2) [OF assms(1)]]
    by (intro world_ok_repo [OF assms(1), where vs = vs]) (simp_all add: published_revs_def open_txns_def)
qed

lemma length_filter_filter: "length (filter Q (filter P xs)) \<le> length (filter Q xs)"
  by (induction xs) auto

lemma effect_remove:
  assumes "world_ok E calm w"
  shows "world_ok E calm (set_repo path ((ww_repo w path)\<lparr>wp_txns := filter P (wp_txns (ww_repo w path))\<rparr>) w)"
proof (rule world_ok_repo [OF assms, where vs = "[]"])
  let ?t = "wp_txns (ww_repo w path)"
  note r = repo_okD [OF world_okD(2) [OF assms], where path = path]
  show "list_all (\<lambda>x. rev_ok E w path (snd x)) (wp_txns ((ww_repo w path)\<lparr>wp_txns := filter P ?t\<rparr>))"
    using r(2) by (simp add: list_all_iff)
  show "distinct (map fst (wp_txns ((ww_repo w path)\<lparr>wp_txns := filter P ?t\<rparr>)))" using r(3) by (simp add: distinct_map_filter)
  fix g assume calm
  have "length (filter (\<lambda>x. of_generation g (snd x)) (filter P ?t)) \<le> length (filter (\<lambda>x. of_generation g (snd x)) ?t)"
    by (rule length_filter_filter)
  then show "length (published_revs g ((ww_repo w path)\<lparr>wp_txns := filter P ?t\<rparr>))
    + length (open_txns g ((ww_repo w path)\<lparr>wp_txns := filter P ?t\<rparr>)) \<le> 1"
    using r(4) [OF \<open>calm\<close>, where g = g] by (simp add: published_revs_def open_txns_def)
qed simp_all

lemma filter_one_out:
  "distinct (map fst xs) \<Longrightarrow> (t, v) \<in> set xs \<Longrightarrow>
   length (filter (\<lambda>x. P (snd x)) xs) = (if P v then 1 else 0) + length (filter (\<lambda>x. P (snd x)) (filter (\<lambda>x. fst x \<noteq> t) xs))"
proof (induction xs)
  case (Cons x xs)
  show ?case
  proof (cases "x = (t, v)")
    case True
    then have "filter (\<lambda>x. fst x \<noteq> t) xs = xs" using Cons.prems(1) by (auto simp: filter_id_conv)
    then show ?thesis using True by simp
  next
    case False
    then have m: "(t, v) \<in> set xs" using Cons.prems(2) by auto
    then have "t \<in> fst ` set xs" by force
    then have "fst x \<noteq> t" using Cons.prems(1) by auto
    then show ?thesis using Cons m by simp
  qed
qed simp

lemma effect_orphan:
  assumes "world_ok E calm w"
  shows "world_ok E calm (set_repo path (commit_txn t (ww_repo w path)) w)"
proof (cases "map_of (wp_txns (ww_repo w path)) t")
  case None
  have "set_repo path (ww_repo w path) w = w" by (simp add: set_repo_def)
  then show ?thesis using None assms by (simp add: commit_txn_def)
next
  case (Some v)
  let ?t = "wp_txns (ww_repo w path)"
  note r = repo_okD [OF world_okD(2) [OF assms], where path = path]
  have v: "(t, v) \<in> set ?t" using Some by (rule map_of_SomeD)
  show ?thesis
  proof (rule world_ok_repo [OF assms, where vs = "[v]"])
    show "list_all (rev_ok E w path) [v]" using r(2) v by (auto simp: list_all_iff)
    fix g assume calm
    show "length (published_revs g (commit_txn t (ww_repo w path))) + length (open_txns g (commit_txn t (ww_repo w path))) \<le> 1"
      using r(4) [OF \<open>calm\<close>, where g = g] filter_one_out [OF r(3) v, of "of_generation g"] Some
      by (auto simp: commit_txn_def published_revs_def open_txns_def split: if_splits)
  qed (use r Some in \<open>auto simp: commit_txn_def list_all_iff distinct_map_filter\<close>)
qed

lemma effect_mucc:
  assumes "world_ok E calm w" "rec_at w (gen_of r) = Some r" "ws_state r = StateCommitting" "ws_base_known r"
    "StoragePath (we_uuid E) (ws_identity r) = Inr storage"
    and calm: "calm \<Longrightarrow> published_revs (gen_of r) (ww_repo w (home E r)) = [] \<and> open_txns (gen_of r) (ww_repo w (home E r)) = []"
    and fresh: "\<And>t. out = MuccFail (Some t) \<Longrightarrow> t \<notin> fst ` set (wp_txns (ww_repo w (home E r)))"
  shows "world_ok E calm (set_repo (home E r) (snd (svnmucc out
      (whale_revision existing storage (ws_identity r) (bytes_of w (gen_of r))) (ww_repo w (home E r)))) w)"
proof -
  let ?p = "ww_repo w (home E r)" and ?v = "whale_revision existing storage (ws_identity r) (bytes_of w (gen_of r))"
  note o = repo_okD [OF world_okD(2) [OF assms(1)], where path = "home E r"]
  have st: "storage = ReservedNamespace @ ''/'' @ wi_path (ws_identity r)"
    using assms(5) by (simp add: StoragePath_def split: if_splits)
  have v: "rev_ok E w (home E r) ?v"
    by (rule rev_okI [where g = "gen_of r" and r = r and existing = existing]) (use assms(2-4) st in simp_all)
  have c: "length (published_revs g (p\<lparr>wp_revisions := wp_revisions p @ [?v]\<rparr>)) = length (published_revs g p) + (if g = gen_of r then 1 else 0)"
    "length (open_txns g (p\<lparr>wp_txns := wp_txns p @ [(t, ?v)]\<rparr>)) = length (open_txns g p) + (if g = gen_of r then 1 else 0)" for g p t
    by (simp_all add: published_revs_def open_txns_def)
  have revs: "world_ok E calm (set_repo (home E r) (?p\<lparr>wp_revisions := wp_revisions ?p @ [?v]\<rparr>) w)"
    using o(2,3) v calm o(4)
    by (intro world_ok_repo [OF assms(1), where vs = "[?v]"]) (auto simp: c, auto simp: open_txns_def)
  have same: "set_repo (home E r) ?p w = w" by (simp add: set_repo_def)
  have "world_ok E calm (set_repo (home E r) (?p\<lparr>wp_txns := wp_txns ?p @ [(t, ?v)]\<rparr>) w)" if "out = MuccFail (Some t)" for t
    using o(2,3) v calm o(4) fresh [OF that]
    by (intro world_ok_repo [OF assms(1), where vs = "[]"]) (auto simp: c, auto simp: published_revs_def)
  then show ?thesis using revs assms(1) same
    by (cases out) (auto simp: svnmucc_def split: option.splits)
qed

lemma effect_ok: "effect E calm w w' \<Longrightarrow> world_ok E calm w \<Longrightarrow> world_ok E calm w'"
proof (induction rule: effect.induct)
  case ledger then show ?case by (rule effect_ledger)
next
  case create then show ?case by (intro effect_create)
next
  case claim then show ?case by (rule effect_claim)
next
  case partial then show ?case by (intro effect_partial)
next
  case save then show ?case by (intro effect_save)
next
  case release then show ?case by (intro effect_release)
next
  case foreign then show ?case by (intro effect_foreign)
next
  case orphan then show ?case by (rule effect_orphan)
next
  case remove then show ?case by (rule effect_remove)
next
  case mucc then show ?case by (intro effect_mucc)
qed

end
