(* ===== verification/Whale_Runs.thy ===== *)
theory Whale_Runs
  imports Whale_Inv
begin

text \<open>
  Every part of a Whale request is a sequence of elementary effects, so the runs of the service
  keep the invariant of \<open>Whale_Inv\<close>.
\<close>

section \<open>Sequences of effects\<close>

abbreviation effects :: "whale_env \<Rightarrow> bool \<Rightarrow> whale_world \<Rightarrow> whale_world \<Rightarrow> bool" where
  "effects E calm \<equiv> (effect E calm)\<^sup>*\<^sup>*"

lemma effects_ok: "effects E calm w w' \<Longrightarrow> world_ok E calm w \<Longrightarrow> world_ok E calm w'"
  by (induction rule: rtranclp_induct) (auto intro: effect_ok)

text \<open>
  The record in memory and the record on disk differ at most in the schema, which is fixed,
  and in the time of the last update.
\<close>

definition agrees :: "wrecord \<Rightarrow> wrecord \<Rightarrow> bool" where
  "agrees s r \<longleftrightarrow> ws_identity s = ws_identity r \<and> ws_direction s = ws_direction r \<and> ws_state s = ws_state r
     \<and> ws_bytes s = ws_bytes r \<and> ws_base s = ws_base r \<and> ws_base_known s = ws_base_known r \<and> ws_revision s = ws_revision r"

definition stamp :: "whale_call \<Rightarrow> wrecord \<Rightarrow> wrecord" where
  "stamp c r = r\<lparr>ws_schema := GenerationSchema, ws_updated := Some (wc_now c)\<rparr>"

lemma stamp_fields [simp]:
  "ws_identity (stamp c r) = ws_identity r" "ws_direction (stamp c r) = ws_direction r" "ws_state (stamp c r) = ws_state r"
  "ws_bytes (stamp c r) = ws_bytes r" "ws_base (stamp c r) = ws_base r" "ws_base_known (stamp c r) = ws_base_known r"
  "ws_revision (stamp c r) = ws_revision r" "agrees (stamp c r) r"
  by (simp_all add: stamp_def agrees_def)

lemma agrees_refl [simp]: "agrees r r"
  by (simp add: agrees_def)

section \<open>Reading and saving the journal\<close>

lemma load_journalD:
  "load_journal E c site g w = Inr (Some r) \<Longrightarrow> rec_at w g = Some r \<and> validateRecord E r \<and> gen_of r = g"
  "load_journal E c site g w = Inr None \<Longrightarrow> ww_journal w g = None"
  by (auto simp: load_journal_def rec_at_def split: if_splits option.splits stored.splits)

text \<open>What a caller of \<open>Save\<close> has established about the record it saves.\<close>

definition established :: "whale_env \<Rightarrow> whale_world \<Rightarrow> wrecord \<Rightarrow> wrecord \<Rightarrow> bool" where
  "established E w s r \<longleftrightarrow>
     (ws_bytes s < ws_bytes r \<longrightarrow> ws_state s = StateReceiving \<and> holds_path E (ws_identity s) w
        \<and> ws_bytes r \<le> int (length (bytes_of w (gen_of s))))
   \<and> (ws_state s = StateReceiving \<and> ws_state r \<noteq> StateReceiving \<longrightarrow> ws_bytes s = wi_size (ws_identity s))
   \<and> (ws_state r = StateCommitting \<and> ws_state s \<noteq> StateCommitting \<longrightarrow> declared E (ws_identity s) (bytes_of w (gen_of s)))
   \<and> (\<not> ws_base_known s \<and> ws_base_known r \<longrightarrow> ws_base r \<le> youngest (ww_repo w (home E s)))
   \<and> (ws_state r = StatePublished \<and> ws_state s \<noteq> StatePublished \<longrightarrow> revision_is (gen_of s) (ws_revision r) (ww_repo w (home E s)))
   \<and> (ws_state s = StateCommitting \<longrightarrow> ws_state r \<in> {StateCommitting, StatePublished})
   \<and> ws_state r \<noteq> StateCancelled \<and> (ws_state r \<noteq> StatePublished \<longrightarrow> ws_revision r = ws_revision s)"

text \<open>\<open>Save\<close> either changes nothing or writes the stamped record, which advances the stored one.\<close>

lemma write_record_eq:
  "write_record out r w = (out = SaveOk, if out = SaveFail then w else put_record r w)"
  by (simp add: write_record_def put_record_def Let_def split: save_outcome.splits)

lemma Save_cases:
  assumes "Save_journal E c site r w = (e, w')"
  obtains "w' = w" "e \<noteq> None"
  | s where "rec_at w (gen_of r) = Some s" "w' = put_record (stamp c r) w"
      "ws_identity s = ws_identity r" "ws_direction s = ws_direction r" "validateRecord E (stamp c r)"
      "\<not> ws_revision r < ws_revision s" "ws_revision s \<noteq> 0 \<Longrightarrow> ws_revision r = ws_revision s"
      "ws_base_known s \<Longrightarrow> ws_base_known r \<and> ws_base r = ws_base s" "ws_bytes s \<le> ws_bytes r"
      "CanTransition (ws_direction r) (ws_state s) (ws_state r)"
proof (cases "load_journal E c (10 + site) (gen_of r) w")
  case (Inl x)
  then show thesis using assms that(1) by (auto simp: Save_journal_def)
next
  case (Inr x)
  show thesis
  proof (cases x)
    case None
    then show thesis using assms Inr that(1) by (auto simp: Save_journal_def)
  next
    case (Some s)
    have "rec_at w (gen_of r) = Some s" using load_journalD(1) Inr Some by blast
    moreover have "w' = w \<and> e \<noteq> None \<or> w' = put_record (stamp c r) w \<and> ws_identity s = ws_identity r
      \<and> ws_direction s = ws_direction r \<and> validateRecord E (stamp c r) \<and> \<not> ws_revision r < ws_revision s
      \<and> (ws_revision s \<noteq> 0 \<longrightarrow> ws_revision r = ws_revision s)
      \<and> (ws_base_known s \<longrightarrow> ws_base_known r \<and> ws_base r = ws_base s) \<and> ws_bytes s \<le> ws_bytes r
      \<and> CanTransition (ws_direction r) (ws_state s) (ws_state r)"
      using assms Inr Some
      by (auto simp: Save_journal_def write_record_eq stamp_def [symmetric] Let_def split: if_splits bool.splits)
    ultimately show thesis using that by blast
  qed
qed

lemma Save_step:
  assumes "Save_journal E c site r w = (e, w')" "rec_at w (gen_of r) = Some s" "established E w s r"
  shows "effects E calm w w'" "w' = w \<or> w' = put_record (stamp c r) w" "e = None \<Longrightarrow> w' = put_record (stamp c r) w"
proof -
  have "effects E calm w w' \<and> (w' = w \<and> e \<noteq> None \<or> w' = put_record (stamp c r) w)"
    using assms(1)
  proof (cases rule: Save_cases)
    case (2 t)
    have "t = s" using 2(1) assms(2) by simp
    have "ws_revision s \<noteq> 0 \<or> ws_state r \<noteq> StatePublished \<longrightarrow> ws_revision r = ws_revision s"
      using 2(7) \<open>t = s\<close> assms(3) unfolding established_def by blast
    then have "advances E w s (stamp c r)"
      using 2 \<open>t = s\<close> assms(3) unfolding advances_def established_def by simp
    then have "effect E calm w (put_record (stamp c r) w)" using assms(2) by (intro effect.save) simp_all
    then show ?thesis using 2(2) by auto
  qed simp
  then show "effects E calm w w'" "w' = w \<or> w' = put_record (stamp c r) w" "e = None \<Longrightarrow> w' = put_record (stamp c r) w"
    by auto
qed

lemma Save_ok:
  assumes "Save_journal E c site r w = (None, w')"
  shows "w' = put_record (stamp c r) w"
  using assms by (cases rule: Save_cases) auto

lemma Create_step:
  assumes "Create_journal E c i DirectionPut w = (x, w')"
  shows "effects E calm w w'" "\<And>r. x = Inr r \<Longrightarrow> rec_at w' (wi_generation i) = Some r \<and> ws_identity r = i"
proof -
  have new: "effects E calm w (put_record (new_record c i DirectionPut StateReceiving) w)"
    if "ww_journal w (wi_generation i) = None" "validateRecord E (new_record c i DirectionPut StateReceiving)"
    using that by (intro r_into_rtranclp effect.create) (simp_all add: new_record_def)
  have g: "gen_of (new_record c i DirectionPut StateReceiving) = wi_generation i"
    "ws_identity (new_record c i DirectionPut StateReceiving) = i" by (simp_all add: new_record_def)
  have "effects E calm w w' \<and> (\<forall>r. x = Inr r \<longrightarrow> rec_at w' (wi_generation i) = Some r \<and> ws_identity r = i)"
  proof (cases "load_journal E c 0 (wi_generation i) w")
    case (Inl y)
    then show ?thesis using assms by (auto simp: Create_journal_def InitialState_def split: if_splits)
  next
    case (Inr y)
    show ?thesis
    proof (cases y)
      case None
      then have n: "ww_journal w (wi_generation i) = None" using load_journalD(2) Inr by simp
      then have "load_journal E c 1 (wi_generation i) w \<noteq> Inr (Some r)" for r
        using load_journalD(1) [of E c 1 "wi_generation i" w r] by (auto simp: rec_at_def)
      then show ?thesis using assms Inr None new [OF n] g
        by (auto simp: Create_journal_def InitialState_def write_record_eq Let_def split: if_splits sum.splits option.splits)
    next
      case (Some s)
      then have "rec_at w (wi_generation i) = Some s" using load_journalD(1) Inr by blast
      then show ?thesis using assms Inr Some
        by (auto simp: Create_journal_def InitialState_def same_generation_def split: if_splits)
    qed
  qed
  then show "effects E calm w w'" "\<And>r. x = Inr r \<Longrightarrow> rec_at w' (wi_generation i) = Some r \<and> ws_identity r = i" by auto
qed

section \<open>Windows\<close>

lemma reserve_put_step:
  "reserve_put c op n w = (e, w') \<Longrightarrow> \<exists>l. w' = w\<lparr>ww_ledger := l\<rparr>"
  by (auto simp: reserve_put_def split: prod.splits sum.splits res_err.splits)

lemma release_put_step: "release_put c op w = (ok, w') \<Longrightarrow> \<exists>l. w' = w\<lparr>ww_ledger := l\<rparr>"
  by (auto simp: release_put_def split: prod.splits)

lemma cleanup_step:
  assumes "rec_at w (wi_generation i) = Some r" "ws_identity r = i" "Terminal (ws_state r)"
  shows "effects E calm w (snd (cleanup E c i w))" "rec_at (snd (cleanup E c i w)) = rec_at w"
proof -
  obtain ok w1 where 1: "release_put c (wi_generation i) w = (ok, w1)" by force
  then obtain l where l: "w1 = w\<lparr>ww_ledger := l\<rparr>" using release_put_step by blast
  have s: "snd (cleanup E c i w) = snd (Release_path E c i w1)" by (simp add: cleanup_def 1 split: prod.splits)
  have "effect E calm w w1" unfolding l by (rule effect.ledger)
  moreover have "effect E calm w1 (snd (Release_path E c i w1))"
    using assms by (intro effect.release) (simp_all add: l)
  ultimately show "effects E calm w (snd (cleanup E c i w))" unfolding s by (meson r_into_rtranclp rtranclp_trans)
  show "rec_at (snd (cleanup E c i w)) = rec_at w"
    unfolding s queue_step_frame(1) [OF Release_step] by (simp add: l)
qed

lemma check_digest_step:
  assumes "check_digest E c r w = (e, r', w')" "rec_at w (gen_of r) = Some s" "agrees s r" "ws_state r = StateValidating"
  shows "effects E calm w w'"
    and "e = None \<Longrightarrow> r' = r\<lparr>ws_state := StateCommitting\<rparr> \<and> w' = put_record (stamp c r') w"
proof -
  note a = assms(3) [unfolded agrees_def]
  have "effects E calm w w' \<and> (e = None \<longrightarrow> r' = r\<lparr>ws_state := StateCommitting\<rparr> \<and> w' = put_record (stamp c r') w)"
  proof (cases "digestFile E c (ww_payload w (gen_of r))")
    case None
    then show ?thesis using assms(1) by (auto simp: check_digest_def)
  next
    case (Some d)
    obtain x n where d: "d = (x, n)" by force
    show ?thesis
    proof (cases "n \<noteq> wi_size (ws_identity r) \<or> x \<noteq> wi_sha256 (ws_identity r)")
      case True
      let ?r = "r\<lparr>ws_state := StateRejected\<rparr>"
      obtain e1 w1 where sv: "Save_journal E c 2 ?r w = (e1, w1)" by force
      have st: "established E w s ?r" using a assms(4) by (simp add: established_def)
      have ef: "effects E calm w w1" by (rule Save_step(1) [OF sv _ st]) (simp add: assms(2))
      show ?thesis
      proof (cases e1)
        case None
        then have "w1 = put_record (stamp c ?r) w" using Save_ok sv by blast
        then have "effects E calm w1 (snd (cleanup E c (ws_identity r) w1))"
          by (intro cleanup_step [where r = "stamp c ?r"]) (simp_all add: Terminal_def)
        then show ?thesis using assms(1) Some d True sv None ef by (auto simp: check_digest_def Let_def)
      qed (use assms(1) Some d True sv ef in \<open>auto simp: check_digest_def Let_def\<close>)
    next
      case False
      let ?r = "r\<lparr>ws_state := StateCommitting\<rparr>"
      obtain e1 w1 where sv: "Save_journal E c 3 ?r w = (e1, w1)" by force
      have "declared E (ws_identity r) (bytes_of w (gen_of r))"
        using Some d False by (auto simp: digestFile_def declared_def bytes_of_def split: if_splits option.splits)
      then have st: "established E w s ?r" using a assms(4) by (simp add: established_def)
      have ef: "effects E calm w w1" by (rule Save_step(1) [OF sv _ st]) (simp add: assms(2))
      then show ?thesis using assms(1) Some d False sv Save_ok [of E c 3 ?r w] by (auto simp: check_digest_def Let_def)
    qed
  qed
  then show "effects E calm w w'" "e = None \<Longrightarrow> r' = r\<lparr>ws_state := StateCommitting\<rparr> \<and> w' = put_record (stamp c r') w" by auto
qed

lemma prepareCommit_step:
  assumes "prepareCommit E c r w = (e, r', w')" "rec_at w (gen_of r) = Some s" "agrees s r"
    "ws_state r = StateReceiving \<and> ws_bytes r = wi_size (ws_identity r) \<or> ws_state r = StateValidating"
  shows "effects E calm w w'"
    and "e = None \<Longrightarrow> r' = r\<lparr>ws_state := StateCommitting\<rparr> \<and> rec_at w' (gen_of r) = Some (stamp c r')"
proof -
  note a = assms(3) [unfolded agrees_def]
  have "effects E calm w w' \<and> (e = None \<longrightarrow> r' = r\<lparr>ws_state := StateCommitting\<rparr> \<and> rec_at w' (gen_of r) = Some (stamp c r'))"
  proof (cases "ws_state r = StateReceiving")
    case True
    let ?r = "r\<lparr>ws_state := StateValidating\<rparr>"
    obtain e1 w1 where sv: "Save_journal E c 1 ?r w = (e1, w1)" by force
    have st: "established E w s ?r" using a assms(4) True by (simp add: established_def)
    have ef: "effects E calm w w1" by (rule Save_step(1) [OF sv _ st]) (simp add: assms(2))
    show ?thesis
    proof (cases e1)
      case None
      then have w1: "w1 = put_record (stamp c ?r) w" using Save_ok sv by blast
      have cd: "check_digest E c ?r w1 = (e, r', w')" using assms(1) True sv None by (simp add: prepareCommit_def Let_def)
      have "rec_at w1 (gen_of ?r) = Some (stamp c ?r)" by (simp add: w1)
      note cs = check_digest_step [OF cd this]
      have "effects E calm w1 w'" using cs(1) by simp
      moreover have "e = None \<Longrightarrow> r' = r\<lparr>ws_state := StateCommitting\<rparr> \<and> rec_at w' (gen_of r) = Some (stamp c r')" using cs(2) by auto
      ultimately show ?thesis using ef by (meson rtranclp_trans)
    qed (use assms(1) True sv ef in \<open>auto simp: prepareCommit_def Let_def\<close>)
  next
    case False
    then have cd: "check_digest E c r w = (e, r', w')" using assms(1) by (simp add: prepareCommit_def)
    show ?thesis using check_digest_step [OF cd assms(2,3)] False assms(4) by auto
  qed
  then show "effects E calm w w'" "e = None \<Longrightarrow> r' = r\<lparr>ws_state := StateCommitting\<rparr> \<and> rec_at w' (gen_of r) = Some (stamp c r')" by auto
qed

abbreviation content :: "string option \<Rightarrow> string" where
  "content f \<equiv> (case f of None \<Rightarrow> [] | Some b \<Rightarrow> b)"

lemma appendWindow_spec:
  assumes "appendWindow c old offset count = (ok, file)" "0 \<le> offset" "0 \<le> count"
  shows "keeps_prefix offset (content old) (content file)"
    and "ok \<Longrightarrow> content file = take (nat offset) (content old) @ take (nat count) (wc_stream c)
           \<and> nat offset \<le> length (content old) \<and> nat count \<le> length (wc_stream c)"
proof -
  define b where "b = content old"
  have l: "offset \<le> int (length b) \<Longrightarrow> length (take (nat offset) b) = nat offset" by simp
  show "keeps_prefix offset (content old) (content file)"
    using assms l unfolding keeps_prefix_def
    by (auto simp: appendWindow_def Let_def b_def split: if_splits)
  show "ok \<Longrightarrow> content file = take (nat offset) (content old) @ take (nat count) (wc_stream c)
      \<and> nat offset \<le> length (content old) \<and> nat count \<le> length (wc_stream c)"
    using assms by (auto simp: appendWindow_def Let_def b_def [symmetric] split: if_splits)
qed

lemma bytes_of_content: "bytes_of w g = content (ww_payload w g)"
  by (simp add: bytes_of_def)

text \<open>
  The part of a window after its checks: bytes are appended and the journal moves on, or the
  partial file keeps what was durable.
\<close>

lemma append_locked_step:
  assumes "append_locked E c rq r w = (x, w')" "rec_at w (gen_of r) = Some r" "ws_state r = StateReceiving"
    "holds_path E (ws_identity r) w" "0 \<le> ws_bytes r" "1 \<le> wq_payload rq" "ws_bytes r + wq_payload rq \<le> wi_size (ws_identity r)"
  shows "effects E calm w w'"
proof -
  let ?g = "gen_of r"
  obtain ok f where ap: "appendWindow c (ww_payload w ?g) (ws_bytes r) (wq_payload rq) = (ok, f)" by force
  define w1 where "w1 = put_payload ?g f w"
  note sp = appendWindow_spec [OF ap assms(5)]
  have b1: "bytes_of w1 ?g = content f" by (simp add: w1_def bytes_of_put_payload)
  have p: "effect E calm w w1"
  proof -
    have "ws_bytes r < wi_size (ws_identity r)" using assms(6,7) by linarith
    moreover have "keeps_prefix (ws_bytes r) (bytes_of w ?g) (bytes_of w1 ?g)"
      unfolding b1 unfolding bytes_of_content using sp(1) assms(6) by simp
    ultimately show ?thesis unfolding w1_def using assms(2,3) by (intro effect.partial)
  qed
  have w1: "w\<lparr>ww_payload := (ww_payload w)(?g := f)\<rparr> = w1" by (simp add: w1_def put_payload_def)
  show ?thesis
  proof (cases ok)
    case False
    then show ?thesis using assms(1) ap p w1 by (auto simp: append_locked_def)
  next
    case True
    let ?r = "r\<lparr>ws_bytes := ws_bytes r + wq_payload rq\<rparr>"
    obtain e w2 where sv: "Save_journal E c 0 ?r w1 = (e, w2)" by force
    have "length (content f) = nat (ws_bytes r) + nat (wq_payload rq)" using sp(2) True assms(6) by simp
    moreover have "holds_path E (ws_identity r) w1" using assms(4) holds_path_cong [of w1 w] by (simp add: w1_def)
    ultimately have st: "established E w1 r ?r" using assms(3,5,6) b1 by (simp add: established_def)
    have ef: "effects E calm w1 w2"
      by (rule Save_step(1) [OF sv _ st]) (simp add: w1_def assms(2))
    have 2: "effects E calm w w2" using p ef by (rule converse_rtranclp_into_rtranclp)
    show ?thesis
    proof (cases "e = None \<and> ws_bytes ?r = wi_size (ws_identity r)")
      case False
      then show ?thesis using assms(1) ap True sv 2 w1
        by (cases e) (auto simp: append_locked_def Let_def split: if_splits)
    next
      case full: True
      then have "w2 = put_record (stamp c ?r) w1" using Save_ok sv by blast
      then have s2: "rec_at w2 (gen_of ?r) = Some (stamp c ?r)" by simp
      obtain e3 r3 w3 where pc: "prepareCommit E c ?r w2 = (e3, r3, w3)" by (metis prod_cases3)
      have "effects E calm w2 w3" using prepareCommit_step(1) [OF pc s2] assms(3) full by simp
      moreover have "w' = w3" using assms(1) ap True sv w1 full pc
        by (cases e3) (auto simp: append_locked_def Let_def)
      ultimately show ?thesis using 2 by (meson rtranclp_trans)
    qed
  qed
qed

lemma requireRecordD:
  "requireRecord E c i w = Inr r \<Longrightarrow> rec_at w (wi_generation i) = Some r \<and> ws_identity r = i \<and> validateRecord E r
     \<and> ws_direction r = DirectionPut"
  using load_journalD(1) [of E c 2 "wi_generation i" w r]
  by (auto simp: requireRecord_def split: if_splits sum.splits option.splits)

lemma valid_request_fits:
  "Validate_request u rq \<Longrightarrow> wq_operation rq = OpPutWindow \<Longrightarrow>
   0 \<le> wq_offset rq \<and> 1 \<le> wq_payload rq \<and> wq_offset rq + wq_payload rq \<le> wi_size (wq_identity rq)"
  by (auto simp: Validate_request_def window_fits_def ValidateOffset_def)

lemma window_locked_step:
  assumes "window_locked E c rq w = (x, w')" "Validate_request (we_uuid E) rq" "wq_operation rq = OpPutWindow"
    and h: "\<And>r. rec_at w (wi_generation (wq_identity rq)) = Some r \<Longrightarrow> ws_identity r = wq_identity rq
      \<Longrightarrow> ws_state r = StateReceiving \<Longrightarrow> holds_path E (wq_identity rq) w"
  shows "effects E calm w w'"
proof (cases "requireRecord E c (wq_identity rq) w")
  case (Inl e)
  then show ?thesis using assms(1) by (auto simp: window_locked_def split: if_splits)
next
  case (Inr r)
  note q = requireRecordD [OF Inr] and f = valid_request_fits [OF assms(2,3)]
  obtain e1 w1 where rs: "reserve_put c (gen_of r) (wi_size (ws_identity r)) w = (e1, w1)" by force
  then obtain l where l: "w1 = w\<lparr>ww_ledger := l\<rparr>" using reserve_put_step by blast
  have 1: "effect E calm w w1" unfolding l by (rule effect.ledger)
  show ?thesis
  proof (cases "wc_lock c \<and> ws_state r = StateReceiving \<and> ws_bytes r = wq_offset rq \<and> e1 = None \<and> wc_ready c
      \<and> PayloadPath E c (gen_of r) w1 = None")
    case True
    then have ap: "append_locked E c rq r w1 = (x, w')" using assms(1) Inr rs by (simp add: window_locked_def)
    have hp: "holds_path E (ws_identity r) w1"
      using h q True holds_path_cong [of w1 w E] by (simp add: l)
    have "effects E calm w1 w'"
      by (rule append_locked_step [OF ap _ _ hp]) (use q True f in \<open>simp_all add: l\<close>)
    then show ?thesis using 1 by (rule converse_rtranclp_into_rtranclp [rotated])
  next
    case False
    then have "w' = w \<or> w' = w1"
      using assms(1) Inr rs by (auto simp: window_locked_def split: if_splits option.splits)
    then show ?thesis using 1 by auto
  qed
qed

lemma serve_begin_step:
  assumes "serve_begin E c rq w = (e, w')"
  shows "effects E calm w w'"
    and "e = None \<Longrightarrow> Validate_request (we_uuid E) rq \<and> wq_operation rq = OpPutWindow
      \<and> (\<exists>r. rec_at w' (wi_generation (wq_identity rq)) = Some r)"
proof -
  obtain x w1 where cr: "Create_journal E c (wq_identity rq) DirectionPut w = (x, w1)" by force
  note s = Create_step [OF cr]
  show "effects E calm w w'"
    using assms cr s(1) by (cases x) (auto simp: serve_begin_def split: if_splits sum.splits)
  show "e = None \<Longrightarrow> Validate_request (we_uuid E) rq \<and> wq_operation rq = OpPutWindow
      \<and> (\<exists>r. rec_at w' (wi_generation (wq_identity rq)) = Some r)"
    using assms cr s(2) by (cases x) (auto simp: serve_begin_def split: if_splits sum.splits)
qed

section \<open>Publication\<close>

text \<open>
  Commits of others carry no generation, \<open>svnmucc\<close> names its transaction afresh, and in a calm
  publication no process of an earlier attempt commits between the search for the generation
  and the removal of its transactions.
\<close>

definition ordinary :: "whale_call \<Rightarrow> bool" where
  "ordinary c \<longleftrightarrow> (\<forall>k. list_all (\<lambda>v. wv_generation v = None) (si_foreign (wc_svn c) k))"

definition fresh_txn :: "whale_call \<Rightarrow> whale_repo \<Rightarrow> bool" where
  "fresh_txn c p \<longleftrightarrow> (\<forall>t. si_mucc (wc_svn c) = MuccFail (Some t) \<longrightarrow> t \<notin> fst ` set (wp_txns p))"

definition calm_call :: "whale_call \<Rightarrow> string \<Rightarrow> whale_repo \<Rightarrow> bool" where
  "calm_call c g p \<longleftrightarrow> si_orphans (wc_svn c) = []
     \<and> (\<forall>x \<in> set (wp_txns p). of_generation g (snd x) \<longrightarrow> si_txn (wc_svn c) (fst x) \<noteq> TxnGone)"

lemma set_repo_twice [simp]: "set_repo path q (set_repo path p w) = set_repo path q w"
  by (simp add: set_repo_def)

lemma set_repo_same [simp]: "set_repo path (ww_repo w path) w = w"
  by (simp add: set_repo_def)

lemma set_repo_payload [simp]: "ww_payload (set_repo path p w) = ww_payload w"
  by (simp add: set_repo_def)

lemma commit_foreign_eq:
  "commit_foreign c k path w = set_repo path ((ww_repo w path)
     \<lparr>wp_revisions := wp_revisions (ww_repo w path) @ si_foreign (wc_svn c) k\<rparr>) w"
  by (simp add: commit_foreign_def set_repo_def)

lemma commit_foreign_step: "ordinary c \<Longrightarrow> effect E calm w (commit_foreign c k path w)"
  unfolding commit_foreign_eq by (rule effect.foreign) (simp add: ordinary_def)

lemma orphans_step: "effects E calm w (set_repo path (foldl (\<lambda>p t. commit_txn t p) (ww_repo w path) ts) w)"
proof (induction ts rule: rev_induct)
  case (snoc t ts)
  let ?p = "foldl (\<lambda>p t. commit_txn t p) (ww_repo w path) ts"
  have "effect E calm (set_repo path ?p w) (set_repo path (commit_txn t (ww_repo (set_repo path ?p w) path)) (set_repo path ?p w))"
    by (rule effect.orphan)
  then show ?case using snoc by (simp add: rtranclp.rtrancl_into_rtrancl)
qed simp

lemma commit_txn_names: "fst ` set (wp_txns (commit_txn t p)) \<subseteq> fst ` set (wp_txns p)"
  by (auto simp: commit_txn_def split: option.splits)

lemma orphans_names: "fst ` set (wp_txns (foldl (\<lambda>p t. commit_txn t p) p ts)) \<subseteq> fst ` set (wp_txns p)"
proof (induction ts rule: rev_induct)
  case (snoc t ts)
  then show ?case using commit_txn_names [of t "foldl (\<lambda>p t. commit_txn t p) p ts"] by simp
qed simp

lemma remove_loop_spec:
  "remove_loop a g ts txns = (ok, txns') \<Longrightarrow>
   (\<exists>P. txns' = filter P txns)
   \<and> (ok \<longrightarrow> distinct (map fst txns) \<longrightarrow> (\<forall>x \<in> set txns. of_generation g (snd x) \<longrightarrow> si_txn a (fst x) \<noteq> TxnGone) \<longrightarrow>
      (\<forall>x \<in> set txns'. fst x \<in> set ts \<longrightarrow> \<not> of_generation g (snd x)))"
proof (induction ts arbitrary: txns)
  case Nil
  then have "txns' = filter (\<lambda>_. True) txns" by simp
  then show ?case by (metis empty_iff empty_set)
next
  case (Cons t ts)
  show ?case
  proof (cases "si_txn a t")
    case TxnError
    then have "txns' = filter (\<lambda>_. True) txns" "\<not> ok" using Cons.prems by auto
    then show ?thesis by blast
  next
    case TxnGone
    then have r: "remove_loop a g ts txns = (ok, txns')" using Cons.prems by simp
    then show ?thesis using Cons.IH [OF r] TxnGone by auto
  next
    case TxnRead
    show ?thesis
    proof (cases "Option.bind (map_of txns t) wv_generation = Some g")
      case False
      then have r: "remove_loop a g ts txns = (ok, txns')" using Cons.prems TxnRead by simp
      have "\<not> of_generation g (snd x)" if "x \<in> set txns" "fst x = t" "distinct (map fst txns)" for x
      proof -
        have "map_of txns t = Some (snd x)" using that by (metis map_of_is_SomeI prod.collapse)
        then show ?thesis using False by (simp add: of_generation_def)
      qed
      then show ?thesis using Cons.IH [OF r] by auto
    next
      case True
      show ?thesis
      proof (cases "si_rmtxns a t")
        case False
        then have "txns' = filter (\<lambda>_. True) txns" "\<not> ok" using Cons.prems True TxnRead by auto
        then show ?thesis by blast
      next
        case rm: True
        let ?t = "filter (\<lambda>x. fst x \<noteq> t) txns"
        have r: "remove_loop a g ts ?t = (ok, txns')" using Cons.prems True TxnRead rm by simp
        from Cons.IH [OF r] obtain P where P: "txns' = filter P ?t" by blast
        then have "txns' = filter (\<lambda>x. fst x \<noteq> t \<and> P x) txns" by simp
        then have "\<exists>P. txns' = filter P txns" by blast
        moreover have "\<not> of_generation g (snd x)" if "ok" "distinct (map fst txns)"
          "\<forall>x \<in> set txns. of_generation g (snd x) \<longrightarrow> si_txn a (fst x) \<noteq> TxnGone" "x \<in> set txns'" "fst x \<in> set (t # ts)" for x
        proof -
          have "fst x \<in> set ts" using that(4,5) P by auto
          moreover have "distinct (map fst ?t)" using that(2) by (rule distinct_map_filter)
          moreover have "\<forall>x \<in> set ?t. of_generation g (snd x) \<longrightarrow> si_txn a (fst x) \<noteq> TxnGone" using that(3) by simp
          ultimately show ?thesis using conjunct2 [OF Cons.IH [OF r]] that(1,4) by blast
        qed
        ultimately show ?thesis by blast
      qed
    qed
  qed
qed

lemma removeAbandoned_spec:
  assumes "removeAbandoned c g p = (ok, p')" "distinct (map fst (wp_txns p))"
  obtains P where "p' = p\<lparr>wp_txns := filter P (wp_txns p)\<rparr>"
    "ok \<longrightarrow> (\<forall>x \<in> set (wp_txns p). of_generation g (snd x) \<longrightarrow> si_txn (wc_svn c) (fst x) \<noteq> TxnGone) \<longrightarrow> open_txns g p' = []"
proof (cases "si_lstxns (wc_svn c)")
  case False
  then have "p' = p\<lparr>wp_txns := filter (\<lambda>_. True) (wp_txns p)\<rparr>" "\<not> ok" using assms(1) by (auto simp: removeAbandoned_def)
  then show thesis using that by blast
next
  case True
  obtain t where r: "remove_loop (wc_svn c) g (map fst (wp_txns p)) (wp_txns p) = (ok, t)" and p': "p' = p\<lparr>wp_txns := t\<rparr>"
    using assms(1) True by (auto simp: removeAbandoned_def split: prod.splits)
  obtain P where P: "t = filter P (wp_txns p)" using remove_loop_spec [OF r] by blast
  have "open_txns g p' = []" if "ok" "\<forall>x \<in> set (wp_txns p). of_generation g (snd x) \<longrightarrow> si_txn (wc_svn c) (fst x) \<noteq> TxnGone"
    using remove_loop_spec [OF r] assms(2) that P by (auto simp: open_txns_def p' filter_empty_conv)
  then show thesis using that P p' by blast
qed

lemma find_loop_spec:
  "find_loop ok g n vs = Some m \<Longrightarrow> 1 \<le> n \<Longrightarrow>
   m = 0 \<and> filter (of_generation g) vs = [] \<or> (\<exists>k < length vs. m = n + int k \<and> of_generation g (vs ! k))"
proof (induction vs arbitrary: n)
  case (Cons v vs)
  show ?case
  proof (cases "wv_generation v = Some g")
    case True
    then have "m = n + int 0 \<and> of_generation g ((v # vs) ! 0)" using Cons.prems by (auto simp: of_generation_def split: if_splits)
    then show ?thesis by (metis length_greater_0_conv list.discI)
  next
    case False
    then have "find_loop ok g (n + 1) vs = Some m" using Cons.prems by (auto split: if_splits)
    from Cons.IH [OF this] Cons.prems(2)
    consider "m = 0" "filter (of_generation g) vs = []" | k where "k < length vs" "m = n + 1 + int k" "of_generation g (vs ! k)" by auto
    then show ?thesis
    proof cases
      case 1
      moreover have "\<not> of_generation g v" using False by (simp add: of_generation_def)
      ultimately show ?thesis by simp
    next
      case 2
      then have "Suc k < length (v # vs) \<and> m = n + int (Suc k) \<and> of_generation g ((v # vs) ! Suc k)" by simp
      then show ?thesis by blast
    qed
  qed
qed simp

lemma findGeneration_spec:
  assumes "findGeneration c site p (base + 1) g = Some m" "0 \<le> base"
  shows "m = 0 \<Longrightarrow> filter (of_generation g) (drop (nat base) (wp_revisions p)) = []"
    and "m \<noteq> 0 \<Longrightarrow> revision_is g m p"
proof -
  have "find_loop (si_props (wc_svn c) site) g (base + 1) (drop (nat base) (wp_revisions p)) = Some m"
    using assms(1) by (simp add: findGeneration_def split: if_splits)
  from find_loop_spec [OF this] assms(2)
  consider "m = 0" "filter (of_generation g) (drop (nat base) (wp_revisions p)) = []"
    | k where "k < length (wp_revisions p) - nat base" "m = base + 1 + int k" "of_generation g (wp_revisions p ! (nat base + k))"
    by auto
  then have "(m = 0 \<longrightarrow> filter (of_generation g) (drop (nat base) (wp_revisions p)) = []) \<and> (m \<noteq> 0 \<longrightarrow> revision_is g m p)"
  proof cases
    case 2
    have "nat (m - 1) = nat base + k" using 2(2) assms(2) by linarith
    then show ?thesis using 2 assms(2) by (auto simp: revision_is_def youngest_def)
  qed simp
  then show "m = 0 \<Longrightarrow> filter (of_generation g) (drop (nat base) (wp_revisions p)) = []" "m \<noteq> 0 \<Longrightarrow> revision_is g m p" by auto
qed

text \<open>After a successful search, nothing of the generation is in the repository.\<close>

lemma not_found_none:
  assumes "record_ok E w g s" "ws_base_known s" "home E s = path"
    and "findGeneration c site (ww_repo w path) (ws_base s + 1) g = Some 0"
  shows "published_revs g (ww_repo w path) = []"
proof -
  let ?v = "wp_revisions (ww_repo w path)"
  have b: "0 \<le> ws_base s" using assms(1) by (simp add: record_ok_def validateRecord_def)
  have "filter (of_generation g) (take (nat (ws_base s)) ?v) = []" using assms(1-3) by (auto simp: record_ok_def)
  moreover have "filter (of_generation g) (drop (nat (ws_base s)) ?v) = []" by (rule findGeneration_spec(1) [OF assms(4) b refl])
  ultimately have "filter (of_generation g) (take (nat (ws_base s)) ?v @ drop (nat (ws_base s)) ?v) = []" by (simp only: filter_append append_Nil)
  then show ?thesis by (simp add: published_revs_def)
qed

lemma publish_new_step:
  assumes "publish_new E c path storage r w = (x, w')" and ok: "world_ok E calm w"
    and s: "rec_at w (gen_of r) = Some s" "agrees s r" "ws_state r = StateCommitting" "ws_base_known r" "path = home E r"
    and st: "StoragePath (we_uuid E) (ws_identity r) = Inr storage"
    and c: "ordinary c" "fresh_txn c (ww_repo w path)"
    and calm: "calm \<Longrightarrow> calm_call c (gen_of r) (ww_repo w path) \<and> published_revs (gen_of r) (ww_repo w path) = []"
  shows "effects E calm w w'" "rec_at w' = rec_at w" "\<And>m. x = Inr m \<Longrightarrow> revision_is (gen_of r) m (ww_repo w' path)"
proof -
  let ?g = "gen_of r"
  note a = s(2) [unfolded agrees_def]
  define p0 where "p0 = foldl (\<lambda>p t. commit_txn t p) (ww_repo w path) (si_orphans (wc_svn c))"
  have 0: "effects E calm w (set_repo path p0 w)" unfolding p0_def by (rule orphans_step)
  have ok0: "world_ok E calm (set_repo path p0 w)" by (rule effects_ok [OF 0 ok])
  have d0: "distinct (map fst (wp_txns p0))" using repo_okD(3) [OF world_okD(2) [OF ok0], of path] by simp
  obtain rm p1 where rm: "removeAbandoned c ?g p0 = (rm, p1)" by force
  obtain P where p1: "p1 = p0\<lparr>wp_txns := filter P (wp_txns p0)\<rparr>"
    and gone: "rm \<longrightarrow> (\<forall>x \<in> set (wp_txns p0). of_generation ?g (snd x) \<longrightarrow> si_txn (wc_svn c) (fst x) \<noteq> TxnGone) \<longrightarrow> open_txns ?g p1 = []"
    by (rule removeAbandoned_spec [OF rm d0])
  have "effect E calm (set_repo path p0 w) (set_repo path p1 w)"
    using effect.remove [of E calm "set_repo path p0 w" path P] by (simp add: p1)
  then have 1: "effects E calm w (set_repo path p1 w)" using 0 by (meson rtranclp.rtrancl_into_rtrancl)
  define w1 where "w1 = commit_foreign c 2 path (set_repo path p1 w)"
  have 2: "effects E calm w w1"
    unfolding w1_def using 1 commit_foreign_step [OF c(1)] by (meson rtranclp.rtrancl_into_rtrancl)
  have w1: "rec_at w1 = rec_at w" "bytes_of w1 = bytes_of w" "ww_payload w1 = ww_payload w"
    "wp_txns (ww_repo w1 path) = filter P (wp_txns p0)" "wp_revisions (ww_repo w1 path) = wp_revisions p0 @ si_foreign (wc_svn c) 2"
    by (simp_all add: w1_def commit_foreign_eq p1)
  have none: "published_revs ?g (ww_repo w1 path) = [] \<and> open_txns ?g (ww_repo w1 path) = []" if "calm" "rm"
  proof -
    have p: "p0 = ww_repo w path" using calm [OF \<open>calm\<close>] by (simp add: p0_def calm_call_def)
    have "open_txns ?g p1 = []" using calm [OF \<open>calm\<close>] by (intro gone [rule_format] \<open>rm\<close>) (simp add: p calm_call_def)
    moreover have "filter (of_generation ?g) (si_foreign (wc_svn c) 2) = []"
      using c(1) by (simp add: ordinary_def filter_empty_conv list_all_iff of_generation_def)
    ultimately show ?thesis using calm [OF \<open>calm\<close>] by (simp add: published_revs_def open_txns_def w1 p1 p)
  qed
  have fresh: "t \<notin> fst ` set (wp_txns (ww_repo w1 path))" if "si_mucc (wc_svn c) = MuccFail (Some t)" for t
    using that c(2) orphans_names [of "ww_repo w path" "si_orphans (wc_svn c)"]
    unfolding fresh_txn_def w1(4) p0_def by auto
  have mucc: "effects E calm w (set_repo path (snd (svnmucc (si_mucc (wc_svn c)) (whale_revision ex storage (ws_identity r) b)
      (ww_repo w1 path))) w1)" if "rm" "ww_payload w ?g = Some b" for ex b
  proof -
    have "b = bytes_of w1 (gen_of s)" using that(2) a by (simp add: w1(2) bytes_of_def)
    then have "effect E calm w1 (set_repo path (snd (svnmucc (si_mucc (wc_svn c)) (whale_revision ex storage (ws_identity r) b)
        (ww_repo w1 path))) w1)"
      using effect.mucc [of w1 s E storage calm "si_mucc (wc_svn c)" ex] a s st none [OF _ that(1)] fresh by (simp add: w1(1))
    then show ?thesis using 2 by (meson rtranclp.rtrancl_into_rtrancl)
  qed
  note def = assms(1) [unfolded publish_new_def Let_def p0_def [symmetric] rm prod.case]
  have "effects E calm w w' \<and> rec_at w' = rec_at w \<and> (\<forall>m. x = Inr m \<longrightarrow> revision_is ?g m (ww_repo w' path))"
  proof (cases "rm \<and> si_tree (wc_svn c) \<noteq> None \<and> ww_payload w ?g \<noteq> None")
    case False
    then have "x = Inl WIo" "w' = set_repo path p1 w \<or> w' = w1"
      using def w1(3) by (auto simp: w1_def [symmetric] split: option.splits bool.splits)
    then show ?thesis using 1 2 w1(1) by auto
  next
    case True
    then obtain ex b where t: "rm" "si_tree (wc_svn c) = Some ex" "ww_payload w ?g = Some b" by auto
    obtain fin p2 where m: "svnmucc (si_mucc (wc_svn c)) (whale_revision ex storage (ws_identity r) b) (ww_repo w1 path) = (fin, p2)" by force
    have 3: "effects E calm w (set_repo path p2 w1)" using mucc [OF t(1,3), of ex] m by simp
    define w2 where "w2 = commit_foreign c 3 path (set_repo path p2 w1)"
    have 4: "effects E calm w w2"
      unfolding w2_def using 3 commit_foreign_step [OF c(1)] by (meson rtranclp.rtrancl_into_rtrancl)
    have w2: "rec_at w2 = rec_at w" by (simp add: w2_def commit_foreign_eq w1)
    have b: "0 \<le> ws_base r" using world_okD(1) [OF ok s(1)] a by (simp add: record_ok_def validateRecord_def)
    have x: "x = Inl WIo \<and> w' = set_repo path p2 w1 \<or> (w' = w2 \<and>
        (\<forall>m. x = Inr m \<longrightarrow> findGeneration c 2 (ww_repo w2 path) (ws_base r + 1) ?g = Some m \<and> m \<noteq> 0))"
      using def t m w1(3)
      by (auto simp: w1_def [symmetric] w2_def [symmetric] split: option.splits bool.splits if_splits)
    then show ?thesis using 3 4 w1(1) w2 findGeneration_spec(2) [OF _ b] by auto
  qed
  then show "effects E calm w w'" "rec_at w' = rec_at w" "\<And>m. x = Inr m \<Longrightarrow> revision_is (gen_of r) m (ww_repo w' path)" by auto
qed

lemma commit_foreign_fields [simp]:
  "rec_at (commit_foreign c k path w) = rec_at w" "bytes_of (commit_foreign c k path w) = bytes_of w"
  "ww_queue (commit_foreign c k path w) = ww_queue w" "wp_txns (ww_repo (commit_foreign c k path w) path) = wp_txns (ww_repo w path)"
  by (simp_all add: commit_foreign_eq)

lemma fresh_txn_cong: "wp_txns p' = wp_txns p \<Longrightarrow> fresh_txn c p' = fresh_txn c p"
  by (simp add: fresh_txn_def)

lemma calm_call_cong: "wp_txns p' = wp_txns p \<Longrightarrow> calm_call c g p' = calm_call c g p"
  by (simp add: calm_call_def)

lemma PublishWhale_step:
  assumes "PublishWhale E c path r w = (x, w')" and ok: "world_ok E calm w"
    and s: "rec_at w (gen_of r) = Some s" "agrees s r" "path = home E r"
    and c: "ordinary c" "fresh_txn c (ww_repo w path)" "calm \<Longrightarrow> calm_call c (gen_of r) (ww_repo w path)"
  shows "effects E calm w w'"
    and "\<And>n r1. x = Inr (n, r1) \<Longrightarrow> revision_is (gen_of r) n (ww_repo w' path) \<and> ws_identity r1 = ws_identity r
      \<and> ws_state r1 = StateCommitting \<and> ws_bytes r1 = ws_bytes r \<and> (\<exists>s'. rec_at w' (gen_of r) = Some s' \<and> agrees s' r1)"
proof -
  let ?g = "gen_of r"
  note a = s(2) [unfolded agrees_def]
  define w0 where "w0 = commit_foreign c 0 path w"
  define r1 where "r1 = (if ws_base_known r then r else r\<lparr>ws_base := youngest (ww_repo w0 path), ws_base_known := True\<rparr>)"
  have r1: "ws_identity r1 = ws_identity r" "ws_state r1 = ws_state r" "ws_base_known r1" "ws_bytes r1 = ws_bytes r" by (simp_all add: r1_def)
  obtain e w1 where sv: "(if ws_base_known r then (None, w0) else Save_journal E c 4 r1 w0) = (e, w1)" by force
  have 0: "effects E calm w w0" unfolding w0_def using commit_foreign_step [OF c(1)] by blast
  have 1: "effects E calm w w1 \<and> wp_txns (ww_repo w1 path) = wp_txns (ww_repo w path)
      \<and> (e = None \<longrightarrow> (\<exists>s1. rec_at w1 ?g = Some s1 \<and> agrees s1 r1))"
    if cm: "ws_state r = StateCommitting"
  proof (cases "ws_base_known r")
    case True
    then show ?thesis using sv 0 s by (auto simp: w0_def r1_def)
  next
    case False
    then have sv': "Save_journal E c 4 r1 w0 = (e, w1)" using sv by simp
    have st: "established E w0 s r1" using a cm False s(3) by (simp add: established_def r1_def)
    have s0: "rec_at w0 (gen_of r1) = Some s" using s(1) r1(1) by (simp add: w0_def)
    note sp = Save_step [OF sv' s0 st]
    have "wp_txns (ww_repo w1 path) = wp_txns (ww_repo w path)" using sp(2) by (auto simp: w0_def)
    moreover have "\<exists>s1. rec_at w1 ?g = Some s1 \<and> agrees s1 r1" if "e = None"
      using sp(3) [OF that] r1(1) by simp
    moreover have "effects E calm w w1" using 0 sp(1) by (rule rtranclp_trans)
    ultimately show ?thesis by blast
  qed
  define w2 where "w2 = commit_foreign c 1 path w1"
  have "effects E calm w w' \<and> (\<forall>n r2. x = Inr (n, r2) \<longrightarrow> revision_is ?g n (ww_repo w' path) \<and> r2 = r1
      \<and> ws_state r = StateCommitting \<and> (\<exists>s'. rec_at w' ?g = Some s' \<and> agrees s' r1))"
  proof (cases "ws_state r = StateCommitting \<and> is_abs path \<and> we_complete E
      \<and> (\<exists>storage. StoragePath (we_uuid E) (ws_identity r) = Inr storage) \<and> (ws_base_known r \<or> si_youngest (wc_svn c) 0) \<and> e = None")
    case False
    have "(w' = w \<or> w' = w0 \<or> w' = w1 \<and> ws_state r = StateCommitting) \<and> (\<forall>y. x \<noteq> Inr y)"
      using assms(1) False sv unfolding PublishWhale_def Let_def w0_def [symmetric] r1_def [symmetric]
      by (auto split: if_splits sum.splits option.splits)
    then show ?thesis using 0 1 by auto
  next
    case True
    then obtain storage where g: "ws_state r = StateCommitting" "StoragePath (we_uuid E) (ws_identity r) = Inr storage" "e = None" by auto
    obtain s1 where s1: "rec_at w1 ?g = Some s1" "agrees s1 r1" using 1 g by blast
    have 2: "effects E calm w w2"
      unfolding w2_def using 1 [OF g(1)] commit_foreign_step [OF c(1)] by (meson rtranclp.rtrancl_into_rtrancl)
    have ok2: "world_ok E calm w2" by (rule effects_ok [OF 2 ok])
    have s2: "rec_at w2 ?g = Some s1" using s1(1) by (simp add: w2_def)
    note a1 = s1(2) [unfolded agrees_def] and k = world_okD(1) [OF ok2 s2]
    have b: "0 \<le> ws_base r1" using k a1 by (simp add: record_ok_def validateRecord_def)
    have t2: "wp_txns (ww_repo w2 path) = wp_txns (ww_repo w path)" using 1 [OF g(1)] by (simp add: w2_def)
    have def: "(case findGeneration c 1 (ww_repo w2 path) (ws_base r1 + 1) ?g of None \<Rightarrow> (Inl WIo, w2)
       | Some n \<Rightarrow> if n \<noteq> 0 then (Inr (n, r1), w2)
          else (case publish_new E c path storage r1 w2 of (Inl e, w3) \<Rightarrow> (Inl e, w3) | (Inr m, w3) \<Rightarrow> (Inr (m, r1), w3))) = (x, w')"
      using assms(1) True g
      unfolding PublishWhale_def Let_def w0_def [symmetric] r1_def [symmetric] sv w2_def r1(1) by auto
    show ?thesis
    proof (cases "findGeneration c 1 (ww_repo w2 path) (ws_base r1 + 1) ?g")
      case None
      then show ?thesis using def 2 by auto
    next
      case (Some n)
      show ?thesis
      proof (cases "n = 0")
        case False
        then show ?thesis using def Some 2 findGeneration_spec(2) [OF Some b] g(1) s2 s1(2) by auto
      next
        case True
        obtain y w3 where pn: "publish_new E c path storage r1 w2 = (y, w3)" by force
        have none: "published_revs ?g (ww_repo w2 path) = []"
          using not_found_none [OF k _ _, of path c 1] Some True a1 r1(1,3) s(3) by simp
        have "effects E calm w2 w3" "rec_at w3 = rec_at w2" "\<And>m. y = Inr m \<Longrightarrow> revision_is (gen_of r1) m (ww_repo w3 path)"
          using publish_new_step [OF pn ok2, of s1] s2 s1(2) r1 g s(3) c none
            fresh_txn_cong [OF t2] calm_call_cong [OF t2] by simp_all
        moreover have "w' = w3" "\<And>n r2. x = Inr (n, r2) \<Longrightarrow> y = Inr n \<and> r2 = r1" using def Some True pn by (cases y; simp)+
        ultimately show ?thesis using 2 s2 s1(2) r1(1) g(1) by (metis rtranclp_trans)
      qed
    qed
  qed
  then show "effects E calm w w'"
    and "\<And>n r1. x = Inr (n, r1) \<Longrightarrow> revision_is (gen_of r) n (ww_repo w' path) \<and> ws_identity r1 = ws_identity r
      \<and> ws_state r1 = StateCommitting \<and> ws_bytes r1 = ws_bytes r \<and> (\<exists>s'. rec_at w' (gen_of r) = Some s' \<and> agrees s' r1)"
    using r1 by auto
qed

lemma publish_locked_step:
  assumes "publish_locked E c path r w = (x, w')" and ok: "world_ok E calm w"
    and s: "rec_at w (gen_of r) = Some s" "agrees s r" "path = home E r"
    and c: "ordinary c" "fresh_txn c (ww_repo w path)" "calm \<Longrightarrow> calm_call c (gen_of r) (ww_repo w path)"
  shows "effects E calm w w'"
proof -
  obtain y w1 where pw: "PublishWhale E c path r w = (y, w1)" by force
  have ps: "effects E calm w w1" by (rule PublishWhale_step(1) [OF pw ok s c])
  show ?thesis
  proof (cases "ws_state r = StateCommitting \<and> (\<exists>n r1. y = Inr (n, r1))")
    case False
    then have "w' = w \<or> w' = w1"
      using assms(1) pw by (cases y) (auto simp: publish_locked_def split: if_splits)
    then show ?thesis using ps by auto
  next
    case True
    then obtain n r1 where y: "y = Inr (n, r1)" by auto
    obtain s' where p: "revision_is (gen_of r) n (ww_repo w1 path)" "ws_identity r1 = ws_identity r" "ws_state r1 = StateCommitting"
      and s': "rec_at w1 (gen_of r) = Some s'" "agrees s' r1"
      using PublishWhale_step(2) [OF pw ok s c y] by blast
    let ?r = "r1\<lparr>ws_revision := n, ws_state := StatePublished\<rparr>"
    obtain e w2 where sv: "Save_journal E c 5 ?r w1 = (e, w2)" by force
    have st: "established E w1 s' ?r"
      using s'(2) p s(3) by (simp add: established_def agrees_def)
    have 2: "effects E calm w w2"
      using ps Save_step(1) [OF sv _ st] s'(1) p(2) by (simp add: rtranclp_trans [of "effect E calm" w w1 w2])
    show ?thesis
    proof (cases e)
      case None
      then have "w2 = put_record (stamp c ?r) w1" using Save_ok sv by blast
      then have "effects E calm w2 (snd (cleanup E c (ws_identity ?r) w2))"
        by (intro cleanup_step [where r = "stamp c ?r"]) (simp_all add: Terminal_def)
      moreover have "w' = snd (cleanup E c (ws_identity ?r) w2)"
        using assms(1) True pw y sv None by (auto simp: publish_locked_def Let_def split: prod.splits option.splits)
      ultimately show ?thesis using 2 by (simp add: rtranclp_trans [of "effect E calm" w w2 w'])
    next
      case (Some z)
      then have "w' = w2" using assms(1) True pw y sv by (auto simp: publish_locked_def Let_def)
      then show ?thesis using 2 by simp
    qed
  qed
qed

text \<open>Saves and cleanups leave the repositories alone.\<close>

lemma Save_repo: "Save_journal E c k r w = (e, w') \<Longrightarrow> ww_repo w' = ww_repo w"
  by (erule Save_cases) auto

lemma cleanup_repo: "ww_repo (snd (cleanup E c i w)) = ww_repo w"
proof -
  obtain ok w1 where 1: "release_put c (wi_generation i) w = (ok, w1)" by force
  have "ww_repo w1 = ww_repo w" using release_put_step [OF 1] by auto
  then show ?thesis by (simp add: cleanup_def 1 queue_step_frame(3) [OF Release_step] split: prod.splits)
      (metis queue_step_frame(3) [OF Release_step] snd_conv)
qed

lemma check_digest_repo: "check_digest E c r w = (e, r', w') \<Longrightarrow> ww_repo w' = ww_repo w"
  by (auto simp: check_digest_def Let_def cleanup_repo dest: Save_repo split: option.splits prod.splits if_splits)

lemma prepareCommit_repo: "prepareCommit E c r w = (e, r', w') \<Longrightarrow> ww_repo w' = ww_repo w"
  by (auto simp: prepareCommit_def Let_def dest!: Save_repo check_digest_repo split: option.splits prod.splits if_splits)

lemma authorize_path: "authorize_put E c repo wr = Inr path \<Longrightarrow> path = repository_path E repo"
  by (auto simp: authorize_put_def split: if_splits option.splits)

lemma commitLocked_step:
  assumes "commitLocked E c i w = (x, w')" and ok: "world_ok E calm w"
    and c: "ordinary c" "fresh_txn c (ww_repo w (repository_path E (wi_repo i)))"
      "calm \<Longrightarrow> calm_call c (wi_generation i) (ww_repo w (repository_path E (wi_repo i)))"
  shows "effects E calm w w'"
proof (cases "\<exists>path r. authorize_put E c (wi_repo i) True = Inr path \<and> requireRecord E c i w = Inr r")
  case False
  then have "w' = w" using assms(1) by (auto simp: commitLocked_def split: sum.splits)
  then show ?thesis by simp
next
  case True
  then obtain path r where au: "authorize_put E c (wi_repo i) True = Inr path" and rq: "requireRecord E c i w = Inr r" by auto
  note q = requireRecordD [OF rq] and def = assms(1) [unfolded commitLocked_def au sum.case rq]
  have p: "path = home E r" using authorize_path [OF au] q by simp
  obtain e1 w1 where rs: "reserve_put c (gen_of r) (wi_size (ws_identity r)) w = (e1, w1)" by force
  then obtain l where l: "w1 = w\<lparr>ww_ledger := l\<rparr>" using reserve_put_step by blast
  have 1: "effects E calm w w1" unfolding l by (intro r_into_rtranclp effect.ledger)
  have ok1: "world_ok E calm w1" by (rule effects_ok [OF 1 ok])
  have r1: "rec_at w1 (gen_of r) = Some r" using q by (simp add: l)
  have pl: "effects E calm w1 w2" if "publish_locked E c path r w1 = (y, w2)" for y w2
    by (rule publish_locked_step [OF that ok1 r1 agrees_refl p]) (use c q p in \<open>simp_all add: l\<close>)
  have pc: "effects E calm w1 w3" if pc: "prepareCommit E c r w1 = (e, r2, w2)" "e = None \<Longrightarrow> publish_locked E c path r2 w2 = (y, w3)"
      "e \<noteq> None \<Longrightarrow> w3 = w2" "ws_state r = StateReceiving \<or> ws_state r = StateValidating" "ws_bytes r = wi_size (ws_identity r)"
    for e r2 w2 y w3
  proof -
    have 2: "effects E calm w1 w2" using prepareCommit_step(1) [OF pc(1) r1 agrees_refl] pc(4,5) by blast
    show ?thesis
    proof (cases e)
      case None
      have r2: "r2 = r\<lparr>ws_state := StateCommitting\<rparr>" "rec_at w2 (gen_of r) = Some (stamp c r2)" 
        using prepareCommit_step(2) [OF pc(1) r1 agrees_refl _ None] pc(4,5) by blast+
      have repo: "ww_repo w2 = ww_repo w" using prepareCommit_repo [OF pc(1)] by (simp add: l)
      have "effects E calm w2 w3"
        by (rule publish_locked_step [OF pc(2) [OF None] effects_ok [OF 2 ok1], of "stamp c r2"])
          (use r2 p c q in \<open>simp_all add: repo\<close>)
      then show ?thesis using 2 by (simp add: rtranclp_trans [of "effect E calm" w1 w2 w3])
    qed (use 2 pc(3) in simp)
  qed
  show ?thesis
  proof (cases "ws_state r = StatePublished")
    case True
    then have "w' = snd (cleanup E c i w)" using def q by (auto split: prod.splits option.splits)
    then show ?thesis using cleanup_step(1) [of w i r] q True by (simp add: Terminal_def)
  next
    case False
    have "w' = w \<or> w' = w1 \<or> effects E calm w1 w'"
    proof (cases "Terminal (ws_state r) \<or> e1 \<noteq> None \<or> PayloadPath E c (gen_of r) w1 \<noteq> None
        \<or> (ws_state r = StateReceiving \<or> ws_state r = StateValidating) \<and> ws_bytes r \<noteq> wi_size (ws_identity r)")
      case True
      then show ?thesis using def False rs by (auto split: if_splits option.splits)
    next
      case go: False
      show ?thesis
      proof (cases "ws_state r = StateReceiving \<or> ws_state r = StateValidating")
        case True
        obtain e r2 w2 where pr: "prepareCommit E c r w1 = (e, r2, w2)" by (metis prod_cases3)
        have "effects E calm w1 w'"
          by (rule pc [OF pr, of x]) (use def False go rs pr True in \<open>auto split: option.splits\<close>)
        then show ?thesis by simp
      next
        case n: False
        then have "publish_locked E c path r w1 = (x, w')" using def False go rs by simp
        then show ?thesis using pl by simp
      qed
    qed
    then show ?thesis using 1 by (auto intro: rtranclp_trans)
  qed
qed

end
