(* ===== verification/Whale_System.thy ===== *)
theory Whale_System
  imports Whale_Runs
begin

text \<open>
  The runs of the Whale upload service as a step relation over the durable state and the windows
  in flight, what every step keeps of each generation, and the invariant over all runs.
\<close>

section \<open>Runs\<close>

text \<open>
  A request for a window is in flight after its generation was created or found, and after it
  claimed its path. A process may die at any moment.
\<close>

datatype flight = Begun wrequest | Claimed wrequest

record whale_run =
  wn_world :: whale_world
  wn_flights :: "flight list"

inductive whale_step :: "whale_env \<Rightarrow> bool \<Rightarrow> whale_run \<Rightarrow> whale_run \<Rightarrow> bool" for E calm where
  start: "serve_begin E c rq (wn_world n) = (e, w) \<Longrightarrow>
    whale_step E calm n \<lparr>wn_world = w, wn_flights = (if e = None then Begun rq # wn_flights n else wn_flights n)\<rparr>"
| claim: "Begun rq \<in> set (wn_flights n) \<Longrightarrow> Claim E c (wq_identity rq) (wn_world n) = (x, w) \<Longrightarrow>
    whale_step E calm n \<lparr>wn_world = w, wn_flights = (if x = Inr 0 then [Claimed rq] else []) @ remove1 (Begun rq) (wn_flights n)\<rparr>"
| window: "Claimed rq \<in> set (wn_flights n) \<Longrightarrow> window_locked E c rq (wn_world n) = (x, w) \<Longrightarrow>
    whale_step E calm n \<lparr>wn_world = w, wn_flights = remove1 (Claimed rq) (wn_flights n)\<rparr>"
| commit: "Commit_put E c i (wn_world n) = (x, w) \<Longrightarrow> ordinary c
    \<Longrightarrow> fresh_txn c (ww_repo (wn_world n) (repository_path E (wi_repo i)))
    \<Longrightarrow> (calm \<Longrightarrow> calm_call c (wi_generation i) (ww_repo (wn_world n) (repository_path E (wi_repo i))))
    \<Longrightarrow> whale_step E calm n \<lparr>wn_world = w, wn_flights = wn_flights n\<rparr>"
| others: "list_all (\<lambda>v. wv_generation v = None) vs \<Longrightarrow>
    whale_step E calm n \<lparr>wn_world = set_repo path ((ww_repo (wn_world n) path)
        \<lparr>wp_revisions := wp_revisions (ww_repo (wn_world n) path) @ vs\<rparr>) (wn_world n), wn_flights = wn_flights n\<rparr>"
| late: "whale_step E calm n \<lparr>wn_world = set_repo path (commit_txn t (ww_repo (wn_world n) path)) (wn_world n), wn_flights = wn_flights n\<rparr>"
| crash: "whale_step E calm n \<lparr>wn_world = wn_world n, wn_flights = remove1 f (wn_flights n)\<rparr>"

text \<open>A run starts with no state of the service, and repositories without its revisions.\<close>

definition whale_init :: "whale_run \<Rightarrow> bool" where
  "whale_init n \<longleftrightarrow> (\<forall>g. ww_journal (wn_world n) g = None) \<and> (\<forall>k. ww_queue (wn_world n) k = None) \<and> wn_flights n = []
     \<and> (\<forall>path. list_all (\<lambda>v. wv_generation v = None) (wp_revisions (ww_repo (wn_world n) path)) \<and> wp_txns (ww_repo (wn_world n) path) = [])"

section \<open>Progress\<close>

text \<open>Nothing that was durable for a generation is lost, and terminal states are final.\<close>

definition progress :: "whale_world \<Rightarrow> whale_world \<Rightarrow> bool" where
  "progress w w' \<longleftrightarrow> (\<forall>g r. rec_at w g = Some r \<longrightarrow> (\<exists>r'. rec_at w' g = Some r' \<and> ws_identity r' = ws_identity r
     \<and> ws_bytes r \<le> ws_bytes r' \<and> take (nat (ws_bytes r)) (bytes_of w' g) = take (nat (ws_bytes r)) (bytes_of w g)
     \<and> (Terminal (ws_state r) \<longrightarrow> ws_state r' = ws_state r) \<and> (ws_state r' = StateReceiving \<longrightarrow> ws_state r = StateReceiving)))"

lemma progress_refl: "progress w w"
  by (simp add: progress_def)

lemma progress_same: "rec_at w' = rec_at w \<Longrightarrow> bytes_of w' = bytes_of w \<Longrightarrow> progress w w'"
  by (simp add: progress_def)

lemma progressD:
  assumes "progress w w'" "rec_at w g = Some r"
  obtains r' where "rec_at w' g = Some r'" "ws_identity r' = ws_identity r" "ws_bytes r \<le> ws_bytes r'"
    "take (nat (ws_bytes r)) (bytes_of w' g) = take (nat (ws_bytes r)) (bytes_of w g)"
    "Terminal (ws_state r) \<Longrightarrow> ws_state r' = ws_state r" "ws_state r' = StateReceiving \<Longrightarrow> ws_state r = StateReceiving"
  using assms unfolding progress_def by blast

lemma progress_trans:
  assumes "progress u v" "progress v w"
  shows "progress u w"
  unfolding progress_def
proof (intro allI impI)
  fix g r assume "rec_at u g = Some r"
  from progressD [OF assms(1) this] obtain s where s: "rec_at v g = Some s" "ws_identity s = ws_identity r" "ws_bytes r \<le> ws_bytes s"
    "take (nat (ws_bytes r)) (bytes_of v g) = take (nat (ws_bytes r)) (bytes_of u g)"
    "Terminal (ws_state r) \<longrightarrow> ws_state s = ws_state r" "ws_state s = StateReceiving \<longrightarrow> ws_state r = StateReceiving" by blast
  from progressD [OF assms(2) s(1)] obtain t where t: "rec_at w g = Some t" "ws_identity t = ws_identity s" "ws_bytes s \<le> ws_bytes t"
    "take (nat (ws_bytes s)) (bytes_of w g) = take (nat (ws_bytes s)) (bytes_of v g)"
    "Terminal (ws_state s) \<longrightarrow> ws_state t = ws_state s" "ws_state t = StateReceiving \<longrightarrow> ws_state s = StateReceiving" by blast
  have "take (nat (ws_bytes r)) (bytes_of w g) = take (nat (ws_bytes r)) (bytes_of v g)"
  proof -
    have "min (nat (ws_bytes r)) (nat (ws_bytes s)) = nat (ws_bytes r)" using s(3) by simp
    then show ?thesis using t(4) by (metis take_take)
  qed
  then have b: "take (nat (ws_bytes r)) (bytes_of w g) = take (nat (ws_bytes r)) (bytes_of u g)" using s(4) by (rule trans)
  show "\<exists>r'. rec_at w g = Some r' \<and> ws_identity r' = ws_identity r \<and> ws_bytes r \<le> ws_bytes r'
     \<and> take (nat (ws_bytes r)) (bytes_of w g) = take (nat (ws_bytes r)) (bytes_of u g)
     \<and> (Terminal (ws_state r) \<longrightarrow> ws_state r' = ws_state r) \<and> (ws_state r' = StateReceiving \<longrightarrow> ws_state r = StateReceiving)"
  proof (intro exI conjI)
    show "ws_identity t = ws_identity r" "ws_bytes r \<le> ws_bytes t" using s(2,3) t(2,3) by simp_all
    show "Terminal (ws_state r) \<longrightarrow> ws_state t = ws_state r" using s(5) t(5) by force
  qed (use t(1,6) s(6) b in blast)+
qed

lemma to_receiving: "CanTransition d s StateReceiving \<Longrightarrow> s = StateReceiving"
  by (auto simp: CanTransition_def split: if_splits)

lemma progress_save:
  assumes "rec_at w (gen_of r') = Some r" "advances E w r r'"
  shows "progress w (put_record r' w)"
proof -
  have "ws_identity r' = ws_identity r" "ws_bytes r \<le> ws_bytes r'" and t: "CanTransition (ws_direction r) (ws_state r) (ws_state r')"
    using assms(2) unfolding advances_def by blast+
  moreover have "Terminal (ws_state r) \<longrightarrow> ws_state r' = ws_state r" using CanTransition_terminal [OF t] by blast
  moreover have "ws_state r' = StateReceiving \<longrightarrow> ws_state r = StateReceiving" using t to_receiving by auto
  ultimately show ?thesis using assms(1) unfolding progress_def by simp
qed

lemma progress_effect: "effect E calm w w' \<Longrightarrow> world_ok E calm w \<Longrightarrow> progress w w'"
proof (induction rule: effect.induct)
  case (create w r)
  then have "rec_at w (gen_of r) = None" by (simp add: rec_at_def)
  then show ?case unfolding progress_def by simp
next
  case (partial w g r fl)
  have "ws_bytes r \<le> int (length (bytes_of w g))" using world_okD(1) [OF partial(5) partial(1)] by (simp add: record_ok_def)
  then have k: "take (nat (ws_bytes r)) (bytes_of (put_payload g fl w) g) = take (nat (ws_bytes r)) (bytes_of w g)"
    using partial(4) by (auto simp: keeps_prefix_def)
  show ?case unfolding progress_def
  proof (intro allI impI)
    fix h s assume s: "rec_at w h = Some s"
    have "take (nat (ws_bytes s)) (bytes_of (put_payload g fl w) h) = take (nat (ws_bytes s)) (bytes_of w h)"
      using k partial(1) s by (cases "h = g") (simp_all add: bytes_of_put_payload)
    then show "\<exists>r'. rec_at (put_payload g fl w) h = Some r' \<and> ws_identity r' = ws_identity s \<and> ws_bytes s \<le> ws_bytes r'
     \<and> take (nat (ws_bytes s)) (bytes_of (put_payload g fl w) h) = take (nat (ws_bytes s)) (bytes_of w h)
     \<and> (Terminal (ws_state s) \<longrightarrow> ws_state r' = ws_state s) \<and> (ws_state r' = StateReceiving \<longrightarrow> ws_state s = StateReceiving)"
      using s by simp
  qed
next
  case (save w r' r)
  then show ?case by (intro progress_save)
qed (auto intro!: progress_same simp: queue_step_frame [OF Claim_step] queue_step_frame [OF Release_step])

lemma progress_effects: "effects E calm w w' \<Longrightarrow> world_ok E calm w \<Longrightarrow> progress w w'"
proof (induction rule: rtranclp_induct)
  case (step u v)
  then show ?case using progress_effect [OF step(2) effects_ok [OF step(1)]] progress_trans by blast
qed (rule progress_refl)

section \<open>The invariant of runs\<close>

lemma holds_path_kept:
  assumes "effect E calm w w'" "holds_path E j w" "rec_at w (wi_generation j) = Some r" "\<not> Terminal (ws_state r)"
  shows "holds_path E j w'"
  using assms
proof (induction rule: effect.induct)
  case claim
  then show ?case by (intro holds_path_claim)
next
  case (release w i s)
  then have "wi_generation j \<noteq> wi_generation i" by auto
  then show ?case using release(4) holds_path_other [OF Release_step] by blast
qed (simp_all add: holds_path_def)

text \<open>
  A window in flight is a valid request of a generation that exists; once it has claimed the
  path, the path is held until the generation ends.
\<close>

definition request_of :: "flight \<Rightarrow> wrequest" where
  "request_of f = (case f of Begun rq \<Rightarrow> rq | Claimed rq \<Rightarrow> rq)"

definition flight_ok :: "whale_env \<Rightarrow> whale_world \<Rightarrow> flight \<Rightarrow> bool" where
  "flight_ok E w f \<longleftrightarrow>
     Validate_request (we_uuid E) (request_of f) \<and> wq_operation (request_of f) = OpPutWindow
   \<and> (\<exists>r. rec_at w (wi_generation (wq_identity (request_of f))) = Some r
       \<and> (ws_identity r = wq_identity (request_of f) \<and> \<not> Terminal (ws_state r) \<and> f = Claimed (request_of f)
          \<longrightarrow> holds_path E (wq_identity (request_of f)) w))"

definition run_ok :: "whale_env \<Rightarrow> bool \<Rightarrow> whale_run \<Rightarrow> bool" where
  "run_ok E calm n \<longleftrightarrow> world_ok E calm (wn_world n) \<and> (\<forall>f \<in> set (wn_flights n). flight_ok E (wn_world n) f)"

lemma flight_ok_effect:
  assumes "effect E calm w w'" "world_ok E calm w" "flight_ok E w f"
  shows "flight_ok E w' f"
proof -
  let ?i = "wq_identity (request_of f)"
  obtain r where r: "rec_at w (wi_generation ?i) = Some r"
    and h: "ws_identity r = ?i \<and> \<not> Terminal (ws_state r) \<and> f = Claimed (request_of f) \<longrightarrow> holds_path E ?i w"
    using assms(3) unfolding flight_ok_def by blast
  from progressD [OF progress_effect [OF assms(1,2)] r] obtain r' where r': "rec_at w' (wi_generation ?i) = Some r'"
    "ws_identity r' = ws_identity r" "Terminal (ws_state r) \<longrightarrow> ws_state r' = ws_state r" by blast
  have "holds_path E ?i w'" if "ws_identity r' = ?i" "\<not> Terminal (ws_state r')" "f = Claimed (request_of f)"
    using that r' h holds_path_kept [OF assms(1) _ r] by force
  then show ?thesis using assms(3) r'(1) unfolding flight_ok_def by blast
qed

lemma flight_ok_effects: "effects E calm w w' \<Longrightarrow> world_ok E calm w \<Longrightarrow> flight_ok E w f \<Longrightarrow> flight_ok E w' f"
  by (induction rule: rtranclp_induct) (auto intro: flight_ok_effect effects_ok)

lemma Claim_holds: "Claim E c i w = (Inr 0, w') \<Longrightarrow> holds_path E i w'"
  by (auto simp: Claim_def load_wqueue_def save_wqueue_def holds_path_def Let_def
      split: if_splits option.splits stored.splits prod.splits bool.splits save_outcome.splits)

lemma Commit_put_step:
  assumes "Commit_put E c i w = (x, w')" "world_ok E calm w" "ordinary c"
    "fresh_txn c (ww_repo w (repository_path E (wi_repo i)))"
    "calm \<Longrightarrow> calm_call c (wi_generation i) (ww_repo w (repository_path E (wi_repo i)))"
  shows "effects E calm w w'"
proof (cases "commitLocked E c i w = (x, w')")
  case True
  then show ?thesis using assms(2-) by (rule commitLocked_step)
next
  case False
  then have "w' = w" using assms(1) by (auto simp: Commit_put_def split: if_splits)
  then show ?thesis by simp
qed

lemma whale_step_effects: "whale_step E calm n n' \<Longrightarrow> run_ok E calm n \<Longrightarrow> effects E calm (wn_world n) (wn_world n')"
proof (induction rule: whale_step.induct)
  case (start c rq n e w)
  then show ?case using serve_begin_step(1) by simp
next
  case (claim rq n c x w)
  then show ?case using effect.claim [of E calm "wn_world n" c "wq_identity rq"] by auto
next
  case (window rq n c x w)
  then have "flight_ok E (wn_world n) (Claimed rq)" by (simp add: run_ok_def)
  then have "Validate_request (we_uuid E) rq" "wq_operation rq = OpPutWindow"
    "\<And>r. rec_at (wn_world n) (wi_generation (wq_identity rq)) = Some r \<Longrightarrow> ws_identity r = wq_identity rq
      \<Longrightarrow> ws_state r = StateReceiving \<Longrightarrow> holds_path E (wq_identity rq) (wn_world n)"
    by (auto simp: flight_ok_def request_of_def Terminal_def)
  then show ?case using window_locked_step [OF window(2)] by simp
next
  case commit
  then show ?case using Commit_put_step by (simp add: run_ok_def)
next
  case others
  then show ?case using effect.foreign by auto
next
  case (late n path t)
  then show ?case using effect.orphan [of E calm "wn_world n" path t] by auto
qed simp

lemma whale_step_ok:
  assumes "whale_step E calm n n'" "run_ok E calm n"
  shows "run_ok E calm n'"
proof -
  have o: "world_ok E calm (wn_world n)" "\<And>f. f \<in> set (wn_flights n) \<Longrightarrow> flight_ok E (wn_world n) f"
    using assms(2) by (simp_all add: run_ok_def)
  note e = whale_step_effects [OF assms]
  have w: "world_ok E calm (wn_world n')" by (rule effects_ok [OF e o(1)])
  have old: "flight_ok E (wn_world n') f" if "f \<in> set (wn_flights n)" for f
    by (rule flight_ok_effects [OF e o(1) o(2) [OF that]])
  have "flight_ok E (wn_world n') f" if f: "f \<in> set (wn_flights n')" for f
    using assms(1) old f
  proof (induction rule: whale_step.induct)
    case (start c rq n e w)
    have "flight_ok E w (Begun rq)" if "e = None"
      using serve_begin_step(2) [OF start(1) that] by (auto simp: flight_ok_def request_of_def)
    then show ?case using start by (auto split: if_splits)
  next
    case (claim rq n c x w)
    have "flight_ok E w (Claimed rq)" if "x = Inr 0"
    proof -
      have "flight_ok E w (Begun rq)" using claim(1,3) by simp
      then show ?thesis using Claim_holds claim(2) that by (auto simp: flight_ok_def request_of_def)
    qed
    then show ?case using claim set_remove1_subset by (fastforce split: if_splits)
  next
    case window
    then show ?case using set_remove1_subset by fastforce
  next
    case crash
    then show ?case using set_remove1_subset by fastforce
  qed simp_all
  then show ?thesis using w by (simp add: run_ok_def)
qed

lemma whale_init_ok: "whale_init n \<Longrightarrow> run_ok E calm n"
  by (simp add: whale_init_def run_ok_def world_ok_def rec_at_def repo_ok_def rev_ok_def of_generation_def
      published_revs_def open_txns_def list_all_iff)

interpretation whale: invariant_system whale_init "whale_step E calm" "run_ok E calm" for E calm
  by unfold_locales (auto intro: whale_init_ok whale_step_ok)

end
