(* ===== verification/Whale_Samples.thy ===== *)
theory Whale_Samples
  imports Whale_System
begin

text \<open>
  One upload of one byte, evaluated: its window, its commit as revision 1, and its rejection
  while the queue cannot be locked. The states it passes are reachable.
\<close>

section \<open>A sample run\<close>

definition sample_identity :: identity where
  "sample_identity = \<lparr>wi_repo = ''r'', wi_path = ''x'', wi_generation = ''g'', wi_size = 1, wi_sha256 = replicate 64 CHR ''0''\<rparr>"

definition sample_env :: whale_env where
  "sample_env = \<lparr>we_uuid = (\<lambda>_. True), we_sha256 = (\<lambda>b. replicate 64 (if b = ''b'' then CHR ''1'' else CHR ''0'')),
     we_root = ''/s'', we_complete = True\<rparr>"

definition sample_answers :: "mucc_outcome \<Rightarrow> string list \<Rightarrow> svn_answers" where
  "sample_answers outcome orphans = \<lparr>si_youngest = (\<lambda>_. True), si_props = (\<lambda>_ _. True), si_lstxns = True, si_txn = (\<lambda>_. TxnRead),
     si_rmtxns = (\<lambda>_. True), si_tree = Some (\<lambda>_. False), si_mucc = outcome, si_foreign = (\<lambda>_. []), si_orphans = orphans\<rparr>"

abbreviation good_answers :: svn_answers where
  "good_answers \<equiv> sample_answers MuccOk []"

definition sample_call :: "svn_answers \<Rightarrow> string \<Rightarrow> bool \<Rightarrow> whale_call" where
  "sample_call answers stream qlock = \<lparr>wc_now = 5, wc_access = Some ''rw'', wc_load = (\<lambda>_. True), wc_prepare = True, wc_rename = True, wc_sync = True,
     wc_save = (\<lambda>_. SaveOk), wc_qlock = qlock, wc_qread = True, wc_qsave = SaveOk, wc_qremove = True, wc_lock = True,
     wc_reserve = sample_res_call, wc_release = sample_res_call, wc_ready = True, wc_open = True, wc_truncate = True,
     wc_seek = True, wc_stream = stream, wc_written = None, wc_fsync = True, wc_digest = True, wc_svn = answers\<rparr>"

definition sample_request :: wrequest where
  "sample_request = \<lparr>wq_schema = Schema_whale, wq_request_id = ''q'', wq_operation = OpPutWindow, wq_identity = sample_identity,
     wq_revision = 0, wq_transfer = [], wq_token = [], wq_offset = 0, wq_payload = 1\<rparr>"

definition sample_world :: whale_world where
  "sample_world = \<lparr>ww_journal = (\<lambda>_. None), ww_payload = (\<lambda>_. None), ww_queue = (\<lambda>_. None), ww_ledger = [],
     ww_repo = (\<lambda>_. \<lparr>wp_revisions = [], wp_txns = []\<rparr>)\<rparr>"

definition sample_record :: "wstate \<Rightarrow> int \<Rightarrow> wrecord" where
  "sample_record s n = \<lparr>ws_schema = GenerationSchema, ws_identity = sample_identity, ws_direction = DirectionPut, ws_state = s,
     ws_bytes = n, ws_base = 0, ws_base_known = False, ws_revision = 0, ws_created = Some 5, ws_updated = Some 5\<rparr>"

definition sample_queue :: queue_record where
  "sample_queue = \<lparr>qr_schema = GenerationSchema, qr_repo = ''r'', qr_path = ''x'', qr_holder = ''g'', qr_waiting = []\<rparr>"

lemma upload_path: "ValidateLogicalPath ''x''"
  by code_simp

lemma upload_valid [simp]: "Validate_identity (we_uuid sample_env) sample_identity"
  by (simp add: Validate_identity_def sample_identity_def sample_env_def upload_path MaxObjectBytes_def list_all_iff hex_digit_def)

lemma sample_probe [simp]:
  "Validate_identity (we_uuid sample_env)
     \<lparr>wi_repo = g, wi_path = ''x'', wi_generation = h, wi_size = 1, wi_sha256 = replicate 64 CHR ''0''\<rparr>"
  by (simp add: Validate_identity_def sample_env_def upload_path MaxObjectBytes_def list_all_iff hex_digit_def)

lemma sample_fields [simp]:
  "wi_generation sample_identity = ''g''" "wi_size sample_identity = 1" "wi_repo sample_identity = ''r''" "wi_path sample_identity = ''x''"
  "wi_sha256 sample_identity = replicate 64 CHR ''0''"
  "we_complete sample_env" "wq_identity sample_request = sample_identity" "wq_operation sample_request = OpPutWindow"
  "wq_offset sample_request = 0" "wq_payload sample_request = 1"
  by (simp_all add: sample_identity_def sample_env_def sample_request_def)

lemma sample_request_valid [simp]: "Validate_request (we_uuid sample_env) sample_request"
  by (simp add: Validate_request_def sample_request_def window_fits_def ValidateOffset_def MaxObjectBytes_def MaxWindowBytes_def)
    (simp add: sample_env_def)

lemma sample_record_valid:
  "s = StateReceiving \<and> n = 0 \<or> s \<in> {StateReceiving, StateValidating, StateCommitting, StateRejected} \<and> n = 1
   \<Longrightarrow> validateRecord sample_env (sample_record s n)"
  by (auto simp: validateRecord_def sample_record_def ValidateOffset_def MaxObjectBytes_def InitialState_def known_state_def)

lemma sample_call_fields [simp]:
  "wc_load (sample_call a b q) k" "wc_prepare (sample_call a b q)" "wc_rename (sample_call a b q)" "wc_sync (sample_call a b q)"
  "wc_save (sample_call a b q) k = SaveOk" "wc_qlock (sample_call a b q) = q" "wc_qread (sample_call a b q)"
  "wc_qsave (sample_call a b q) = SaveOk" "wc_qremove (sample_call a b q)" "wc_lock (sample_call a b q)" "wc_ready (sample_call a b q)"
  "wc_now (sample_call a b q) = 5" "wc_reserve (sample_call a b q) = sample_res_call" "wc_release (sample_call a b q) = sample_res_call"
  "wc_digest (sample_call a b q)" "wc_svn (sample_call a b q) = a"
  by (simp_all add: sample_call_def)

lemma sample_record_fields [simp]:
  "ws_identity (sample_record s n) = sample_identity" "ws_direction (sample_record s n) = DirectionPut"
  "ws_state (sample_record s n) = s" "ws_bytes (sample_record s n) = n" "ws_revision (sample_record s n) = 0"
  "\<not> ws_base_known (sample_record s n)" "ws_base (sample_record s n) = 0"
  "(sample_record s n)\<lparr>ws_state := s'\<rparr> = sample_record s' n" "(sample_record s n)\<lparr>ws_bytes := n'\<rparr> = sample_record s n'"
  "(sample_record s n)\<lparr>ws_schema := GenerationSchema, ws_updated := Some 5\<rparr> = sample_record s n"
  by (simp_all add: sample_record_def)

lemma sample_world_fields [simp]:
  "ww_journal sample_world = (\<lambda>_. None)" "ww_payload sample_world = (\<lambda>_. None)" "ww_queue sample_world = (\<lambda>_. None)"
  "ww_ledger sample_world = []" "ww_repo sample_world = (\<lambda>_. \<lparr>wp_revisions = [], wp_txns = []\<rparr>)"
  by (simp_all add: sample_world_def)

lemma sample_record_more [simp]:
  "ws_schema (sample_record s n) = GenerationSchema" "ws_created (sample_record s n) = Some 5" "ws_updated (sample_record s n) = Some 5"
  by (simp_all add: sample_record_def)

lemma sample_load:
  "ww_journal w ''g'' = Some (Stored r) \<Longrightarrow> validateRecord sample_env r \<Longrightarrow> gen_of r = ''g''
   \<Longrightarrow> load_journal sample_env (sample_call a b q) k ''g'' w = Inr (Some r)"
  by (simp add: load_journal_def)

lemma upload_authorized: "authorize_put sample_env (sample_call a b q) ''r'' True = Inr ''/s/r''"
  by code_simp

lemma sample_begin:
  "serve_begin sample_env (sample_call a b q) sample_request sample_world
     = (None, sample_world\<lparr>ww_journal := [''g'' \<mapsto> Stored (sample_record StateReceiving 0)]\<rparr>)"
proof -
  have r: "new_record (sample_call a b q) sample_identity DirectionPut StateReceiving = sample_record StateReceiving 0"
    by (simp add: new_record_def sample_record_def)
  show ?thesis
    by (simp add: serve_begin_def upload_authorized Create_journal_def InitialState_def load_journal_def r sample_record_valid
        write_record_def Let_def)
qed

abbreviation no_revs :: whale_repo where
  "no_revs \<equiv> \<lparr>wp_revisions = [], wp_txns = []\<rparr>"

definition sample_state :: "wrecord \<Rightarrow> string option \<Rightarrow> ledger \<Rightarrow> whale_repo \<Rightarrow> whale_world" where
  "sample_state r b l p = \<lparr>ww_journal = [''g'' \<mapsto> Stored r], ww_payload = (\<lambda>_. None)(''g'' := b),
     ww_queue = [replicate 64 CHR ''0'' \<mapsto> Stored sample_queue], ww_ledger = l, ww_repo = (\<lambda>_. no_revs)(''/s/r'' := p)\<rparr>"

lemma sample_key [simp]: "queue_key sample_env sample_identity = replicate 64 CHR ''0''"
  by (simp add: queue_key_def sample_env_def)

lemma sample_claim:
  "Claim sample_env (sample_call a b True) sample_identity (sample_world\<lparr>ww_journal := [''g'' \<mapsto> Stored (sample_record StateReceiving 0)]\<rparr>)
     = (Inr 0, sample_state (sample_record StateReceiving 0) None [] no_revs)"
  by (simp add: Claim_def load_wqueue_def save_wqueue_def sample_queue_def sample_state_def Let_def) (simp add: sample_world_def fun_eq_iff)

lemma sample_state_fields [simp]:
  "ww_journal (sample_state r b l p) ''g'' = Some (Stored r)" "ww_payload (sample_state r b l p) ''g'' = b"
  "rec_at (sample_state r b l p) ''g'' = Some r" "ww_ledger (sample_state r b l p) = l"
  "sample_state r b l p\<lparr>ww_ledger := l'\<rparr> = sample_state r b l' p" "bytes_of (sample_state r b l p) ''g'' = content b"
  "sample_state r b l p\<lparr>ww_payload := (ww_payload (sample_state r b l p))(''g'' := b')\<rparr> = sample_state r b' l p"
  "gen_of r' = ''g'' \<Longrightarrow> put_record r' (sample_state r b l p) = sample_state r' b l p"
  "ww_repo (sample_state r b l p) ''/s/r'' = p" "set_repo ''/s/r'' p' (sample_state r b l p) = sample_state r b l p'"
  by (simp_all add: sample_state_def rec_at_def bytes_of_def put_record_def set_repo_def)

abbreviation sample_ledger :: ledger where
  "sample_ledger \<equiv> [(''g'', Stored (sample_reservation ''g''))]"

lemma sample_reserve [simp]:
  "reserve_put (sample_call a b q) ''g'' 1 (sample_state r x [] p) = (None, sample_state r x sample_ledger p)"
  by (simp add: reserve_put_def Reserve_def sample_reserve_check sample_save)

lemma sample_save_journal:
  assumes "validateRecord sample_env r" "ws_identity r = sample_identity" "validateRecord sample_env r'" "ws_identity r' = sample_identity"
    "ws_direction r = DirectionPut" "ws_direction r' = DirectionPut" "ws_created r' = ws_created r" "ws_revision r = 0"
    "ws_base_known r \<Longrightarrow> ws_base_known r' \<and> ws_base r' = ws_base r" "ws_bytes r \<le> ws_bytes r'"
    "CanTransition DirectionPut (ws_state r) (ws_state r')" "ws_schema r' = GenerationSchema" "ws_updated r' = Some 5"
  shows "Save_journal sample_env (sample_call a b q) k r' (sample_state r x l p) = (None, sample_state r' x l p)"
proof -
  have v: "0 \<le> ws_revision r'" using assms(3) by (simp add: validateRecord_def)
  show ?thesis using assms v
    by (cases r') (simp add: Save_journal_def sample_load write_record_eq Let_def)
qed

lemma sample_save_record:
  "CanTransition DirectionPut s s' \<Longrightarrow> n \<le> n' \<Longrightarrow> validateRecord sample_env (sample_record s n) \<Longrightarrow> validateRecord sample_env (sample_record s' n')
   \<Longrightarrow> Save_journal sample_env (sample_call a b q) k (sample_record s' n') (sample_state (sample_record s n) x l p)
     = (None, sample_state (sample_record s' n') x l p)"
  by (rule sample_save_journal) simp_all

lemma sample_append: "appendWindow (sample_call a [x] q) None 0 1 = (True, Some [x])"
  by (simp add: appendWindow_def sample_call_def)

lemmas sample_transitions = CanTransition_def Terminal_def sample_record_valid

lemma sample_window:
  "window_locked sample_env (sample_call a ''a'' q) sample_request (sample_state (sample_record StateReceiving 0) None [] p)
     = (Inr (result_of (sample_record StateCommitting 1)), sample_state (sample_record StateCommitting 1) (Some ''a'') sample_ledger p)"
proof -
  have d: "we_sha256 sample_env ''a'' = replicate 64 CHR ''0''" by (simp add: sample_env_def)
  show ?thesis
    by (simp add: window_locked_def requireRecord_def sample_load sample_record_valid PayloadPath_def append_locked_def sample_append
        sample_save_record sample_transitions prepareCommit_def check_digest_def digestFile_def d Let_def)
qed

lemma sample_window_rejected:
  "window_locked sample_env (sample_call a ''b'' False) sample_request (sample_state (sample_record StateReceiving 0) None [] p)
     = (Inl WDigestMismatch, sample_state (sample_record StateRejected 1) (Some ''b'') [] p)"
proof -
  have d: "we_sha256 sample_env ''b'' = replicate 64 CHR ''1''" by (simp add: sample_env_def)
  have n: "replicate 64 CHR ''1'' \<noteq> replicate 64 CHR ''0''" by simp
  have r: "Release_res sample_res_call ''g'' sample_ledger = (True, [])"
    by (simp add: Release_res_def sample_res_call_def)
  show ?thesis
    by (simp add: window_locked_def requireRecord_def sample_load sample_record_valid PayloadPath_def append_locked_def sample_append
        sample_save_record sample_transitions prepareCommit_def check_digest_def digestFile_def d n cleanup_def release_put_def r
        Release_path_def Let_def)
qed

text \<open>The commit of the sample: revision 1 of its repository.\<close>

definition sample_storage :: string where "sample_storage = ''.filees-whales/x''"

definition sample_revision :: whale_rev where
  "sample_revision = whale_revision (\<lambda>_. False) sample_storage sample_identity ''a''"

definition sample_known :: wrecord where
  "sample_known = (sample_record StateCommitting 1)\<lparr>ws_base_known := True\<rparr>"

definition sample_published :: wrecord where
  "sample_published = (sample_record StatePublished 1)\<lparr>ws_base_known := True, ws_revision := 1\<rparr>"

abbreviation one_rev :: whale_repo where
  "one_rev \<equiv> \<lparr>wp_revisions = [sample_revision], wp_txns = []\<rparr>"

definition sample_end :: "whale_repo \<Rightarrow> whale_world" where
  "sample_end p = (sample_state sample_published (Some ''a'') [] p)\<lparr>ww_queue := (\<lambda>_. None)(replicate 64 CHR ''0'' := None)\<rparr>"

lemma sample_base [simp]:
  "(sample_record StateCommitting 1)\<lparr>ws_base := 0, ws_base_known := True\<rparr> = sample_known"
  "sample_known\<lparr>ws_revision := 1, ws_state := StatePublished\<rparr> = sample_published"
  "ws_identity sample_known = sample_identity" "ws_identity sample_published = sample_identity" "ws_base sample_known = 0"
  by (simp_all add: sample_known_def sample_published_def sample_record_def)

lemma sample_saves [simp]:
  "Save_journal sample_env (sample_call a b q) 4 sample_known (sample_state (sample_record StateCommitting 1) x l p)
     = (None, sample_state sample_known x l p)"
  "Save_journal sample_env (sample_call a b q) 5 sample_published (sample_state sample_known x l p)
     = (None, sample_state sample_published x l p)"
  by (rule sample_save_journal;
      simp add: sample_known_def sample_published_def validateRecord_def ValidateOffset_def MaxObjectBytes_def InitialState_def
        known_state_def CanTransition_def Terminal_def)+

lemma sample_answer_fields [simp]:
  "si_youngest (sample_answers m os) k" "si_lstxns (sample_answers m os)" "si_tree (sample_answers m os) = Some (\<lambda>_. False)"
  "si_mucc (sample_answers m os) = m" "si_orphans (sample_answers m os) = os" "si_foreign (sample_answers m os) k = []"
  by (simp_all add: sample_answers_def)

lemma sample_foreign [simp]:
  "commit_foreign (sample_call (sample_answers m os) b q) k ''/s/r'' (sample_state r x l p) = sample_state r x l p"
  by (simp add: commit_foreign_def sample_state_def)

lemma sample_reserved [simp]:
  "reserve_put (sample_call a b q) ''g'' 1 (sample_state r x sample_ledger p) = (None, sample_state r x sample_ledger p)"
  by (simp add: reserve_put_def Reserve_def reserve_check_def sample_res_call_def sample_check live_reservations_def load_reservation_def
      ttl_res_def sample_reservation_def save_reservation_def Let_def)

abbreviation left_txn :: whale_repo where
  "left_txn \<equiv> \<lparr>wp_revisions = [], wp_txns = [(''t'', sample_revision)]\<rparr>"

abbreviation two_revs :: whale_repo where
  "two_revs \<equiv> \<lparr>wp_revisions = [sample_revision, sample_revision], wp_txns = []\<rparr>"

lemma sample_find:
  "findGeneration (sample_call (sample_answers m os) b q) k \<lparr>wp_revisions = [], wp_txns = ts\<rparr> 1 ''g'' = Some 0"
  "findGeneration (sample_call (sample_answers m os) b q) k \<lparr>wp_revisions = sample_revision # vs, wp_txns = ts\<rparr> 1 ''g'' = Some 1"
  by (simp_all add: findGeneration_def sample_answers_def sample_revision_def whale_revision_def)

lemma sample_put [simp]: "whale_revision (\<lambda>_. False) sample_storage sample_identity ''a'' = sample_revision"
  by (simp add: sample_revision_def)

text \<open>A first attempt that succeeds, one that leaves a transaction, and a second one in which that transaction is committed late.\<close>

lemma sample_publish_new:
  "publish_new sample_env (sample_call (sample_answers MuccOk []) b q) ''/s/r'' sample_storage sample_known (sample_state sample_known (Some ''a'') l no_revs)
     = (Inr 1, sample_state sample_known (Some ''a'') l one_rev)"
  "publish_new sample_env (sample_call (sample_answers (MuccFail (Some ''t'')) []) b q) ''/s/r'' sample_storage sample_known (sample_state sample_known (Some ''a'') l no_revs)
     = (Inl WIo, sample_state sample_known (Some ''a'') l left_txn)"
  "publish_new sample_env (sample_call (sample_answers MuccOk [''t'']) b q) ''/s/r'' sample_storage sample_known (sample_state sample_known (Some ''a'') l left_txn)
     = (Inr 1, sample_state sample_known (Some ''a'') l two_revs)"
  by (simp_all add: publish_new_def removeAbandoned_def svnmucc_def commit_txn_def sample_find Let_def)

lemma sample_storage_path: "StoragePath (we_uuid sample_env) sample_identity = Inr sample_storage"
  by (simp add: StoragePath_def ReservedNamespace_def sample_storage_def)

lemma sample_known_fields [simp]: "ws_state sample_known = StateCommitting" "ws_base_known sample_known" "ws_bytes sample_known = 1"
    "ws_direction sample_known = DirectionPut" "validateRecord sample_env sample_known"
  by (simp_all add: sample_known_def validateRecord_def ValidateOffset_def MaxObjectBytes_def InitialState_def known_state_def)

lemma sample_publish:
  "PublishWhale sample_env (sample_call (sample_answers MuccOk []) b q) ''/s/r'' (sample_record StateCommitting 1)
      (sample_state (sample_record StateCommitting 1) (Some ''a'') l no_revs)
     = (Inr (1, sample_known), sample_state sample_known (Some ''a'') l one_rev)"
  "PublishWhale sample_env (sample_call (sample_answers (MuccFail (Some ''t'')) []) b q) ''/s/r'' (sample_record StateCommitting 1)
      (sample_state (sample_record StateCommitting 1) (Some ''a'') l no_revs)
     = (Inl WIo, sample_state sample_known (Some ''a'') l left_txn)"
  "PublishWhale sample_env (sample_call (sample_answers MuccOk [''t'']) b q) ''/s/r'' sample_known (sample_state sample_known (Some ''a'') l left_txn)
     = (Inr (1, sample_known), sample_state sample_known (Some ''a'') l two_revs)"
  by (simp_all add: PublishWhale_def sample_storage_path sample_find sample_publish_new youngest_def is_abs_def has_prefix_def Let_def)

lemma sample_cleanup:
  "cleanup sample_env (sample_call a b True) sample_identity (sample_state sample_published (Some ''a'') sample_ledger p)
     = (None, sample_end p)"
proof -
  have r: "Release_res sample_res_call ''g'' sample_ledger = (True, [])"
    by (simp add: Release_res_def sample_res_call_def)
  have q: "ww_queue (sample_state r x l p) = [replicate 64 CHR ''0'' \<mapsto> Stored sample_queue]" for r x l p by (simp add: sample_state_def)
  show ?thesis
    by (simp add: cleanup_def release_put_def r Release_path_def load_wqueue_def q sample_queue_def sample_end_def)
qed

lemma sample_commit:
  "Commit_put sample_env (sample_call (sample_answers MuccOk []) b True) sample_identity
      (sample_state (sample_record StateCommitting 1) (Some ''a'') sample_ledger no_revs)
     = (Inr (result_of sample_published), sample_end one_rev)"
  "Commit_put sample_env (sample_call (sample_answers (MuccFail (Some ''t'')) []) b True) sample_identity
      (sample_state (sample_record StateCommitting 1) (Some ''a'') sample_ledger no_revs)
     = (Inl WIo, sample_state sample_known (Some ''a'') sample_ledger left_txn)"
  "Commit_put sample_env (sample_call (sample_answers MuccOk [''t'']) b True) sample_identity
      (sample_state sample_known (Some ''a'') sample_ledger left_txn)
     = (Inr (result_of sample_published), sample_end two_revs)"
  by (simp_all add: Commit_put_def commitLocked_def upload_authorized requireRecord_def sample_load sample_record_valid PayloadPath_def
      publish_locked_def sample_publish sample_cleanup Terminal_def Let_def)

abbreviation sample_begun :: whale_world where
  "sample_begun \<equiv> sample_world\<lparr>ww_journal := [''g'' \<mapsto> Stored (sample_record StateReceiving 0)]\<rparr>"

lemma sample_claimed_reach:
  "reach whale_init (whale_step sample_env calm)
     \<lparr>wn_world = sample_state (sample_record StateReceiving 0) None [] no_revs, wn_flights = [Claimed sample_request]\<rparr>"
proof -
  let ?n0 = "\<lparr>wn_world = sample_world, wn_flights = []\<rparr>" and ?n1 = "\<lparr>wn_world = sample_begun, wn_flights = [Begun sample_request]\<rparr>"
  have 0: "reach whale_init (whale_step sample_env calm) ?n0"
    by (rule reach_init) (simp add: whale_init_def)
  have 1: "reach whale_init (whale_step sample_env calm) ?n1"
    using reach_step [OF 0 whale_step.start [where n = ?n0, simplified whale_run.simps, OF sample_begin [of good_answers "[]" True]]] by simp
  have c: "Claim sample_env (sample_call good_answers [] True) (wq_identity sample_request) (wn_world ?n1)
      = (Inr 0, sample_state (sample_record StateReceiving 0) None [] no_revs)"
    using sample_claim [of good_answers "[]"] by simp
  have m: "Begun sample_request \<in> set (wn_flights ?n1)" by simp
  have "whale_step sample_env calm ?n1
     \<lparr>wn_world = sample_state (sample_record StateReceiving 0) None [] no_revs, wn_flights = [Claimed sample_request]\<rparr>"
    using whale_step.claim [where n = ?n1 and rq = sample_request, OF m c] by simp
  with 1 show ?thesis by (rule reach_step)
qed

lemma sample_received_reach:
  "reach whale_init (whale_step sample_env calm)
     \<lparr>wn_world = sample_state (sample_record StateCommitting 1) (Some ''a'') sample_ledger no_revs, wn_flights = []\<rparr>"
  using reach_step [OF sample_claimed_reach whale_step.window [where rq = sample_request and c = "sample_call good_answers ''a'' True"]]
    sample_window by simp

lemma sample_rejected_reach:
  "reach whale_init (whale_step sample_env calm)
     \<lparr>wn_world = sample_state (sample_record StateRejected 1) (Some ''b'') [] no_revs, wn_flights = []\<rparr>"
  using reach_step [OF sample_claimed_reach whale_step.window [where rq = sample_request and c = "sample_call good_answers ''b'' False"]]
    sample_window_rejected by simp

lemma sample_home: "repository_path sample_env ''r'' = ''/s/r''"
  by code_simp

lemma sample_ordinary: "ordinary (sample_call (sample_answers m os) b q)" "fresh_txn (sample_call (sample_answers m os) b q) no_revs"
  "calm_call (sample_call (sample_answers m []) b q) g no_revs"
  by (simp_all add: ordinary_def fresh_txn_def calm_call_def sample_answer_fields)

lemma sample_commit_step:
  "whale_step sample_env calm \<lparr>wn_world = sample_state (sample_record StateCommitting 1) (Some ''a'') sample_ledger no_revs, wn_flights = []\<rparr>
     \<lparr>wn_world = sample_end one_rev, wn_flights = []\<rparr>"
  using whale_step.commit [where n = "\<lparr>wn_world = sample_state (sample_record StateCommitting 1) (Some ''a'') sample_ledger no_revs, wn_flights = []\<rparr>"
      and c = "sample_call good_answers [] True" and i = sample_identity] sample_commit(1) [of "[]"] sample_ordinary
  by (simp add: sample_home)

lemma sample_end_reach: "reach whale_init (whale_step sample_env calm) \<lparr>wn_world = sample_end one_rev, wn_flights = []\<rparr>"
  using sample_received_reach sample_commit_step by (rule reach_step)

text \<open>The second attempt above publishes the generation a second time.\<close>

lemma sample_left_reach:
  "reach whale_init (whale_step sample_env False)
     \<lparr>wn_world = sample_state sample_known (Some ''a'') sample_ledger left_txn, wn_flights = []\<rparr>"
proof -
  let ?n = "\<lparr>wn_world = sample_state (sample_record StateCommitting 1) (Some ''a'') sample_ledger no_revs, wn_flights = []\<rparr>"
  have "whale_step sample_env False ?n \<lparr>wn_world = sample_state sample_known (Some ''a'') sample_ledger left_txn, wn_flights = []\<rparr>"
    using whale_step.commit [where n = ?n and c = "sample_call (sample_answers (MuccFail (Some ''t'')) []) [] True" and i = sample_identity]
      sample_commit(2) [of "[]"] sample_ordinary by (simp add: sample_home)
  with sample_received_reach show ?thesis by (rule reach_step)
qed

lemma sample_twice_reach: "reach whale_init (whale_step sample_env False) \<lparr>wn_world = sample_end two_revs, wn_flights = []\<rparr>"
proof -
  let ?n = "\<lparr>wn_world = sample_state sample_known (Some ''a'') sample_ledger left_txn, wn_flights = []\<rparr>"
  have "fresh_txn (sample_call (sample_answers MuccOk os) [] True) p" for os p by (simp add: fresh_txn_def)
  then have "whale_step sample_env False ?n \<lparr>wn_world = sample_end two_revs, wn_flights = []\<rparr>"
    using whale_step.commit [where n = ?n and c = "sample_call (sample_answers MuccOk [''t'']) [] True" and i = sample_identity]
      sample_commit(3) [of "[]"] sample_ordinary(1) by simp
  with sample_left_reach show ?thesis by (rule reach_step)
qed

end
