(* ===== verification/Whale_Props.thy ===== *)
theory Whale_Props
  imports Whale_Samples
begin

text \<open>
  What the Whale upload service guarantees over all runs: what is published is what was
  declared, at most once; acknowledged bytes stay; one transfer per path at a time; and the
  one situation in which a path is never released.
\<close>

section \<open>Publication\<close>

lemma published_content:
  assumes "world_ok E calm w" "rec_at w g = Some r" "ws_state r = StatePublished"
  obtains existing where "1 \<le> ws_revision r" "ws_revision r \<le> youngest (ww_repo w (home E r))"
    "wp_revisions (ww_repo w (home E r)) ! nat (ws_revision r - 1)
       = whale_revision existing (ReservedNamespace @ ''/'' @ wi_path (ws_identity r)) (ws_identity r) (bytes_of w g)"
    "declared E (ws_identity r) (bytes_of w g)"
proof -
  note o = world_okD(1) [OF assms(1,2)]
  have v: "revision_is g (ws_revision r) (ww_repo w (home E r))" using o assms(3) by (simp add: record_ok_def)
  then have b: "1 \<le> ws_revision r" "ws_revision r \<le> youngest (ww_repo w (home E r))"
    "of_generation g (wp_revisions (ww_repo w (home E r)) ! nat (ws_revision r - 1))" by (simp_all add: revision_is_def)
  then have "wp_revisions (ww_repo w (home E r)) ! nat (ws_revision r - 1) \<in> set (wp_revisions (ww_repo w (home E r)))"
    by (intro nth_mem) (simp add: youngest_def)
  then have "rev_ok E w (home E r) (wp_revisions (ww_repo w (home E r)) ! nat (ws_revision r - 1))"
    using repo_okD(1) [OF world_okD(2) [OF assms(1)]] by (simp add: list_all_iff)
  then obtain s existing where "rec_at w g = Some s"
    "wp_revisions (ww_repo w (home E r)) ! nat (ws_revision r - 1)
       = whale_revision existing (ReservedNamespace @ ''/'' @ wi_path (ws_identity s)) (ws_identity s) (bytes_of w g)"
    using b(3) by (rule rev_okD)
  then show thesis using that b(1,2) assms(2) record_ok_declared [OF o] assms(3) by simp
qed

lemma cleanup_rec: "rec_at (snd (cleanup E c i w)) = rec_at w"
proof -
  obtain ok w1 where 1: "release_put c (wi_generation i) w = (ok, w1)" by force
  then obtain l where l: "w1 = w\<lparr>ww_ledger := l\<rparr>" using release_put_step by blast
  have "snd (cleanup E c i w) = snd (Release_path E c i w1)" by (simp add: cleanup_def 1 split: prod.splits)
  then show ?thesis using queue_step_frame(1) [OF Release_step] by (simp add: l)
qed

text \<open>The answer of a publication is the record it leaves.\<close>

lemma publish_locked_answer:
  assumes "publish_locked E c path r w = (Inr res, w')"
  shows "\<exists>s. rec_at w' (gen_of r) = Some s \<and> ws_identity s = ws_identity r \<and> ws_state s = StatePublished \<and> result_of s = res"
proof -
  from assms obtain n r1 w1 where p: "PublishWhale E c path r w = (Inr (n, r1), w1)"
    by (auto simp: publish_locked_def split: if_splits prod.splits sum.splits)
  have i: "ws_identity r1 = ws_identity r"
    using p by (auto simp: PublishWhale_def Let_def split: if_splits sum.splits prod.splits option.splits)
  let ?r = "r1\<lparr>ws_revision := n, ws_state := StatePublished\<rparr>"
  obtain e w2 where s: "Save_journal E c 5 ?r w1 = (e, w2)" by force
  obtain e3 w3 where u: "cleanup E c (ws_identity ?r) w2 = (e3, w3)" by force
  have "e = None" "e3 = None" "w' = w3" "res = result_of ?r"
    using assms p s u by (auto simp: publish_locked_def Let_def split: if_splits option.splits)
  moreover have "rec_at w3 = rec_at w2" using cleanup_rec [of E c "ws_identity ?r" w2] u by simp
  moreover have "w2 = put_record (stamp c ?r) w1" using Save_ok s \<open>e = None\<close> by blast
  ultimately show ?thesis using i by (simp add: result_of_def)
qed

lemma check_digest_identity: "check_digest E c r w = (e, r', w') \<Longrightarrow> ws_identity r' = ws_identity r"
  by (auto simp: check_digest_def Let_def split: option.splits prod.splits if_splits)

lemma prepareCommit_identity: "prepareCommit E c r w = (e, r', w') \<Longrightarrow> ws_identity r' = ws_identity r"
  by (auto simp: prepareCommit_def Let_def dest!: check_digest_identity split: option.splits prod.splits if_splits)

lemma commitLocked_answer:
  assumes "commitLocked E c i w = (Inr res, w')"
  shows "\<exists>s. rec_at w' (wi_generation i) = Some s \<and> ws_identity s = i \<and> ws_state s = StatePublished \<and> result_of s = res"
proof -
  from assms obtain path r where au: "authorize_put E c (wi_repo i) True = Inr path" and rq: "requireRecord E c i w = Inr r"
    by (auto simp: commitLocked_def split: sum.splits)
  note q = requireRecordD [OF rq] and def = assms [unfolded commitLocked_def au sum.case rq]
  show ?thesis
  proof (cases "ws_state r = StatePublished")
    case True
    obtain e w1 where u: "cleanup E c (ws_identity r) w = (e, w1)" by force
    have "e = None" "w' = w1" "res = result_of r" using def True u by (auto split: option.splits)
    then show ?thesis using q True cleanup_rec [of E c "ws_identity r" w] u by simp
  next
    case False
    then obtain r1 w1 where "publish_locked E c path r1 w1 = (Inr res, w')" "ws_identity r1 = ws_identity r"
      using def by (auto split: if_splits option.splits prod.splits dest: prepareCommit_identity)
    then show ?thesis using publish_locked_answer q by force
  qed
qed

lemma Commit_put_answer:
  "Commit_put E c i w = (Inr res, w') \<Longrightarrow>
   \<exists>s. rec_at w' (wi_generation i) = Some s \<and> ws_identity s = i \<and> ws_state s = StatePublished \<and> result_of s = res"
  using commitLocked_answer by (simp add: Commit_put_def split: if_splits)

text \<open>
  C5. When a commit of a Whale upload is answered with success, in any run with crashes, failing
  writes and concurrent commits, the revision it names exists in the repository, puts the file
  under the reserved name space at the logical path, and its bytes have the declared length and
  SHA-256; the revision properties name the generation and that digest.
\<close>

theorem commit_exact:
  assumes "reach whale_init (whale_step E calm) n" "Commit_put E c i (wn_world n) = (Inr res, w')"
    "ordinary c" "fresh_txn c (ww_repo (wn_world n) (repository_path E (wi_repo i)))"
    "calm \<longrightarrow> calm_call c (wi_generation i) (ww_repo (wn_world n) (repository_path E (wi_repo i)))"
  shows "pr_generation res = wi_generation i \<and> pr_state res = StatePublished \<and> pr_offset res = wi_size i
    \<and> 1 \<le> pr_revision res \<and> pr_revision res \<le> youngest (ww_repo w' (repository_path E (wi_repo i)))
    \<and> (\<exists>b. wv_put (wp_revisions (ww_repo w' (repository_path E (wi_repo i))) ! nat (pr_revision res - 1))
             = Some (ReservedNamespace @ ''/'' @ wi_path i, b)
         \<and> int (length b) = wi_size i \<and> we_sha256 E b = wi_sha256 i)
    \<and> wv_generation (wp_revisions (ww_repo w' (repository_path E (wi_repo i))) ! nat (pr_revision res - 1)) = Some (wi_generation i)
    \<and> wv_sha256 (wp_revisions (ww_repo w' (repository_path E (wi_repo i))) ! nat (pr_revision res - 1)) = Some (wi_sha256 i)"
proof -
  have "run_ok E calm n" by (rule whale.reach_inv [OF assms(1)])
  then have "effects E calm (wn_world n) w'" and "world_ok E calm (wn_world n)"
    using Commit_put_step [OF assms(2)] assms(3-5) by (simp_all add: run_ok_def)
  then have ok: "world_ok E calm w'" by (rule effects_ok)
  obtain s where s: "rec_at w' (wi_generation i) = Some s" "ws_identity s = i" "ws_state s = StatePublished" "result_of s = res"
    using Commit_put_answer [OF assms(2)] by blast
  have "validateRecord E s" "ws_direction s = DirectionPut" using world_okD(1) [OF ok s(1)] by (simp_all add: record_ok_def)
  then have "ws_bytes s = wi_size i" using s(2,3) by (simp add: validateRecord_def)
  moreover obtain existing where "1 \<le> ws_revision s" "ws_revision s \<le> youngest (ww_repo w' (home E s))"
    "wp_revisions (ww_repo w' (home E s)) ! nat (ws_revision s - 1)
       = whale_revision existing (ReservedNamespace @ ''/'' @ wi_path (ws_identity s)) (ws_identity s) (bytes_of w' (wi_generation i))"
    "declared E (ws_identity s) (bytes_of w' (wi_generation i))"
    by (rule published_content [OF ok s(1,3)])
  moreover have "res = \<lparr>pr_generation = wi_generation i, pr_offset = ws_bytes s, pr_state = StatePublished, pr_revision = ws_revision s\<rparr>"
    using s by (simp add: result_of_def)
  ultimately show ?thesis using s(2) by (simp add: whale_revision_def declared_def)
qed

text \<open>
  C11. A generation is published at most once: two revisions that carry its identifier, in
  whichever repositories, are the same revision. This is proved for runs in which no process of
  an earlier attempt commits between the search for the generation and the removal of its
  transactions.
\<close>

theorem published_once:
  assumes "reach whale_init (whale_step E True) n"
    "k < length (wp_revisions (ww_repo (wn_world n) path))" "wv_generation (wp_revisions (ww_repo (wn_world n) path) ! k) = Some g"
    "l < length (wp_revisions (ww_repo (wn_world n) other))" "wv_generation (wp_revisions (ww_repo (wn_world n) other) ! l) = Some g"
  shows "path = other \<and> k = l"
proof -
  let ?w = "wn_world n"
  have ok: "world_ok E True ?w" using whale.reach_inv [OF assms(1)] by (simp add: run_ok_def)
  have home: "\<exists>r. rec_at ?w g = Some r \<and> p = home E r"
    if "j < length (wp_revisions (ww_repo ?w p))" "wv_generation (wp_revisions (ww_repo ?w p) ! j) = Some g" for p j
  proof -
    have "rev_ok E ?w p (wp_revisions (ww_repo ?w p) ! j)"
      using repo_okD(1) [OF world_okD(2) [OF ok]] that(1) by (simp add: list_all_length)
    then show ?thesis using that(2) by (auto simp: of_generation_def elim: rev_okD)
  qed
  have p: "path = other" using home [OF assms(2,3)] home [OF assms(4,5)] by auto
  have "length (published_revs g (ww_repo ?w path)) \<le> 1"
    using repo_okD(4) [OF world_okD(2) [OF ok], of g path] by simp
  then have "card {j. j < length (wp_revisions (ww_repo ?w path)) \<and> wv_generation (wp_revisions (ww_repo ?w path) ! j) = Some g} \<le> Suc 0"
    by (simp add: published_revs_def of_generation_def length_filter_conv_card)
  then show ?thesis using assms p by (auto simp: card_le_Suc0_iff_eq)
qed

section \<open>Transfers\<close>

text \<open>
  C21. At most one transfer is under way for a path: two generations of the same repository and
  logical path of which bytes have been accepted and which are not published or rejected yet
  are the same generation.
\<close>

theorem one_transfer_per_path:
  assumes "reach whale_init (whale_step E calm) n"
    "rec_at (wn_world n) g = Some r" "under_way r" "rec_at (wn_world n) h = Some s" "under_way s"
    "wi_repo (ws_identity r) = wi_repo (ws_identity s)" "wi_path (ws_identity r) = wi_path (ws_identity s)"
  shows "g = h"
proof -
  have ok: "world_ok E calm (wn_world n)" using whale.reach_inv [OF assms(1)] by (simp add: run_ok_def)
  have "gen_of r = g" "holds_path E (ws_identity r) (wn_world n)"
    using world_okD(1) [OF ok assms(2)] assms(3) by (simp_all add: record_ok_def)
  moreover have "gen_of s = h" "holds_path E (ws_identity s) (wn_world n)"
    using world_okD(1) [OF ok assms(4)] assms(5) by (simp_all add: record_ok_def)
  moreover have "queue_key E (ws_identity r) = queue_key E (ws_identity s)" using assms(6,7) by (simp add: queue_key_def)
  ultimately show ?thesis by (auto simp: holds_path_def)
qed

lemma progress_run: "(whale_step E calm)\<^sup>*\<^sup>* n n' \<Longrightarrow> run_ok E calm n \<Longrightarrow> progress (wn_world n) (wn_world n')"
proof (induction rule: rtranclp_induct)
  case (step m k)
  have "run_ok E calm m" by (rule whale.run_inv [OF step(1,4)])
  then have "progress (wn_world m) (wn_world k)"
    using progress_effects [OF whale_step_effects [OF step(2)]] by (simp add: run_ok_def)
  then show ?case using step(3,4) progress_trans by blast
qed (rule progress_refl)

text \<open>
  C13. What a generation has acknowledged stays: from any point of a run on, its identity does
  not change, its durable offset never goes back, the bytes before that offset in the partial
  file stay as they are, a state once left for another is not receiving again, and a published
  or rejected generation stays so.
\<close>

theorem acknowledged_bytes_kept:
  assumes "reach whale_init (whale_step E calm) n" "(whale_step E calm)\<^sup>*\<^sup>* n n'" "rec_at (wn_world n) g = Some r"
  shows "\<exists>s. rec_at (wn_world n') g = Some s \<and> ws_identity s = ws_identity r \<and> ws_bytes r \<le> ws_bytes s
     \<and> ws_bytes s \<le> int (length (bytes_of (wn_world n') g))
     \<and> take (nat (ws_bytes r)) (bytes_of (wn_world n') g) = take (nat (ws_bytes r)) (bytes_of (wn_world n) g)
     \<and> (ws_state s = StateReceiving \<longrightarrow> ws_state r = StateReceiving) \<and> (Terminal (ws_state r) \<longrightarrow> ws_state s = ws_state r)"
proof -
  have o: "run_ok E calm n" by (rule whale.reach_inv [OF assms(1)])
  have ok: "world_ok E calm (wn_world n')" using whale.run_inv [OF assms(2) o] by (simp add: run_ok_def)
  from progressD [OF progress_run [OF assms(2) o] assms(3)]
  obtain s where s: "rec_at (wn_world n') g = Some s" "ws_identity s = ws_identity r" "ws_bytes r \<le> ws_bytes s"
    "take (nat (ws_bytes r)) (bytes_of (wn_world n') g) = take (nat (ws_bytes r)) (bytes_of (wn_world n) g)"
    "Terminal (ws_state r) \<longrightarrow> ws_state s = ws_state r" "ws_state s = StateReceiving \<longrightarrow> ws_state r = StateReceiving" by blast
  have "ws_bytes s \<le> int (length (bytes_of (wn_world n') g))" using world_okD(1) [OF ok s(1)] by (simp add: record_ok_def)
  then show ?thesis using s by blast
qed

lemma Save_bytes: "Save_journal E c site r w = (e, w') \<Longrightarrow> bytes_of w' = bytes_of w"
  by (erule Save_cases) simp_all

lemma cleanup_bytes: "bytes_of (snd (cleanup E c i w)) = bytes_of w"
proof -
  obtain ok w1 where 1: "release_put c (wi_generation i) w = (ok, w1)" by force
  then obtain l where l: "w1 = w\<lparr>ww_ledger := l\<rparr>" using release_put_step by blast
  have "snd (cleanup E c i w) = snd (Release_path E c i w1)" by (simp add: cleanup_def 1 split: prod.splits)
  then show ?thesis using queue_step_frame(2) [OF Release_step] by (simp add: l)
qed

lemma check_digest_bytes: "check_digest E c r w = (e, r', w') \<Longrightarrow> bytes_of w' = bytes_of w"
  by (auto simp: check_digest_def Let_def cleanup_bytes dest!: Save_bytes split: option.splits prod.splits if_splits)

lemma prepareCommit_bytes: "prepareCommit E c r w = (e, r', w') \<Longrightarrow> bytes_of w' = bytes_of w"
  by (auto simp: prepareCommit_def Let_def dest!: Save_bytes check_digest_bytes split: option.splits prod.splits if_splits)

lemma prepareCommit_digest:
  assumes "prepareCommit E c r w = (e, r', w')" "e = None"
  shows "we_sha256 E (bytes_of w (gen_of r)) = wi_sha256 (ws_identity r)"
proof -
  have d: "we_sha256 E (bytes_of u (gen_of s)) = wi_sha256 (ws_identity s)" if "check_digest E c s u = (None, s', u')" for s u s' u'
    using that
    by (auto simp: check_digest_def digestFile_def bytes_of_def Let_def split: option.splits prod.splits if_splits)
  show ?thesis
  proof (cases "ws_state r = StateReceiving")
    case True
    then obtain w1 where "Save_journal E c 1 (r\<lparr>ws_state := StateValidating\<rparr>) w = (None, w1)"
      "check_digest E c (r\<lparr>ws_state := StateValidating\<rparr>) w1 = (None, r', w')"
      using assms by (auto simp: prepareCommit_def Let_def split: option.splits prod.splits)
    then show ?thesis using d [of "r\<lparr>ws_state := StateValidating\<rparr>" w1] Save_bytes by fastforce
  qed (use assms d in \<open>auto simp: prepareCommit_def\<close>)
qed

lemma append_locked_answer:
  assumes "append_locked E c rq r w = (Inr res, w')" "ws_state r = StateReceiving" "0 \<le> ws_bytes r" "1 \<le> wq_payload rq"
  shows "\<exists>s. bytes_of w' (gen_of r) = take (nat (ws_bytes r)) (bytes_of w (gen_of r)) @ take (nat (wq_payload rq)) (wc_stream c)
    \<and> length (bytes_of w' (gen_of r)) = nat (ws_bytes r) + nat (wq_payload rq)
    \<and> rec_at w' (gen_of r) = Some s \<and> result_of s = res \<and> ws_bytes s = ws_bytes r + wq_payload rq
    \<and> ws_state s = (if ws_bytes s = wi_size (ws_identity r) then StateCommitting else StateReceiving)
    \<and> (ws_state s = StateCommitting \<longrightarrow> we_sha256 E (bytes_of w' (gen_of r)) = wi_sha256 (ws_identity r))"
proof -
  let ?g = "gen_of r" and ?r = "r\<lparr>ws_bytes := ws_bytes r + wq_payload rq\<rparr>"
  obtain ok f where ap: "appendWindow c (ww_payload w ?g) (ws_bytes r) (wq_payload rq) = (ok, f)" by force
  define w2 where "w2 = put_payload ?g f w"
  have w2: "w\<lparr>ww_payload := (ww_payload w)(?g := f)\<rparr> = w2" by (simp add: w2_def put_payload_def)
  obtain w3 where sv: "Save_journal E c 0 ?r w2 = (None, w3)" and ok: ok
    using assms(1) ap w2 by (auto simp: append_locked_def Let_def split: bool.splits option.splits prod.splits)
  have w3: "w3 = put_record (stamp c ?r) w2" by (rule Save_ok [OF sv])
  have b: "content f = take (nat (ws_bytes r)) (bytes_of w ?g) @ take (nat (wq_payload rq)) (wc_stream c)"
      "length (content f) = nat (ws_bytes r) + nat (wq_payload rq)"
    using appendWindow_spec(2) [OF ap assms(3) _ ok] assms(4) by (simp_all add: bytes_of_content)
  have b3: "bytes_of w3 ?g = content f" by (simp add: w3 w2_def bytes_of_put_payload)
  show ?thesis
  proof (cases "ws_bytes ?r = wi_size (ws_identity r)")
    case True
    obtain e r4 w4 where pc: "prepareCommit E c ?r w3 = (e, r4, w4)" by (metis prod_cases3)
    have e: "e = None" "w' = w4" "res = result_of r4"
      using assms(1) ap w2 ok sv pc True by (auto simp: append_locked_def Let_def split: option.splits)
    have s3: "rec_at w3 (gen_of ?r) = Some (stamp c ?r)" by (simp add: w3)
    have r4: "r4 = ?r\<lparr>ws_state := StateCommitting\<rparr>" "rec_at w4 ?g = Some (stamp c r4)"
      using prepareCommit_step(2) [OF pc s3 _ _ e(1)] assms(2) True by simp_all
    have "bytes_of w4 ?g = content f" "we_sha256 E (content f) = wi_sha256 (ws_identity r)"
      using prepareCommit_bytes [OF pc] prepareCommit_digest [OF pc e(1)] b3 by simp_all
    then show ?thesis using r4 e b True by (intro exI [of _ "stamp c r4"]) (simp add: result_of_def)
  next
    case False
    have "w' = w3" "res = result_of ?r" using assms(1) ap w2 ok sv False by (auto simp: append_locked_def Let_def)
    then show ?thesis using w3 b b3 False assms(2) by (intro exI [of _ "stamp c ?r"]) (simp add: result_of_def)
  qed
qed

text \<open>
  C22. A window that is answered with success was at the durable offset: the partial file is then
  the bytes before that offset and the bytes of the window, nothing else; the journal and the
  answer agree on the new offset, and on the state, which is receiving unless the file is
  complete, and then committing, with the declared length and digest.
\<close>

theorem window_appends:
  assumes "Validate_request (we_uuid E) rq" "wq_operation rq = OpPutWindow" "window_locked E c rq w = (Inr res, w')"
  shows "\<exists>r s. rec_at w (wi_generation (wq_identity rq)) = Some r \<and> ws_state r = StateReceiving \<and> ws_bytes r = wq_offset rq
    \<and> bytes_of w' (wi_generation (wq_identity rq))
        = take (nat (wq_offset rq)) (bytes_of w (wi_generation (wq_identity rq))) @ take (nat (wq_payload rq)) (wc_stream c)
    \<and> int (length (bytes_of w' (wi_generation (wq_identity rq)))) = wq_offset rq + wq_payload rq
    \<and> rec_at w' (wi_generation (wq_identity rq)) = Some s \<and> result_of s = res \<and> ws_bytes s = wq_offset rq + wq_payload rq
    \<and> ws_state s = (if wq_offset rq + wq_payload rq = wi_size (wq_identity rq) then StateCommitting else StateReceiving)
    \<and> (ws_state s = StateCommitting \<longrightarrow>
        we_sha256 E (bytes_of w' (wi_generation (wq_identity rq))) = wi_sha256 (wq_identity rq))"
proof -
  let ?i = "wq_identity rq"
  note fit = valid_request_fits [OF assms(1,2)]
  obtain r where rq: "requireRecord E c ?i w = Inr r" using assms(3) by (auto simp: window_locked_def split: if_splits sum.splits)
  note q = requireRecordD [OF rq]
  obtain w1 where rs: "reserve_put c (gen_of r) (wi_size (ws_identity r)) w = (None, w1)" "append_locked E c rq r w1 = (Inr res, w')"
    and st: "ws_state r = StateReceiving" "ws_bytes r = wq_offset rq"
    using assms(3) rq by (auto simp: window_locked_def split: if_splits option.splits prod.splits)
  obtain l where l: "w1 = w\<lparr>ww_ledger := l\<rparr>" using reserve_put_step [OF rs(1)] by blast
  have g: "ws_identity r = ?i" "bytes_of w1 = bytes_of w" using q by (simp_all add: l)
  have "0 \<le> ws_bytes r" "1 \<le> wq_payload rq" using fit st(2) by simp_all
  from append_locked_answer [OF rs(2) st(1) this] obtain s where s:
    "bytes_of w' (gen_of r) = take (nat (ws_bytes r)) (bytes_of w1 (gen_of r)) @ take (nat (wq_payload rq)) (wc_stream c)"
    "length (bytes_of w' (gen_of r)) = nat (ws_bytes r) + nat (wq_payload rq)"
    "rec_at w' (gen_of r) = Some s" "result_of s = res" "ws_bytes s = ws_bytes r + wq_payload rq"
    "ws_state s = (if ws_bytes s = wi_size (ws_identity r) then StateCommitting else StateReceiving)"
    "ws_state s = StateCommitting \<longrightarrow> we_sha256 E (bytes_of w' (gen_of r)) = wi_sha256 (ws_identity r)" by blast
  have "int (length (bytes_of w' (gen_of r))) = wq_offset rq + wq_payload rq" using s(2) fit st(2) by simp
  then show ?thesis using q st s g by (intro exI [of _ r] exI [of _ s] conjI) simp_all
qed

section \<open>A rejected generation that keeps its path\<close>

text \<open>Serving one generation does not take a path from another.\<close>

definition others_hold :: "whale_env \<Rightarrow> identity \<Rightarrow> whale_world \<Rightarrow> whale_world \<Rightarrow> bool" where
  "others_hold E i w w' \<longleftrightarrow> (\<forall>j. wi_generation j \<noteq> wi_generation i \<longrightarrow> holds_path E j w \<longrightarrow> holds_path E j w')"

lemma others_hold_queue: "ww_queue w' = ww_queue w \<Longrightarrow> others_hold E i w w'"
  by (simp add: others_hold_def holds_path_def)

lemma others_hold_trans: "others_hold E i u v \<Longrightarrow> others_hold E i v w \<Longrightarrow> others_hold E i u w"
  by (simp add: others_hold_def)

lemma Save_queue: "Save_journal E c site r w = (e, w') \<Longrightarrow> ww_queue w' = ww_queue w"
  by (erule Save_cases) simp_all

lemma cleanup_others: "others_hold E i w (snd (cleanup E c i w))"
proof -
  obtain ok w1 where 1: "release_put c (wi_generation i) w = (ok, w1)" by force
  then obtain l where l: "w1 = w\<lparr>ww_ledger := l\<rparr>" using release_put_step by blast
  have "snd (cleanup E c i w) = snd (Release_path E c i w1)" by (simp add: cleanup_def 1 split: prod.splits)
  moreover have "others_hold E i w1 (snd (Release_path E c i w1))"
    using holds_path_other [OF Release_step] by (simp add: others_hold_def)
  moreover have "others_hold E i w w1" by (rule others_hold_queue) (simp add: l)
  ultimately show ?thesis using others_hold_trans by simp
qed

lemma check_digest_others:
  assumes "check_digest E c r w = (e, r', w')"
  shows "others_hold E (ws_identity r) w w'"
proof -
  have "ww_queue w' = ww_queue w \<or> (\<exists>u. ww_queue u = ww_queue w \<and> w' = snd (cleanup E c (ws_identity r) u))"
    using assms by (auto simp: check_digest_def Let_def dest!: Save_queue split: option.splits prod.splits if_splits)
  then show ?thesis using cleanup_others others_hold_queue others_hold_trans by metis
qed

lemma prepareCommit_others:
  assumes "prepareCommit E c r w = (e, r', w')"
  shows "others_hold E (ws_identity r) w w'"
proof (cases "ws_state r = StateReceiving")
  case True
  let ?r = "r\<lparr>ws_state := StateValidating\<rparr>"
  obtain e1 w1 where sv: "Save_journal E c 1 ?r w = (e1, w1)" by force
  have "others_hold E (ws_identity r) w w1" using others_hold_queue [OF Save_queue [OF sv]] by simp
  moreover have "w' = w1 \<or> others_hold E (ws_identity r) w1 w'"
    using assms True sv check_digest_others [of E c ?r w1] by (cases e1) (auto simp: prepareCommit_def Let_def)
  ultimately show ?thesis using others_hold_trans by blast
qed (use assms check_digest_others in \<open>simp add: prepareCommit_def\<close>)

lemma append_locked_others:
  assumes "append_locked E c rq r w = (x, w')"
  shows "others_hold E (ws_identity r) w w'"
proof -
  let ?r = "r\<lparr>ws_bytes := ws_bytes r + wq_payload rq\<rparr>"
  obtain ok f where ap: "appendWindow c (ww_payload w (gen_of r)) (ws_bytes r) (wq_payload rq) = (ok, f)" by force
  let ?w = "w\<lparr>ww_payload := (ww_payload w)(gen_of r := f)\<rparr>"
  obtain e w1 where sv: "Save_journal E c 0 ?r ?w = (e, w1)" by force
  obtain e2 r2 w2 where pc: "prepareCommit E c ?r w1 = (e2, r2, w2)" by (metis prod_cases3)
  have "w' \<in> {?w, w1, w2}"
    using assms ap sv pc by (cases ok; cases e; cases e2) (auto simp: append_locked_def Let_def split: if_splits)
  moreover have "others_hold E (ws_identity r) w ?w" by (rule others_hold_queue) simp
  moreover have "others_hold E (ws_identity r) w w1" using Save_queue [OF sv] by (intro others_hold_queue) simp
  moreover have "others_hold E (ws_identity r) w1 w2" using prepareCommit_others [OF pc] by simp
  ultimately show ?thesis using others_hold_trans by blast
qed

lemma window_locked_others:
  assumes "window_locked E c rq w = (x, w')"
  shows "others_hold E (wq_identity rq) w w'"
proof (cases "requireRecord E c (wq_identity rq) w")
  case (Inl e)
  then show ?thesis using assms by (auto simp: window_locked_def intro: others_hold_queue split: if_splits)
next
  case (Inr r)
  note q = requireRecordD [OF Inr]
  obtain e1 w1 where rs: "reserve_put c (gen_of r) (wi_size (ws_identity r)) w = (e1, w1)" by force
  then have "ww_queue w1 = ww_queue w" using reserve_put_step by fastforce
  moreover have "w' = w \<or> w' = w1 \<or> append_locked E c rq r w1 = (x, w')"
    using assms Inr rs by (auto simp: window_locked_def split: if_splits option.splits)
  ultimately show ?thesis using append_locked_others [of E c rq r w1 x w'] q others_hold_queue others_hold_trans by metis
qed

lemma publish_new_queue: "publish_new E c path storage r w = (x, w') \<Longrightarrow> ww_queue w' = ww_queue w"
  by (auto simp: publish_new_def Let_def commit_foreign_eq split: prod.splits bool.splits option.splits if_splits)

lemma PublishWhale_queue: "PublishWhale E c path r w = (x, w') \<Longrightarrow> ww_queue w' = ww_queue w"
  by (auto simp: PublishWhale_def Let_def commit_foreign_eq dest!: Save_queue publish_new_queue
      split: prod.splits sum.splits option.splits if_splits)

lemma publish_locked_others:
  assumes "publish_locked E c path r w = (x, w')"
  shows "others_hold E (ws_identity r) w w'"
proof -
  obtain y w1 where p: "PublishWhale E c path r w = (y, w1)" by force
  have "w' = w \<or> ww_queue w' = ww_queue w1 \<or> (\<exists>u. ww_queue u = ww_queue w1 \<and> w' = snd (cleanup E c (ws_identity r) u))"
  proof (cases y)
    case (Inr z)
    obtain n r1 where z: "z = (n, r1)" by force
    have "ws_identity r1 = ws_identity r"
      using p Inr z by (auto simp: PublishWhale_def Let_def split: if_splits sum.splits prod.splits option.splits)
    moreover obtain e w2 where "Save_journal E c 5 (r1\<lparr>ws_revision := n, ws_state := StatePublished\<rparr>) w1 = (e, w2)" by force
    moreover note Save_queue [OF this]
    ultimately show ?thesis using assms p Inr z
      by (cases e) (auto simp: publish_locked_def Let_def split: if_splits prod.splits option.splits intro!: exI [of _ w2])
  qed (use assms p in \<open>auto simp: publish_locked_def split: if_splits\<close>)
  then show ?thesis
    using PublishWhale_queue [OF p] cleanup_others others_hold_queue others_hold_trans by metis
qed

lemma Commit_put_others:
  assumes "Commit_put E c i w = (x, w')"
  shows "others_hold E i w w'"
proof (cases "\<exists>path r. authorize_put E c (wi_repo i) True = Inr path \<and> requireRecord E c i w = Inr r")
  case False
  then have "w' = w" using assms by (auto simp: Commit_put_def commitLocked_def split: sum.splits if_splits)
  then show ?thesis by (simp add: others_hold_queue)
next
  case True
  then obtain path r where au: "authorize_put E c (wi_repo i) True = Inr path" and rq: "requireRecord E c i w = Inr r" by auto
  note q = requireRecordD [OF rq]
  obtain e1 w1 where rs: "reserve_put c (gen_of r) (wi_size (ws_identity r)) w = (e1, w1)" by force
  then have q1: "ww_queue w1 = ww_queue w" using reserve_put_step by fastforce
  obtain e2 r2 w2 where pc: "prepareCommit E c r w1 = (e2, r2, w2)" by (metis prod_cases3)
  have r2: "ws_identity r2 = ws_identity r" by (rule prepareCommit_identity [OF pc])
  have "w' = w \<or> w' = w1 \<or> w' = snd (cleanup E c (ws_identity r) w) \<or> w' = w2
      \<or> publish_locked E c path r w1 = (x, w') \<or> publish_locked E c path r2 w2 = (x, w')"
    using assms au rq rs pc
    by (auto simp: Commit_put_def commitLocked_def split: if_splits option.splits prod.splits)
  then show ?thesis
    using q q1 r2 cleanup_others [of E i w c] prepareCommit_others [OF pc] publish_locked_others [of E c path]
      others_hold_queue [OF q1] others_hold_queue [of w w] others_hold_trans by metis
qed

lemma serve_begin_queue: "serve_begin E c rq w = (e, w') \<Longrightarrow> ww_queue w' = ww_queue w"
  by (auto simp: serve_begin_def Create_journal_def write_record_eq Let_def
      split: if_splits sum.splits prod.splits option.splits)

definition stuck :: "whale_env \<Rightarrow> identity \<Rightarrow> whale_world \<Rightarrow> bool" where
  "stuck E i w \<longleftrightarrow> (\<exists>r. rec_at w (wi_generation i) = Some r \<and> ws_state r = StateRejected) \<and> holds_path E i w"

lemma stuck_step:
  assumes "whale_step E calm n n'" "run_ok E calm n" "stuck E i (wn_world n)"
  shows "stuck E i (wn_world n')"
proof -
  obtain r where r: "rec_at (wn_world n) (wi_generation i) = Some r" "ws_state r = StateRejected"
    using assms(3) by (auto simp: stuck_def)
  have h: "holds_path E i (wn_world n)" using assms(3) by (simp add: stuck_def)
  have "world_ok E calm (wn_world n)" using assms(2) by (simp add: run_ok_def)
  from progressD [OF progress_effects [OF whale_step_effects [OF assms(1,2)] this] r(1)]
  have 1: "\<exists>s. rec_at (wn_world n') (wi_generation i) = Some s \<and> ws_state s = StateRejected"
    using r(2) by (metis Terminal_def)
  have "holds_path E i (wn_world n')"
    using assms(1) h r
  proof (induction rule: whale_step.induct)
    case (start c rq n e w)
    show ?case using start(2) holds_path_cong [OF serve_begin_queue [OF start(1)]] by simp
  next
    case (claim rq n c x w)
    then show ?case using holds_path_claim [of E i "wn_world n" c "wq_identity rq"] by simp
  next
    case (window rq n c x w)
    show ?case
    proof (cases "wi_generation (wq_identity rq) = wi_generation i")
      case True
      have "requireRecord E c (wq_identity rq) (wn_world n) \<noteq> Inr s \<or> s = r" for s
        using requireRecordD [of E c "wq_identity rq" "wn_world n" s] window(4) True by auto
      then have "w = wn_world n" using window(2,5)
        by (cases "requireRecord E c (wq_identity rq) (wn_world n)") (auto simp: window_locked_def split: if_splits)
      then show ?thesis using window(3) by simp
    qed (use window(3) window_locked_others [OF window(2)] in \<open>simp add: others_hold_def\<close>)
  next
    case (commit c j n x w)
    show ?case
    proof (cases "wi_generation j = wi_generation i")
      case True
      have "requireRecord E c j (wn_world n) \<noteq> Inr s \<or> s = r" for s
        using requireRecordD [of E c j "wn_world n" s] commit(6) True by auto
      then have "w = wn_world n" using commit(1,7)
        by (cases "requireRecord E c j (wn_world n)")
          (auto simp: Commit_put_def commitLocked_def Terminal_def split: if_splits sum.splits)
      then show ?thesis using commit(5) by simp
    qed (use commit(5) Commit_put_others [OF commit(1)] in \<open>simp add: others_hold_def\<close>)
  qed (simp_all add: holds_path_def)
  with 1 show ?thesis by (simp add: stuck_def)
qed

lemma stuck_run:
  "(whale_step E calm)\<^sup>*\<^sup>* n n' \<Longrightarrow> run_ok E calm n \<Longrightarrow> stuck E i (wn_world n) \<Longrightarrow> stuck E i (wn_world n')"
  by (induction rule: rtranclp_induct) (auto intro: stuck_step whale.run_inv)

text \<open>
  Rejection tries to pass the path on once and ignores whether that worked. If it did not,
  nothing does so later: whatever requests follow, the rejected generation holds its path, and
  no other generation of that path is ever admitted.
\<close>

theorem rejected_blocks_path:
  assumes "reach whale_init (whale_step E calm) n" "rec_at (wn_world n) (wi_generation i) = Some r" "ws_state r = StateRejected"
    "holds_path E i (wn_world n)" "(whale_step E calm)\<^sup>*\<^sup>* n n'"
    "wi_repo j = wi_repo i" "wi_path j = wi_path i" "wi_generation j \<noteq> wi_generation i"
  shows "holds_path E i (wn_world n') \<and> fst (Claim E c j (wn_world n')) \<noteq> Inr 0"
proof -
  have "stuck E i (wn_world n')"
    by (rule stuck_run [OF assms(5) whale.reach_inv [OF assms(1)]]) (use assms(2-4) in \<open>simp add: stuck_def\<close>)
  then have h: "holds_path E i (wn_world n')" by (simp add: stuck_def)
  have "queue_key E j = queue_key E i" using assms(6,7) by (simp add: queue_key_def)
  moreover have "holds_path E j w'" if "Claim E c j (wn_world n') = (Inr 0, w')" for w' by (rule Claim_holds [OF that])
  moreover have "holds_path E i (snd (Claim E c j (wn_world n')))" by (rule holds_path_claim [OF h])
  ultimately have "fst (Claim E c j (wn_world n')) \<noteq> Inr 0"
    using assms(8) by (cases "Claim E c j (wn_world n')") (auto simp: holds_path_def)
  with h show ?thesis by simp
qed

section \<open>The properties at the sample run\<close>

theorem commit_exact_witness:
  "pr_revision (result_of sample_published) = 1
   \<and> (\<exists>b. wv_put (wp_revisions (ww_repo (sample_end one_rev) ''/s/r'') ! 0) = Some (''.filees-whales/x'', b) \<and> int (length b) = 1)"
proof -
  have 1: "pr_revision (result_of sample_published) = 1" by (simp add: result_of_def sample_published_def)
  have c: "Commit_put sample_env (sample_call good_answers [] True) sample_identity
      (wn_world \<lparr>wn_world = sample_state (sample_record StateCommitting 1) (Some ''a'') sample_ledger no_revs, wn_flights = []\<rparr>)
     = (Inr (result_of sample_published), sample_end one_rev)" by (simp add: sample_commit)
  show ?thesis
    using commit_exact [OF sample_received_reach [of False] c sample_ordinary(1)] 1
    by (simp add: sample_home ReservedNamespace_def sample_ordinary(2)) blast
qed

theorem published_once_witness:
  "length (wp_revisions (ww_repo (wn_world \<lparr>wn_world = sample_end one_rev, wn_flights = []\<rparr>) ''/s/r'')) = 1 \<and> ''/s/r'' = ''/s/r'' \<and> (0::nat) = 0"
proof -
  have "wp_revisions (ww_repo (sample_end one_rev) ''/s/r'') = [sample_revision]" "wv_generation sample_revision = Some ''g''"
    by (simp_all add: sample_end_def sample_revision_def whale_revision_def)
  then show ?thesis
    using published_once [OF sample_end_reach, of 0 "''/s/r''" "''g''" 0 "''/s/r''"] by simp
qed

theorem one_transfer_per_path_witness:
  "under_way (sample_record StateCommitting 1) \<and> ''g'' = ''g''"
proof -
  have "under_way (sample_record StateCommitting 1)" by (simp add: under_way_def)
  then show ?thesis using one_transfer_per_path [OF sample_received_reach [of False], of "''g''" _ "''g''"] by simp
qed

theorem acknowledged_bytes_kept_witness:
  "\<exists>s. rec_at (sample_end one_rev) ''g'' = Some s \<and> 1 \<le> ws_bytes s \<and> take 1 (bytes_of (sample_end one_rev) ''g'') = ''a''"
proof -
  have "rec_at (wn_world \<lparr>wn_world = sample_state (sample_record StateCommitting 1) (Some ''a'') sample_ledger no_revs, wn_flights = []\<rparr>) ''g''
      = Some (sample_record StateCommitting 1)" by simp
  moreover have "(whale_step sample_env False)\<^sup>*\<^sup>*
      \<lparr>wn_world = sample_state (sample_record StateCommitting 1) (Some ''a'') sample_ledger no_revs, wn_flights = []\<rparr>
      \<lparr>wn_world = sample_end one_rev, wn_flights = []\<rparr>" by (rule r_into_rtranclp) (rule sample_commit_step)
  ultimately show ?thesis using acknowledged_bytes_kept [OF sample_received_reach [of False]] by fastforce
qed

theorem window_appends_witness:
  "\<exists>s. rec_at (sample_state (sample_record StateCommitting 1) (Some ''a'') sample_ledger no_revs) ''g'' = Some s \<and> ws_bytes s = 1
     \<and> bytes_of (sample_state (sample_record StateCommitting 1) (Some ''a'') sample_ledger no_revs) ''g'' = ''a''"
  using window_appends [OF sample_request_valid _ sample_window [of good_answers True no_revs]] by auto

theorem rejected_blocks_path_witness:
  "holds_path sample_env sample_identity (sample_state (sample_record StateRejected 1) (Some ''b'') [] no_revs)
   \<and> fst (Claim sample_env (sample_call good_answers [] True) (sample_identity\<lparr>wi_generation := ''h''\<rparr>)
       (sample_state (sample_record StateRejected 1) (Some ''b'') [] no_revs)) \<noteq> Inr 0"
proof -
  have "holds_path sample_env sample_identity (sample_state (sample_record StateRejected 1) (Some ''b'') [] no_revs)"
    by (simp add: holds_path_def sample_state_def sample_queue_def)
  then show ?thesis
    using rejected_blocks_path [OF sample_rejected_reach [of False], of sample_identity "sample_record StateRejected 1" _
        "sample_identity\<lparr>wi_generation := ''h''\<rparr>" "sample_call good_answers [] True", OF _ _ _ rtranclp.rtrancl_refl] by simp
qed

text \<open>
  Without the restriction to calm publications the guarantee fails. The search for the
  generation comes before the removal of its transactions, so a \<open>svnmucc\<close> that outlived its
  worker can commit in between; the retry then publishes the same generation again.
\<close>

theorem published_twice:
  "\<exists>E n path g. reach whale_init (whale_step E False) n \<and> length (published_revs g (ww_repo (wn_world n) path)) = 2"
proof -
  have "length (published_revs ''g'' (ww_repo (sample_end two_revs) ''/s/r'')) = 2"
    by (simp add: sample_end_def published_revs_def of_generation_def sample_revision_def whale_revision_def)
  then show ?thesis using sample_twice_reach by (intro exI conjI) auto
qed

end
