(* ===== verification/Whale_Recovery.thy ===== *)
theory Whale_Recovery
  imports Whale_Samples
begin

text \<open>
  Recovery of Whale uploads: whatever attempts failed or were cut off before, one commit in
  surroundings that answer leads a complete upload to its publication.
\<close>

section \<open>Surroundings that answer\<close>

definition cooperative :: "whale_call \<Rightarrow> bool" where
  "cooperative c \<longleftrightarrow> wc_lock c \<and> wc_access c = Some ''rw'' \<and> (\<forall>k. wc_load c k) \<and> (\<forall>k. wc_save c k = SaveOk) \<and> wc_digest c
   \<and> (\<forall>k. si_youngest (wc_svn c) k) \<and> (\<forall>k n. si_props (wc_svn c) k n) \<and> si_lstxns (wc_svn c)
   \<and> (\<forall>t. si_txn (wc_svn c) t \<noteq> TxnError) \<and> (\<forall>t. si_rmtxns (wc_svn c) t) \<and> si_tree (wc_svn c) \<noteq> None \<and> si_mucc (wc_svn c) = MuccOk"

lemma cooperativeD:
  assumes "cooperative c"
  shows "wc_lock c" "wc_access c = Some ''rw''" "wc_load c k" "wc_save c k = SaveOk" "wc_digest c" "si_youngest (wc_svn c) k"
    "si_props (wc_svn c) k n" "si_lstxns (wc_svn c)" "si_txn (wc_svn c) t \<noteq> TxnError" "si_rmtxns (wc_svn c) t"
    "\<exists>x. si_tree (wc_svn c) = Some x" "si_mucc (wc_svn c) = MuccOk"
  using assms by (auto simp: cooperative_def)

text \<open>The journal holds what the process has in memory.\<close>

definition backed :: "whale_env \<Rightarrow> whale_world \<Rightarrow> wrecord \<Rightarrow> bool" where
  "backed E w r \<longleftrightarrow> (\<exists>s. ww_journal w (gen_of r) = Some (Stored s) \<and> validateRecord E s \<and> agrees s r \<and> ws_created s = ws_created r)"

lemma backed_cong: "ww_journal w' = ww_journal w \<Longrightarrow> backed E w' r = backed E w r"
  by (simp add: backed_def)

lemma valid_probe:
  "validateRecord E r \<Longrightarrow> Validate_identity (we_uuid E)
     \<lparr>wi_repo = gen_of r, wi_path = ''x'', wi_generation = gen_of r, wi_size = 1, wi_sha256 = replicate 64 CHR ''0''\<rparr>"
  by (simp add: validateRecord_def Validate_identity_def upload_path MaxObjectBytes_def list_all_iff hex_digit_def)

lemma load_works:
  assumes "cooperative c" "we_complete E" "ww_journal w g = Some (Stored s)" "validateRecord E s" "gen_of s = g"
  shows "load_journal E c k g w = Inr (Some s)"
  using assms(2-) valid_probe [OF assms(4)] cooperativeD(3) [OF assms(1)] by (auto simp: load_journal_def)

text \<open>A save of a record that only moves on is never refused.\<close>

lemma save_works:
  assumes "cooperative c" "we_complete E" "backed E w r" "ws_identity r' = ws_identity r" "ws_direction r' = ws_direction r"
    "ws_created r' = ws_created r" "ws_bytes r' = ws_bytes r" "ws_revision r = 0"
    "ws_base_known r \<Longrightarrow> ws_base_known r' \<and> ws_base r' = ws_base r"
    "CanTransition (ws_direction r) (ws_state r) (ws_state r')" "validateRecord E (stamp c r')"
  shows "Save_journal E c k r' w = (None, put_record (stamp c r') w)" "backed E (put_record (stamp c r') w) r'"
proof -
  obtain s where s: "ww_journal w (gen_of r) = Some (Stored s)" "validateRecord E s" "agrees s r" "ws_created s = ws_created r"
    using assms(3) by (auto simp: backed_def)
  note a = s(3) [unfolded agrees_def]
  have l: "load_journal E c (10 + k) (gen_of r') w = Inr (Some s)"
    using load_works [OF assms(1,2) s(1,2)] a assms(4) by simp
  have "0 \<le> ws_revision r'" using assms(11) by (simp add: validateRecord_def)
  then show "Save_journal E c k r' w = (None, put_record (stamp c r') w)"
    unfolding Save_journal_def l using assms(4-11) a s(4) cooperativeD(4) [OF assms(1)]
    by (simp add: write_record_eq stamp_def [symmetric] Let_def)
  have "ws_created (stamp c r') = ws_created r'" by (simp add: stamp_def)
  then show "backed E (put_record (stamp c r') w) r'" using assms(11) by (simp add: backed_def)
qed

lemma backed_valid:
  assumes "backed E w r"
  shows "validateRecord E (stamp c r)"
proof -
  obtain s where s: "validateRecord E s" "agrees s r" "ws_created s = ws_created r" using assms by (auto simp: backed_def)
  have c: "ws_schema (stamp c r) = GenerationSchema" "ws_updated (stamp c r) = Some (wc_now c)" "ws_created (stamp c r) = ws_created r"
    by (simp_all add: stamp_def)
  show ?thesis using s c unfolding validateRecord_def agrees_def known_state_def by simp
qed

lemma valid_state:
  assumes "validateRecord E (stamp c r)" "ws_direction r = DirectionPut" "ws_bytes r = wi_size (ws_identity r)" "t \<in> {StateValidating, StateCommitting}"
  shows "validateRecord E (stamp c (r\<lparr>ws_state := t\<rparr>))"
proof -
  have "ws_created (stamp c (r\<lparr>ws_state := t\<rparr>)) = ws_created (stamp c r)" "ws_updated (stamp c (r\<lparr>ws_state := t\<rparr>)) = Some (wc_now c)"
    "ws_schema (stamp c (r\<lparr>ws_state := t\<rparr>)) = GenerationSchema" by (simp_all add: stamp_def)
  then show ?thesis using assms by (auto simp: validateRecord_def known_state_def)
qed

section \<open>Validation\<close>

lemma check_digest_works:
  assumes "cooperative c" "we_complete E" "backed E w r" "ws_direction r = DirectionPut" "ws_bytes r = wi_size (ws_identity r)"
    "ws_revision r = 0" "ws_state r = StateValidating" "ww_payload w (gen_of r) = Some b" "declared E (ws_identity r) b"
  shows "check_digest E c r w = (None, r\<lparr>ws_state := StateCommitting\<rparr>, put_record (stamp c (r\<lparr>ws_state := StateCommitting\<rparr>)) w)"
    "backed E (put_record (stamp c (r\<lparr>ws_state := StateCommitting\<rparr>)) w) (r\<lparr>ws_state := StateCommitting\<rparr>)"
proof -
  have v: "validateRecord E (stamp c (r\<lparr>ws_state := StateCommitting\<rparr>))"
    by (rule valid_state [OF backed_valid [OF assms(3)] assms(4,5)]) simp
  have t: "CanTransition (ws_direction r) (ws_state r) StateCommitting" using assms(4,7) by (simp add: CanTransition_def Terminal_def)
  note s = save_works [OF assms(1-3), of "r\<lparr>ws_state := StateCommitting\<rparr>"]
  show "check_digest E c r w = (None, r\<lparr>ws_state := StateCommitting\<rparr>, put_record (stamp c (r\<lparr>ws_state := StateCommitting\<rparr>)) w)"
    using s(1) assms(4-9) v t cooperativeD(5) [OF assms(1)] by (simp add: check_digest_def digestFile_def declared_def Let_def)
  show "backed E (put_record (stamp c (r\<lparr>ws_state := StateCommitting\<rparr>)) w) (r\<lparr>ws_state := StateCommitting\<rparr>)"
    using s(2) assms(6) v t by simp
qed

lemma put_record_payload [simp]: "ww_payload (put_record r w) = ww_payload w"
  by (simp add: put_record_def)

lemma prepareCommit_works:
  assumes "cooperative c" "we_complete E" "backed E w r" "ws_direction r = DirectionPut" "ws_bytes r = wi_size (ws_identity r)"
    "ws_revision r = 0" "ws_state r \<in> {StateReceiving, StateValidating}" "ww_payload w (gen_of r) = Some b" "declared E (ws_identity r) b"
  obtains w' where "prepareCommit E c r w = (None, r\<lparr>ws_state := StateCommitting\<rparr>, w')" "backed E w' (r\<lparr>ws_state := StateCommitting\<rparr>)"
    "ww_payload w' = ww_payload w" "ww_repo w' = ww_repo w"
proof (cases "ws_state r = StateReceiving")
  case True
  let ?r = "r\<lparr>ws_state := StateValidating\<rparr>"
  have v: "validateRecord E (stamp c ?r)" by (rule valid_state [OF backed_valid [OF assms(3)] assms(4,5)]) simp
  have t: "CanTransition (ws_direction r) (ws_state r) (ws_state ?r)" using assms(4) True by (simp add: CanTransition_def Terminal_def)
  have s: "Save_journal E c 1 ?r w = (None, put_record (stamp c ?r) w)" "backed E (put_record (stamp c ?r) w) ?r"
    by (rule save_works [OF assms(1-3)]; use assms(6) v t in simp)+
  note d = check_digest_works [OF assms(1,2) s(2)]
  show thesis
    by (rule that [of "put_record (stamp c (r\<lparr>ws_state := StateCommitting\<rparr>)) (put_record (stamp c ?r) w)"])
      (use True s(1) d assms(4-9) in \<open>simp_all add: prepareCommit_def Let_def\<close>)
next
  case False
  note d = check_digest_works [OF assms(1-6) _ assms(8,9)]
  show thesis
    by (rule that [of "put_record (stamp c (r\<lparr>ws_state := StateCommitting\<rparr>)) w"])
      (use False d assms(7) in \<open>simp_all add: prepareCommit_def Let_def\<close>)
qed

section \<open>Publication\<close>

lemma find_loop_works: "(\<And>n. ok n) \<Longrightarrow> \<exists>m. find_loop ok g n vs = Some m"
  by (induction vs arbitrary: n) auto

lemma find_works: "cooperative c \<Longrightarrow> \<exists>m. findGeneration c k p first g = Some m"
  using find_loop_works [of "si_props (wc_svn c) k"] by (simp add: findGeneration_def cooperativeD)

lemma find_after:
  assumes "findGeneration c k p (base + 1) g = Some m" "m \<noteq> 0" "0 \<le> base"
  shows "base < m"
proof -
  have "find_loop (si_props (wc_svn c) k) g (base + 1) (drop (nat (base + 1 - 1)) (wp_revisions p)) = Some m"
    using assms(1) by (simp add: findGeneration_def split: if_splits)
  from find_loop_spec [OF this] assms(2,3) show ?thesis by auto
qed

lemma remove_loop_works:
  "(\<And>t. si_txn a t \<noteq> TxnError) \<Longrightarrow> (\<And>t. si_rmtxns a t) \<Longrightarrow> fst (remove_loop a g ts txns)"
  by (induction ts arbitrary: txns) (auto split: txn_answer.splits)

lemma removeAbandoned_works:
  assumes "cooperative c"
  obtains txns where "removeAbandoned c g p = (True, p\<lparr>wp_txns := txns\<rparr>)"
proof -
  have "fst (remove_loop (wc_svn c) g (map fst (wp_txns p)) (wp_txns p))"
    by (rule remove_loop_works) (simp_all add: cooperativeD [OF assms])
  then show thesis using that cooperativeD(8) [OF assms]
    by (cases "remove_loop (wc_svn c) g (map fst (wp_txns p)) (wp_txns p)") (simp add: removeAbandoned_def)
qed

lemma orphans_append: "\<exists>vs. wp_revisions (foldl (\<lambda>p t. commit_txn t p) p ts) = wp_revisions p @ vs"
proof (induction ts rule: rev_induct)
  case (snoc t ts)
  then show ?case by (auto simp: commit_txn_def split: option.splits)
qed simp

lemma publish_new_works:
  assumes "cooperative c" "ww_payload w (gen_of r) = Some b" "0 \<le> ws_base r" "ws_base r \<le> youngest (ww_repo w path)"
  obtains m w' where "publish_new E c path storage r w = (Inr m, w')" "ws_base r < m" "ww_journal w' = ww_journal w"
proof -
  let ?g = "gen_of r"
  define p0 where "p0 = foldl (\<lambda>p t. commit_txn t p) (ww_repo w path) (si_orphans (wc_svn c))"
  obtain us where us: "wp_revisions p0 = wp_revisions (ww_repo w path) @ us" unfolding p0_def using orphans_append by blast
  obtain txns where rm: "removeAbandoned c ?g p0 = (True, p0\<lparr>wp_txns := txns\<rparr>)" by (rule removeAbandoned_works [OF assms(1)])
  obtain ex where ex: "si_tree (wc_svn c) = Some ex" using cooperativeD(11) [OF assms(1)] by blast
  define w1 where "w1 = commit_foreign c 2 path (set_repo path (p0\<lparr>wp_txns := txns\<rparr>) w)"
  let ?v = "whale_revision ex storage (ws_identity r) b"
  define p2 where "p2 = (ww_repo w1 path)\<lparr>wp_revisions := wp_revisions (ww_repo w1 path) @ [?v]\<rparr>"
  define w2 where "w2 = commit_foreign c 3 path (set_repo path p2 w1)"
  have j: "ww_journal w2 = ww_journal w" "ww_payload w1 = ww_payload w" by (simp_all add: w2_def w1_def commit_foreign_eq)
  have revs: "wp_revisions (ww_repo w2 path) = wp_revisions (ww_repo w path) @ us @ si_foreign (wc_svn c) 2 @ [?v] @ si_foreign (wc_svn c) 3"
    by (simp add: w2_def w1_def p2_def commit_foreign_eq us)
  obtain m where m: "findGeneration c 2 (ww_repo w2 path) (ws_base r + 1) ?g = Some m" using find_works [OF assms(1)] by blast
  have "?v \<in> set (drop (nat (ws_base r)) (wp_revisions (ww_repo w2 path)))" using assms(4) by (simp add: revs youngest_def)
  then have "filter (of_generation ?g) (drop (nat (ws_base r)) (wp_revisions (ww_repo w2 path))) \<noteq> []"
    by (auto simp: filter_empty_conv intro!: bexI [of _ ?v])
  then have n: "m \<noteq> 0" using findGeneration_spec(1) [OF m assms(3)] by blast
  have "publish_new E c path storage r w = (Inr m, w2)"
    using rm ex m n assms(2) cooperativeD(12) [OF assms(1)]
    by (simp add: publish_new_def p0_def [symmetric] w1_def [symmetric] j svnmucc_def p2_def [symmetric] w2_def [symmetric] Let_def)
  then show thesis using that find_after [OF m n assms(3)] j by blast
qed

lemma PublishWhale_works:
  assumes "cooperative c" "we_complete E" "backed E w r" "ws_direction r = DirectionPut" "ws_state r = StateCommitting"
    "ws_bytes r = wi_size (ws_identity r)" "ws_revision r = 0" "is_abs path" "ww_payload w (gen_of r) = Some b"
    "ws_base_known r \<Longrightarrow> ws_base r \<le> youngest (ww_repo w path)"
  obtains m r1 w' where "PublishWhale E c path r w = (Inr (m, r1), w')" "backed E w' r1" "ws_base r1 < m" "ws_base_known r1"
    "ws_identity r1 = ws_identity r" "ws_direction r1 = DirectionPut" "ws_state r1 = StateCommitting"
    "ws_bytes r1 = ws_bytes r" "ws_revision r1 = 0" "ws_created r1 = ws_created r"
proof -
  let ?g = "gen_of r"
  have v: "validateRecord E (stamp c r)" by (rule backed_valid [OF assms(3)])
  then have st: "StoragePath (we_uuid E) (ws_identity r) = Inr (ReservedNamespace @ ''/'' @ wi_path (ws_identity r))"
    by (simp add: StoragePath_def validateRecord_def)
  define w0 where "w0 = commit_foreign c 0 path w"
  define r1 where "r1 = (if ws_base_known r then r else r\<lparr>ws_base := youngest (ww_repo w0 path), ws_base_known := True\<rparr>)"
  have r1: "ws_identity r1 = ws_identity r" "ws_direction r1 = DirectionPut" "ws_state r1 = StateCommitting" "ws_bytes r1 = ws_bytes r"
    "ws_revision r1 = 0" "ws_created r1 = ws_created r" "ws_base_known r1" using assms(4,5,7) by (simp_all add: r1_def)
  have y: "youngest (ww_repo w path) \<le> youngest (ww_repo w0 path)" by (simp add: w0_def commit_foreign_eq youngest_def)
  have base: "ws_base r1 \<le> youngest (ww_repo w0 path)" "0 \<le> ws_base r1"
    using assms(10) y v by (auto simp: r1_def validateRecord_def youngest_def)
  have j0: "ww_journal w0 = ww_journal w" "ww_payload w0 = ww_payload w" by (simp_all add: w0_def commit_foreign_eq)
  have b0: "backed E w0 r" using assms(3) backed_cong [OF j0(1)] by simp
  obtain w1 where w1: "(if ws_base_known r then (None, w0) else Save_journal E c 4 r1 w0) = (None, w1)" "backed E w1 r1"
    "ww_payload w1 = ww_payload w" "ww_repo w1 = ww_repo w0"
  proof (cases "ws_base_known r")
    case True
    then show thesis using that [of w0] b0 j0 by (simp add: r1_def)
  next
    case False
    have "validateRecord E (stamp c r1)"
      using v base r1 assms(4-7) False by (simp add: validateRecord_def known_state_def r1_def stamp_def)
    then have "Save_journal E c 4 r1 w0 = (None, put_record (stamp c r1) w0)" "backed E (put_record (stamp c r1) w0) r1"
      using r1 assms(4,5,7) False by (auto intro!: save_works [OF assms(1,2) b0] simp: CanTransition_def)
    then show thesis using that False j0 by simp
  qed
  define w2 where "w2 = commit_foreign c 1 path w1"
  have w2: "ww_journal w2 = ww_journal w1" "ww_payload w2 = ww_payload w" "youngest (ww_repo w0 path) \<le> youngest (ww_repo w2 path)"
    by (simp_all add: w2_def commit_foreign_eq w1 youngest_def)
  have b2: "backed E w2 r1" using w1(2) backed_cong [OF w2(1)] by simp
  obtain m where m: "findGeneration c 1 (ww_repo w2 path) (ws_base r1 + 1) ?g = Some m" using find_works [OF assms(1)] by blast
  note def = PublishWhale_def [of E c path r w, unfolded Let_def w0_def [symmetric] r1_def [symmetric] w1(1) prod.case option.case w2_def [symmetric]]
  show thesis
  proof (cases "m = 0")
    case False
    then have "PublishWhale E c path r w = (Inr (m, r1), w2)"
      using def st m r1(1) assms(2,5,8) cooperativeD(6) [OF assms(1)] by simp
    then show thesis using that b2 find_after [OF m False base(2)] r1 by blast
  next
    case True
    have p: "ww_payload w2 (gen_of r1) = Some b" "ws_base r1 \<le> youngest (ww_repo w2 path)" using w2 assms(9) r1(1) base(1) by simp_all
    obtain n w3 where n: "publish_new E c path (ReservedNamespace @ ''/'' @ wi_path (ws_identity r)) r1 w2 = (Inr n, w3)"
      "ws_base r1 < n" "ww_journal w3 = ww_journal w2"
      by (rule publish_new_works [OF assms(1) p(1) base(2) p(2)])
    have "PublishWhale E c path r w = (Inr (n, r1), w3)"
      using def st m True n(1) r1(1) assms(2,5,8) cooperativeD(6) [OF assms(1)] by simp
    moreover have "backed E w3 r1" using b2 backed_cong [OF n(3)] by simp
    ultimately show thesis using that n(2) r1 by blast
  qed
qed

section \<open>Commit\<close>

lemma cleanup_journal: "ww_journal (snd (cleanup E c i w)) = ww_journal w"
proof -
  obtain ok w1 where 1: "release_put c (wi_generation i) w = (ok, w1)" by force
  then obtain l where l: "w1 = w\<lparr>ww_ledger := l\<rparr>" using release_put_step by blast
  have "snd (cleanup E c i w) = snd (Release_path E c i w1)" by (simp add: cleanup_def 1 split: prod.splits)
  then show ?thesis using queue_step_frame(4) [OF Release_step] by (simp add: l)
qed

lemma publish_locked_works:
  assumes "cooperative c" "we_complete E" "backed E w r" "ws_direction r = DirectionPut" "ws_state r = StateCommitting"
    "ws_bytes r = wi_size (ws_identity r)" "ws_revision r = 0" "is_abs path" "ww_payload w (gen_of r) = Some b"
    "ws_base_known r \<Longrightarrow> ws_base r \<le> youngest (ww_repo w path)"
  shows "\<exists>s. rec_at (snd (publish_locked E c path r w)) (gen_of r) = Some s \<and> ws_identity s = ws_identity r \<and> ws_state s = StatePublished"
proof -
  obtain m r1 w1 where p: "PublishWhale E c path r w = (Inr (m, r1), w1)" "backed E w1 r1" "ws_base r1 < m" "ws_base_known r1"
    "ws_identity r1 = ws_identity r" "ws_direction r1 = DirectionPut" "ws_state r1 = StateCommitting" "ws_bytes r1 = ws_bytes r"
    "ws_revision r1 = 0" "ws_created r1 = ws_created r"
    by (rule PublishWhale_works [OF assms])
  let ?r = "r1\<lparr>ws_revision := m, ws_state := StatePublished\<rparr>"
  have "validateRecord E (stamp c r1)" by (rule backed_valid [OF p(2)])
  moreover then have "0 \<le> ws_base r1" by (simp add: validateRecord_def)
  ultimately have "validateRecord E (stamp c ?r)"
    using p(3-9) assms(6) by (simp add: validateRecord_def known_state_def stamp_def)
  then have s: "Save_journal E c 5 ?r w1 = (None, put_record (stamp c ?r) w1)"
    using p by (intro save_works [OF assms(1,2) p(2)]) (simp_all add: CanTransition_def Terminal_def)
  have "snd (publish_locked E c path r w) = snd (cleanup E c (ws_identity ?r) (put_record (stamp c ?r) w1))"
    using assms(5) p(1) s by (simp add: publish_locked_def Let_def split: prod.splits option.splits)
  then show ?thesis using p(5) by (simp add: rec_at_def cleanup_journal)
qed

lemma commitLocked_works:
  assumes c: "cooperative c" and E: "we_complete E" "is_abs (repository_path E (wi_repo i))"
    and r: "requireRecord E c i w = Inr r" "ww_journal w (wi_generation i) = Some (Stored r)"
      "ws_state r \<in> {StateReceiving, StateValidating, StateCommitting}" "ws_bytes r = wi_size i" "ws_revision r = 0"
    and b: "ww_payload w (wi_generation i) = Some b" "declared E i b"
    and base: "ws_base_known r \<Longrightarrow> ws_base r \<le> youngest (ww_repo w (repository_path E (wi_repo i)))"
    and rs: "reserve_put c (wi_generation i) (wi_size i) w = (None, w1)"
  shows "\<exists>s. rec_at (snd (commitLocked E c i w)) (wi_generation i) = Some s \<and> ws_identity s = i \<and> ws_state s = StatePublished"
proof -
  let ?path = "repository_path E (wi_repo i)"
  note q = requireRecordD [OF r(1)]
  obtain l where l: "w1 = w\<lparr>ww_ledger := l\<rparr>" using reserve_put_step [OF rs] by blast
  have au: "authorize_put E c (wi_repo i) True = Inr ?path" using E cooperativeD(2) [OF c] by (simp add: authorize_put_def)
  have pp: "PayloadPath E c (wi_generation i) w1 = None"
    using load_works [OF c E(1), of w1 "wi_generation i" r] r(2) q by (simp add: PayloadPath_def l)
  have bk: "backed E w1 r" using r(2) q by (simp add: backed_def l)
  have nt: "\<not> Terminal (ws_state r)" "ws_state r \<noteq> StatePublished" using r(3) by (auto simp: Terminal_def)
  show ?thesis
  proof (cases "ws_state r = StateCommitting")
    case True
    then have "commitLocked E c i w = publish_locked E c ?path r w1" using au r(1) rs pp q nt by (simp add: commitLocked_def)
    then show ?thesis
      using publish_locked_works [OF c E(1) bk _ True _ r(5) E(2), of b] q r(4) b(1) base by (simp add: l)
  next
    case False
    obtain w2 where pc: "prepareCommit E c r w1 = (None, r\<lparr>ws_state := StateCommitting\<rparr>, w2)"
      "backed E w2 (r\<lparr>ws_state := StateCommitting\<rparr>)" "ww_payload w2 = ww_payload w1" "ww_repo w2 = ww_repo w1"
      by (rule prepareCommit_works [OF c E(1) bk _ _ r(5), of b]) (use q r(3,4) False b in \<open>auto simp: l\<close>)
    have "commitLocked E c i w = publish_locked E c ?path (r\<lparr>ws_state := StateCommitting\<rparr>) w2"
      using au r(1,3,4) rs pp q nt pc(1) False by (auto simp: commitLocked_def)
    then show ?thesis
      using publish_locked_works [OF c E(1) pc(2) _ _ _ _ E(2), of b] q r(4,5) b(1) pc(3,4) base by (simp add: l)
  qed
qed

text \<open>
  C12. A complete upload can always be brought to its publication: in whatever state of a run
  its bytes are all durable and match the declared digest, one commit whose surroundings answer
  leaves it published. No earlier failure, crash or left-over transaction stands in the way.
\<close>

theorem commit_publishes:
  assumes "reach whale_init (whale_step E calm) n" "cooperative c" "we_complete E" "is_abs (repository_path E (wi_repo i))"
    "rec_at (wn_world n) (wi_generation i) = Some r" "ws_identity r = i" "ws_bytes r = wi_size i" "ws_state r \<noteq> StateRejected"
    "we_sha256 E (bytes_of (wn_world n) (wi_generation i)) = wi_sha256 i"
    "int (length (bytes_of (wn_world n) (wi_generation i))) = wi_size i"
    "fst (reserve_put c (wi_generation i) (wi_size i) (wn_world n)) = None"
  shows "\<exists>s. rec_at (snd (Commit_put E c i (wn_world n))) (wi_generation i) = Some s \<and> ws_identity s = i \<and> ws_state s = StatePublished"
proof -
  let ?w = "wn_world n"
  have "world_ok E calm ?w" using whale.reach_inv [OF assms(1)] by (simp add: run_ok_def)
  then have ok: "record_ok E ?w (wi_generation i) r" using assms(5) by (rule world_okD(1))
  then have r: "validateRecord E r" "ws_direction r = DirectionPut"
    "ws_state r \<in> {StateReceiving, StateValidating, StateCommitting, StatePublished}" using assms(8) by (auto simp: record_ok_def)
  have v: "Validate_identity (we_uuid E) i" using r(1) assms(6) by (simp add: validateRecord_def)
  have j: "ww_journal ?w (wi_generation i) = Some (Stored r)"
    using assms(5) by (auto simp: rec_at_def split: option.splits stored.splits)
  have rr: "requireRecord E c i ?w = Inr r"
    using load_works [OF assms(2,3) j r(1)] v assms(6) r(2) by (simp add: requireRecord_def)
  have cm: "Commit_put E c i ?w = commitLocked E c i ?w" using v cooperativeD(1) [OF assms(2)] by (simp add: Commit_put_def)
  show ?thesis
  proof (cases "ws_state r = StatePublished")
    case True
    have "authorize_put E c (wi_repo i) True = Inr (repository_path E (wi_repo i))"
      using assms(3,4) cooperativeD(2) [OF assms(2)] by (simp add: authorize_put_def)
    then have "snd (commitLocked E c i ?w) = snd (cleanup E c (ws_identity r) ?w)"
      using True rr by (simp add: commitLocked_def split: prod.splits option.splits)
    then show ?thesis using True assms(5,6) cm by (simp add: rec_at_def cleanup_journal)
  next
    case False
    have "1 \<le> wi_size i" using v by (simp add: Validate_identity_def)
    then obtain b where b: "ww_payload ?w (wi_generation i) = Some b"
      using assms(10) by (cases "ww_payload ?w (wi_generation i)") (simp_all add: bytes_of_def)
    obtain w1 where rs: "reserve_put c (wi_generation i) (wi_size i) ?w = (None, w1)" using assms(11) by (metis prod.collapse)
    show ?thesis unfolding cm
      by (rule commitLocked_works [OF assms(2-4) rr j _ assms(7) _ b _ _ rs])
        (use ok r(3) False assms(6,9,10) b in \<open>auto simp: record_ok_def declared_def bytes_of_def\<close>)
  qed
qed

theorem commit_publishes_witness:
  "\<exists>s. rec_at (snd (Commit_put sample_env (sample_call good_answers [] True) sample_identity
       (sample_state (sample_record StateCommitting 1) (Some ''a'') sample_ledger no_revs))) ''g'' = Some s \<and> ws_state s = StatePublished"
proof -
  let ?n = "\<lparr>wn_world = sample_state (sample_record StateCommitting 1) (Some ''a'') sample_ledger no_revs, wn_flights = []\<rparr>"
  have c: "cooperative (sample_call good_answers [] True)"
    by (simp add: cooperative_def) (simp add: sample_call_def sample_answers_def)
  have a: "is_abs (repository_path sample_env (wi_repo sample_identity))" by (simp add: sample_home is_abs_def has_prefix_def)
  have d: "we_sha256 sample_env ''a'' = replicate 64 CHR ''0''" by (simp add: sample_env_def)
  have r: "rec_at (wn_world ?n) (wi_generation sample_identity) = Some (sample_record StateCommitting 1)" by simp
  show ?thesis
    using commit_publishes [OF sample_received_reach [of False] c _ a r] d by auto
qed

end
