(* ===== verification/Spec2Isabelle.thy ===== *)
theory Spec2Isabelle
  imports Orchestrator Passport_Safety Anchor_Queue_Inv Abuse_Guard Memory_Guard Supervisor
    Recipient_OTP_Props Runtime_Gates Path_Ownership_Inv Whale_Props Whale_Recovery
begin

text \<open>
  Verification of FileES, a file synchronisation system on top of Subversion: a daemon on the
  client (\<open>src/pkg\<close>, \<open>src/cmd/filees\<close>), workers on the server that execute control tickets, and
  a service that publishes folders (\<open>src/public-shares\<close>).

  \<^bold>\<open>How the code is translated.\<close> A Go function that returns a value and an error returns a
  sum (\<open>Inl\<close> the error); a method that changes its receiver takes and returns the record of
  its state. Strings are byte sequences, maps are association lists without repeated keys,
  instants and durations count nanoseconds and \<open>Sub\<close> saturates at 64 bits. What the code calls
  and this repository does not contain (the Subversion client, the transport, JSON, digests,
  UUIDs, the operating system) is a parameter record, and a theorem that relies on its answers
  says so in a hypothesis. A parameter that may answer differently each time receives the
  history of calls, or its answers are inputs of the step. A file replaced atomically is written, not written, or written with an
  error reported (\<open>save_outcome\<close>); a process that dies leaves what an error at that point
  leaves. Methods that run under one mutex or file lock are steps, and a run is any sequence
  of steps: \<open>reach\<close> and the locale \<open>invariant_system\<close> in \<open>FileES_Prelude\<close>, interpreted for
  each component. \<open>Go_Lib\<close> models the parts of \<open>time\<close>, \<open>strings\<close> and \<open>path/filepath\<close> in use.

  \<^bold>\<open>Provisioning\<close> (\<open>pkg/provisioning\<close>). \<open>Provisioning\<close> is the durable store of operations
  (\<open>store.go\<close>, and the transitions of \<open>archive.go\<close>): one definition per operation, all
  through \<open>mutate\<close>. \<open>Provisioning_Inv\<close> shows that every reachable store is well formed, that
  states follow the lifecycle, that a repository identity is never lost, and that a server
  result takes effect once. \<open>File_Policy\<close> and \<open>Initial_Scan\<close> are the ignore policy
  (\<open>pkg/filepolicy\<close>) and the scan of the folder; \<open>Initial_Import\<close> (\<open>import.go\<close>) publishes the
  scan in batches. A successful scan records exactly the admitted content; a successful
  publication commits exactly what was missing, once and in order; a failed one is recorded.
  \<open>Orchestrator\<close> (\<open>orchestrator.go\<close>, \<open>pkg/controlclient\<close>) composes them: its run changes the
  store only by store operations and ends.

  \<^bold>\<open>Edit passports\<close> (\<open>pkg/passport\<close>). \<open>Passport\<close> and \<open>Passport_Manager\<close> model the manager,
  \<open>Passport_Backend\<close> the durable lock intents and their control exchanges. The locales
  \<open>intent_backend\<close> and \<open>manager_env\<close> state what the manager relies on, and the control
  backend is an interpretation of them. No remote effect precedes its record on disk and an
  interrupted lock is never repeated (\<open>Passport_Durable\<close>); every store ever written opens
  again and reads back unchanged (\<open>Passport_Inv\<close>, \<open>Passport_Props\<close>); reservations of unknown
  outcome are kept and foreign locks are respected (\<open>Passport_Safety\<close>).

  \<^bold>\<open>Release queue\<close> (\<open>pkg/anchorqueue\<close>): \<open>Anchor_Queue\<close> and \<open>Anchor_Queue_Inv\<close>. The queue
  stays valid and bounded through failed saves and restarts, and pending work is never lost.
  \<^bold>\<open>Path ownership\<close> (\<open>pkg/pathownership\<close>): \<open>Path_Ownership\<close> and \<open>Path_Ownership_Inv\<close>. With a
  digest free of collisions (the hypothesis \<open>inj sha\<close>, an idealisation of SHA-256), replaying
  a log never gives two files one identity.

  \<^bold>\<open>The running daemon.\<close> \<open>Supervisor\<close> (\<open>pkg/reposupervisor\<close>): at most one pipeline per
  repository, convergence to the projection, and retry after a failure; the final \<open>Stop\<close> of
  the process is modelled but is not a step of these runs, since it forgets instances whose
  stop failed. \<open>Runtime_Gates\<close> (\<open>pkg/runtime\<close>): the admission gate and the synchronisation
  pause under every interleaving. \<open>Memory_Guard\<close> (\<open>pkg/memoryguard\<close>): 64-bit thresholds, and
  restarts that need three critical samples and are six hours apart.

  \<^bold>\<open>Public shares.\<close> \<open>Abuse_Guard\<close> (\<open>public-shares/abuse\<close>) bounds password guesses per source.
  \<open>Recipient_OTP\<close>, \<open>Recipient_OTP_Inv\<close> and \<open>Recipient_OTP_Props\<close>
  (\<open>public-shares/recipientotp\<close>) bound the codes mailed in a day, bound the wrong codes per
  epoch whose record was saved, and show that a mailed code opens its share while the epoch
  lasts. A delivery that reports an error counts
  as a mail, since it may have been queued.

  \<^bold>\<open>Whale uploads\<close> (\<open>pkg/whale/v1\<close>, \<open>internal/whaleworker\<close>). Large files are sent in windows and
  published into a reserved name space; every request is a process of its own, so all state is
  on disk. \<open>Whale_Contract\<close> models identities, states, requests and frames, which read back;
  \<open>Whale_Worker\<close> the journal (\<open>journal.go\<close>), the queue of each path (\<open>queue.go\<close>), the upload
  service (\<open>put.go\<close>) and its publisher (\<open>svn_publish.go\<close>); \<open>Capacity_Reservations\<close> the ledger of
  storage (\<open>pkg/repoworker/reservation.go\<close>), in which an admitted reservation fits.
  \<open>Whale_Inv\<close> splits the operations into elementary effects that keep an invariant,
  \<open>Whale_Runs\<close> shows that each operation is a sequence of them, and \<open>Whale_System\<close> interprets
  \<open>invariant_system\<close> for runs that interleave the start of a window, its claim, its locked part,
  commits, crashes, commits of others and late commits of surviving processes.
  \<open>Whale_Props\<close>: what is published is the declared file, acknowledged bytes stay, and a path has
  one transfer at a time. \<open>Whale_Recovery\<close>: a complete upload can always be published.
  \<open>Whale_Samples\<close> is one upload, evaluated. A generation is published once in runs marked calm:
  no process of an earlier attempt commits between the search for the generation and the
  removal of its transactions; \<open>published_twice\<close> is a run that is not calm. A path whose release
  failed on rejection stays busy (\<open>rejected_blocks_path\<close>), and two processes can reserve the
  same space (\<open>reserve_race\<close>). Of Subversion the model takes what its manual states:
  \<open>svnmucc\<close> commits one revision with its properties or none, a transaction it leaves has a new
  name, revisions are numbered in order. The section under the lock of a generation is one
  step; commits of others inside a publication are in the model, except publications of other
  generations, which come before or after it.

  \<^bold>\<open>Bounds and fuel.\<close> \<open>commit_batches\<close> has one unit of fuel more than there are pending
  files. With a positive limit of files per batch every batch takes at least one, so it never
  runs out (\<open>commit_batches_total\<close>). \<open>RunCreate\<close> has the number of iterations as fuel: eight
  are enough from a well-formed store when new identifiers are fresh (\<open>RunCreate_terminates\<close>),
  as each iteration raises the rank of the state. All other recursion is structural or has a
  termination proof.

  \<^bold>\<open>Not modelled.\<close> Most of the repository by size: the commit pipeline, the watcher, the
  server-side workers, the daemon that composes the components, local repository records,
  enrolment, history, mobile transfers, Whale downloads with the dispatcher and the client, the
  rest of the public shares, the graphical interface, the server tools and the release
  channels. Much of it has state and
  decisions that could be modelled; it has not been done yet. The Subversion client, the SSH
  tunnel, JSON and the operating system stay parameters.
  Of the modelled packages, these are left out: file modes and presentation callbacks of the
  passport manager; the parsing of addresses and the timer in \<open>abuse\<close>; \<open>Run\<close> and
  \<open>ReadSample\<close> in \<open>memoryguard\<close>; the waiting loop of \<open>EnterContext\<close>; the copying of archives
  in \<open>archive.go\<close>; temporary files, size limits and empty directories in the sweep of one-time
  codes; \<open>ParseLog\<close> in \<open>pathownership\<close>; the JSON of Whale headers, the text the Subversion
  programs print, and the URLs they are given. Data races and the Go memory model are outside: a
  critical section is atomic.
\<close>

end
